(* ===== verification/Prelude.thy ===== *)
theory Prelude
  imports Main "HOL-Library.AList" "HOL-Library.Multiset"
begin

text \<open>
  What the components of the dashboard model share: JavaScript's arrays (reads past the end
  give \<open>undefined\<close>), its insertion-ordered \<open>Map\<close>, its stable \<open>Array.prototype.sort\<close>, the
  nullish operators, and the notion of a run of a state machine with an invariant. The two
  locales of this theory are the interfaces the components use: a keyed store (what a lookup
  returns after \<open>set\<close> and \<open>delete\<close>) and an invariant kept by every step.
\<close>

named_theorems js_list \<open>rewriting of the array operations\<close>
named_theorems js_map \<open>rewriting of lookups after updates of a Map\<close>

section \<open>null and undefined\<close>

text \<open>A value that may be \<open>null\<close> or \<open>undefined\<close> is an option; \<open>a ?? b\<close> is \<open>nullish\<close>.\<close>

fun nullish :: "'a option \<Rightarrow> 'a \<Rightarrow> 'a" where
  "nullish None d = d"
| "nullish (Some x) d = x"

fun nullish_opt :: "'a option \<Rightarrow> 'a option \<Rightarrow> 'a option" where
  "nullish_opt None d = d"
| "nullish_opt (Some x) d = Some x"

section \<open>Arrays\<close>

definition elem_at :: "'a list \<Rightarrow> nat \<Rightarrow> 'a option" where
  "elem_at xs i = (if i < length xs then Some (xs ! i) else None)"

lemma elem_at_Nil [simp, js_list]: "elem_at [] i = None"
  by (simp add: elem_at_def)

lemma elem_at_in [js_list]: "i < length xs \<Longrightarrow> elem_at xs i = Some (xs ! i)"
  by (simp add: elem_at_def)

lemma elem_at_out [js_list]: "length xs \<le> i \<Longrightarrow> elem_at xs i = None"
  by (simp add: elem_at_def)

lemma elem_at_0_Cons [simp, js_list]: "elem_at (x # xs) 0 = Some x"
  by (simp add: elem_at_def)

lemma elem_at_Suc_Cons [simp, js_list]: "elem_at (x # xs) (Suc i) = elem_at xs i"
  by (simp add: elem_at_def)

lemma elem_at_Some_iff: "elem_at xs i = Some x \<longleftrightarrow> i < length xs \<and> xs ! i = x"
  by (auto simp: elem_at_def)

text \<open>The last element with a property, as left behind by repeated assignments.\<close>

definition find_last :: "('a \<Rightarrow> bool) \<Rightarrow> 'a list \<Rightarrow> 'a option" where
  "find_last p xs = find p (rev xs)"

lemma find_append: "find p (xs @ ys) = (case find p xs of None \<Rightarrow> find p ys | Some x \<Rightarrow> Some x)"
  by (induction xs) auto

lemma find_last_Nil [simp]: "find_last p [] = None"
  by (simp add: find_last_def)

lemma find_last_snoc: "find_last p (xs @ [x]) = (if p x then Some x else find_last p xs)"
  by (simp add: find_last_def)

lemma find_last_SomeD: "find_last p xs = Some x \<Longrightarrow> x \<in> set xs \<and> p x"
  by (auto simp: find_last_def find_Some_iff rev_nth)

lemma find_last_None_iff: "find_last p xs = None \<longleftrightarrow> (\<forall>x\<in>set xs. \<not> p x)"
  by (auto simp: find_last_def find_None_iff)

lemma find_last_unique:
  assumes "x \<in> set xs" "p x" "\<And>y. y \<in> set xs \<Longrightarrow> p y \<Longrightarrow> y = x"
  shows "find_last p xs = Some x"
proof (cases "find_last p xs")
  case None
  with assms(1,2) show ?thesis by (auto simp: find_last_None_iff)
next
  case (Some y)
  with find_last_SomeD assms(3) show ?thesis by metis
qed

section \<open>The stable sort of arrays\<close>

text \<open>
  \<open>sort\<close> is stable since ECMAScript 2019, so its result is fixed by the comparison alone.
  \<open>le a b\<close> stands for \<open>compare(a, b) <= 0\<close>: an element goes before the first later one that it
  does not exceed.
\<close>

fun insert_by :: "('a \<Rightarrow> 'a \<Rightarrow> bool) \<Rightarrow> 'a \<Rightarrow> 'a list \<Rightarrow> 'a list" where
  "insert_by le x [] = [x]"
| "insert_by le x (y # ys) = (if le x y then x # y # ys else y # insert_by le x ys)"

fun sort_by :: "('a \<Rightarrow> 'a \<Rightarrow> bool) \<Rightarrow> 'a list \<Rightarrow> 'a list" where
  "sort_by le [] = []"
| "sort_by le (x # xs) = insert_by le x (sort_by le xs)"

lemma mset_insert_by [simp]: "mset (insert_by le x xs) = add_mset x (mset xs)"
  by (induction xs) auto

lemma mset_sort_by [simp]: "mset (sort_by le xs) = mset xs"
  by (induction xs) auto

lemma set_insert_by [simp]: "set (insert_by le x xs) = insert x (set xs)"
  by (induction xs) auto

lemma set_sort_by [simp]: "set (sort_by le xs) = set xs"
  by (induction xs) auto

lemma length_sort_by [simp]: "length (sort_by le xs) = length xs"
  using mset_sort_by[of le xs] mset_eq_length by blast

lemma sorted_insert_by:
  assumes total: "\<And>x y. le x y \<or> le y x" and trans: "\<And>x y z. le x y \<Longrightarrow> le y z \<Longrightarrow> le x z"
  shows "sorted_wrt le xs \<Longrightarrow> sorted_wrt le (insert_by le x xs)"
proof (induction xs)
  case (Cons y ys)
  have "le x z" if "le x y" "z \<in> set ys" for z using Cons.prems that by (auto intro: trans)
  moreover have "le y x" if "\<not> le x y" using total[of x y] that by simp
  ultimately show ?case using Cons by auto
qed simp

lemma sorted_sort_by:
  assumes "\<And>x y. le x y \<or> le y x" and "\<And>x y z. le x y \<Longrightarrow> le y z \<Longrightarrow> le x z"
  shows "sorted_wrt le (sort_by le xs)"
  by (induction xs) (auto intro: sorted_insert_by[OF assms])

section \<open>Insertion-ordered maps\<close>

text \<open>
  A JavaScript \<open>Map\<close> enumerates its entries in insertion order, and \<open>set\<close> on a key that is
  present replaces the value in place: an association list under \<open>AList.update\<close>.
\<close>

type_synonym ('k, 'v) jsmap = "('k \<times> 'v) list"

abbreviation map_get :: "('k, 'v) jsmap \<Rightarrow> 'k \<Rightarrow> 'v option" where
  "map_get \<equiv> map_of"

abbreviation map_set :: "'k \<Rightarrow> 'v \<Rightarrow> ('k, 'v) jsmap \<Rightarrow> ('k, 'v) jsmap" where
  "map_set \<equiv> AList.update"

abbreviation map_delete :: "'k \<Rightarrow> ('k, 'v) jsmap \<Rightarrow> ('k, 'v) jsmap" where
  "map_delete \<equiv> AList.delete"

abbreviation map_values :: "('k, 'v) jsmap \<Rightarrow> 'v list" where
  "map_values m \<equiv> map snd m"

definition map_ok :: "('k, 'v) jsmap \<Rightarrow> bool" where
  "map_ok m = distinct (map fst m)"

lemma map_get_set [js_map]: "map_get (map_set k v m) k' = (if k' = k then Some v else map_get m k')"
  by (simp add: update_conv)

lemma map_get_delete [js_map]: "map_get (map_delete k m) k' = (if k' = k then None else map_get m k')"
  by (simp add: delete_conv')

locale keyed_store =
  fixes empty :: 'm
    and get :: "'m \<Rightarrow> 'k \<Rightarrow> 'v option"
    and put :: "'k \<Rightarrow> 'v \<Rightarrow> 'm \<Rightarrow> 'm"
    and del :: "'k \<Rightarrow> 'm \<Rightarrow> 'm"
    and ok :: "'m \<Rightarrow> bool"
  assumes get_empty: "get empty k = None"
    and get_put: "get (put k v m) k' = (if k' = k then Some v else get m k')"
    and get_del: "get (del k m) k' = (if k' = k then None else get m k')"
    and ok_empty: "ok empty"
    and ok_put: "ok m \<Longrightarrow> ok (put k v m)"
    and ok_del: "ok m \<Longrightarrow> ok (del k m)"
begin

text \<open>Filling a store in a loop: a key holds what its last occurrence wrote.\<close>

lemma get_fold_put:
  "get (fold (\<lambda>x. put (key x) (val x)) xs m) k =
     (case find_last (\<lambda>x. key x = k) xs of Some x \<Rightarrow> Some (val x) | None \<Rightarrow> get m k)"
  by (induction xs rule: rev_induct) (auto simp: get_put find_last_snoc)

lemma ok_fold_put: "ok m \<Longrightarrow> ok (fold (\<lambda>x. put (key x) (val x)) xs m)"
  by (induction xs arbitrary: m) (auto intro: ok_put)

lemma get_put_same: "get (put k v m) k = Some v"
  by (simp add: get_put)

lemma get_put_other: "k' \<noteq> k \<Longrightarrow> get (put k v m) k' = get m k'"
  by (simp add: get_put)

end

interpretation jsm: keyed_store "[]" map_get map_set map_delete map_ok
  by unfold_locales
    (auto simp: js_map map_ok_def distinct_update distinct_delete)

section \<open>Runs of a state machine\<close>

text \<open>
  The event handlers of a component are a function from a state and an event to the next
  state; a run is a left fold. \<open>enabled\<close> says which events the environment can deliver.
\<close>

fun run :: "('s \<Rightarrow> 'e \<Rightarrow> 's) \<Rightarrow> 's \<Rightarrow> 'e list \<Rightarrow> 's" where
  "run step s [] = s"
| "run step s (e # es) = run step (step s e) es"

fun enabled_run :: "('s \<Rightarrow> 'e \<Rightarrow> bool) \<Rightarrow> ('s \<Rightarrow> 'e \<Rightarrow> 's) \<Rightarrow> 's \<Rightarrow> 'e list \<Rightarrow> bool" where
  "enabled_run enabled step s [] = True"
| "enabled_run enabled step s (e # es) = (enabled s e \<and> enabled_run enabled step (step s e) es)"

lemma run_append: "run step s (es @ fs) = run step (run step s es) fs"
  by (induction es arbitrary: s) auto

locale machine =
  fixes step :: "'s \<Rightarrow> 'e \<Rightarrow> 's"
    and enabled :: "'s \<Rightarrow> 'e \<Rightarrow> bool"
    and inv :: "'s \<Rightarrow> bool"
  assumes inv_step: "inv s \<Longrightarrow> enabled s e \<Longrightarrow> inv (step s e)"
begin

lemma inv_run: "inv s \<Longrightarrow> enabled_run enabled step s es \<Longrightarrow> inv (run step s es)"
  by (induction es arbitrary: s) (auto intro: inv_step)

end

end
