(* ===== verification/Doubles.thy ===== *)
theory Doubles
  imports Complex_Main "HOL-Library.Log_Nat" Prelude
begin

text \<open>
  IEEE-754 binary64 rounding, the arithmetic under every JavaScript Number. \<open>rnd x\<close> is the
  double nearest to the rational \<open>x\<close>, ties to even, with 53 significant bits and the least
  exponent -1074; overflow is dealt with in theory \<open>Numbers\<close>. The locale \<open>rounding\<close> states the
  laws the components use (monotone, idempotent, odd, exact on the integers up to 2^53), and
  \<open>dbl\<close> interprets it on \<open>rnd\<close>.
\<close>

section \<open>The rounding function\<close>

text \<open>\<open>ilog2 x\<close> is the binary exponent of a positive \<open>x\<close>, \<open>quantum x\<close> that of its last bit.\<close>

definition ilog2 :: "rat \<Rightarrow> int" where
  "ilog2 x = (case quotient_of x of (p, q) \<Rightarrow>
     let k = bitlen p - bitlen q
     in if 2 powi k \<le> x then k else k - 1)"

definition round_half_even :: "rat \<Rightarrow> int" where
  "round_half_even x =
     (let f = \<lfloor>x\<rfloor>; d = x - of_int f
      in if d < 1/2 then f else if 1/2 < d then f + 1 else if even f then f else f + 1)"

definition quantum :: "rat \<Rightarrow> int" where
  "quantum x = (if x = 0 then -1074 else max (ilog2 \<bar>x\<bar> - 52) (-1074))"

definition rnd :: "rat \<Rightarrow> rat" where
  "rnd x = of_int (round_half_even (x / 2 powi quantum x)) * 2 powi quantum x"

section \<open>Exponents\<close>

lemma bitlen_powi_bounds:
  assumes "0 < p"
  shows "2 powi (bitlen p - 1) \<le> (of_int p :: rat)" and "(of_int p :: rat) < 2 powi bitlen p"
proof -
  have b: "1 \<le> bitlen p" using assms by (auto simp: bitlen_alt_def)
  have "2 powi (bitlen p - 1) = (of_int (2 ^ nat (bitlen p - 1)) :: rat)"
    using b by (simp add: power_int_def)
  also have "\<dots> \<le> of_int p" using bitlen_bounds[OF assms] by (simp only: of_int_le_iff)
  finally show "2 powi (bitlen p - 1) \<le> (of_int p :: rat)" .
  have "(of_int p :: rat) < of_int (2 ^ nat (bitlen p))"
    using bitlen_bounds[OF assms] by (simp only: of_int_less_iff)
  then show "(of_int p :: rat) < 2 powi bitlen p" using b by (simp add: power_int_def)
qed

lemma ilog2_spec:
  assumes "0 < x"
  shows "2 powi ilog2 x \<le> x \<and> x < 2 powi (ilog2 x + 1)"
proof -
  obtain p q where pq: "quotient_of x = (p, q)" by (cases "quotient_of x")
  have x: "x = of_int p / of_int q" and q: "0 < q"
    using quotient_of_div[OF pq] quotient_of_denom_pos[OF pq] by auto
  have p: "0 < p" using assms q by (simp add: x zero_less_divide_iff)
  define a where "a = bitlen p"
  define b where "b = bitlen q"
  define k where "k = a - b"
  have P: "2 powi (a - 1) \<le> (of_int p :: rat)" "(of_int p :: rat) < 2 powi a"
    and Q: "2 powi (b - 1) \<le> (of_int q :: rat)" "(of_int q :: rat) < 2 powi b"
    using bitlen_powi_bounds p q by (auto simp: a_def b_def)
  have "x < 2 powi a / 2 powi (b - 1)"
    unfolding x using P Q q p by (intro frac_less) auto
  then have hi: "x < 2 powi (k + 1)" by (simp add: k_def power_int_diff power_int_add)
  have "2 powi (a - 1) / 2 powi b \<le> x"
    unfolding x using P Q q p by (intro frac_le) auto
  then have lo: "2 powi (k - 1) \<le> x" by (simp add: k_def power_int_diff power_int_add)
  have "ilog2 x = (if 2 powi k \<le> x then k else k - 1)"
    by (simp add: ilog2_def pq k_def a_def b_def Let_def)
  with lo hi show ?thesis by (auto simp: not_le)
qed

lemma two_powi_less [simp]: "((2::rat) powi a < 2 powi b) = (a < b)"
  by (metis (full_types) linorder_neqE less_asym one_less_numeral_iff power_int_strict_increasing semiring_norm(76))

lemma two_powi_le [simp]: "((2::rat) powi a \<le> 2 powi b) = (a \<le> b)"
  by (simp flip: not_less)

lemma two_powi_pos [simp]: "0 < (2::rat) powi a"
  by simp

lemma ilog2_unique:
  assumes "2 powi k \<le> x" and "x < 2 powi (k + 1)"
  shows "ilog2 x = k"
proof -
  have x: "0 < x" using assms(1) by (meson less_le_trans zero_less_power_int zero_less_numeral)
  note s = ilog2_spec[OF x]
  have "(2::rat) powi k < 2 powi (ilog2 x + 1)" "(2::rat) powi ilog2 x < 2 powi (k + 1)"
    using s assms by linarith+
  then have "k < ilog2 x + 1" "ilog2 x < k + 1"
    by simp_all
  then show ?thesis by simp
qed

lemma ilog2_mono: "0 < x \<Longrightarrow> x \<le> y \<Longrightarrow> ilog2 x \<le> ilog2 y"
proof -
  assume x: "0 < x" and xy: "x \<le> y"
  have "(2::rat) powi ilog2 x < 2 powi (ilog2 y + 1)"
    using ilog2_spec[OF x] ilog2_spec[of y] x xy by linarith
  then show ?thesis by simp_all
qed

lemma round_half_even_mono: "x \<le> y \<Longrightarrow> round_half_even x \<le> round_half_even y"
proof -
  assume xy: "x \<le> y"
  then have f: "\<lfloor>x\<rfloor> \<le> \<lfloor>y\<rfloor>" by (rule floor_mono)
  show ?thesis
  proof (cases "\<lfloor>x\<rfloor> = \<lfloor>y\<rfloor>")
    case True
    with xy show ?thesis by (auto simp: round_half_even_def Let_def)
  next
    case False
    with f have "\<lfloor>x\<rfloor> + 1 \<le> \<lfloor>y\<rfloor>" by simp
    then show ?thesis by (auto simp: round_half_even_def Let_def)
  qed
qed

lemma round_half_even_int [simp]: "round_half_even (of_int k) = k"
  by (simp add: round_half_even_def)

lemma round_half_even_uminus: "round_half_even (- x) = - round_half_even x"
proof (cases "of_int \<lfloor>x\<rfloor> = x")
  case True
  then show ?thesis by (metis of_int_minus round_half_even_int)
next
  case False
  define f where "f = \<lfloor>x\<rfloor>"
  have f1: "of_int f \<le> x" "x < of_int f + 1" unfolding f_def by linarith+
  with False have f2: "of_int f < x" by (simp add: f_def order_less_le)
  have g: "\<lfloor>- x\<rfloor> = - f - 1" using f1 f2 by (intro floor_unique) auto
  show ?thesis unfolding round_half_even_def g Let_def f_def[symmetric] by (auto simp: field_simps)
qed

lemma round_half_even_near: "\<bar>of_int (round_half_even x) - x\<bar> \<le> 1/2"
  unfolding round_half_even_def Let_def by (auto simp: abs_if) linarith+

section \<open>Rounding to a double\<close>

lemma quantum_mono: "\<bar>x\<bar> \<le> \<bar>y\<bar> \<Longrightarrow> quantum x \<le> quantum y"
  using ilog2_mono[of "\<bar>x\<bar>" "\<bar>y\<bar>"] by (auto simp: quantum_def)

lemma quantum_uminus [simp]: "quantum (- x) = quantum x"
  by (simp add: quantum_def)

lemma rnd_0 [simp]: "rnd 0 = 0"
  using round_half_even_int[of 0] by (simp add: rnd_def)

lemma rnd_uminus: "rnd (- x) = - rnd x"
  by (simp add: rnd_def round_half_even_uminus)

lemma rnd_eqI: "x = of_int k * 2 powi quantum x \<Longrightarrow> rnd x = x"
  by (metis nonzero_mult_div_cancel_right rnd_def round_half_even_int two_powi_pos less_irrefl)

lemma rnd_exactI:
  assumes x: "x = of_int m * 2 powi e" and m: "\<bar>m\<bar> \<le> 2 ^ 53" and e: "-1074 \<le> e"
  shows "rnd x = x"
proof (cases "x = 0")
  case False
  then have x0: "0 < \<bar>x\<bar>" by simp
  note s = ilog2_spec[OF x0]
  have absx: "\<bar>x\<bar> = of_int \<bar>m\<bar> * 2 powi e" by (simp add: x abs_mult)
  show ?thesis
  proof (cases "ilog2 \<bar>x\<bar> \<le> 52 + e")
    case True
    define q where "q = quantum x"
    have q: "q \<le> e" using True e False by (simp add: q_def quantum_def)
    have "(2::rat) powi e = 2 powi (e - q) * 2 powi q" by (simp add: power_int_diff)
    also have "(2::rat) powi (e - q) = of_int (2 ^ nat (e - q))" using q by (simp add: power_int_def)
    finally have "x = of_int (m * 2 ^ nat (e - q)) * 2 powi q" by (simp add: x)
    then show ?thesis unfolding q_def by (rule rnd_eqI)
  next
    case False': False
    have "of_int \<bar>m\<bar> \<le> (of_int (2 ^ 53) :: rat)" using m by (simp only: of_int_le_iff)
    then have "\<bar>x\<bar> \<le> 2 ^ 53 * 2 powi e" unfolding absx by (intro mult_right_mono) auto
    also have "\<dots> = 2 powi (53 + e)" by (simp add: power_int_add)
    finally have hi: "\<bar>x\<bar> \<le> 2 powi (53 + e)" .
    have "2 powi (53 + e) \<le> (2::rat) powi ilog2 \<bar>x\<bar>" using False' by simp
    with s hi have eq: "\<bar>x\<bar> = 2 powi (53 + e)" by linarith
    then have "ilog2 \<bar>x\<bar> = 53 + e" by (auto intro!: ilog2_unique)
    then have q: "quantum x = e + 1" using e False by (simp add: quantum_def)
    have "\<bar>x\<bar> = of_int (2 ^ 52) * 2 powi quantum x" unfolding q eq by (simp add: power_int_add)
    then have "x = of_int (sgn m * 2 ^ 52) * 2 powi quantum x"
      using False two_powi_pos[of e]
      by (auto simp: x sgn_if abs_if mult_less_0_iff zero_less_mult_iff split: if_splits)
    then show ?thesis by (rule rnd_eqI)
  qed
qed simp

lemma rnd_of_int [simp]: "\<bar>n\<bar> \<le> 2 ^ 53 \<Longrightarrow> rnd (of_int n) = of_int n"
  by (rule rnd_exactI[of _ n 0]) auto

lemma rnd_mono_nonneg:
  assumes "0 \<le> x" and "x \<le> y"
  shows "rnd x \<le> rnd y"
proof (cases "quantum x = quantum y")
  case True
  have "x / 2 powi quantum x \<le> y / 2 powi quantum x" using assms by (simp add: divide_right_mono)
  then show ?thesis unfolding rnd_def True[symmetric]
    by (intro mult_right_mono) (auto intro: round_half_even_mono)
next
  case False
  have le: "quantum x \<le> quantum y" using quantum_mono[of x y] assms by simp
  with False have lt: "quantum x < quantum y" by simp
  then have y: "0 < y" "quantum y = ilog2 y - 52" using assms by (auto simp: quantum_def split: if_splits)
  have "of_int (2 ^ 52) \<le> y / 2 powi quantum y"
    using ilog2_spec[OF y(1)] by (simp add: y(2) pos_le_divide_eq power_int_diff)
  from round_half_even_mono[OF this] have "2 ^ 52 \<le> round_half_even (y / 2 powi quantum y)"
    by (simp only: round_half_even_int)
  then have "of_int (2 ^ 52) \<le> (of_int (round_half_even (y / 2 powi quantum y)) :: rat)"
    by (simp only: of_int_le_iff)
  then have hi: "2 ^ 52 * 2 powi quantum y \<le> rnd y"
    unfolding rnd_def by (intro mult_right_mono) auto
  have "x < 2 powi (quantum x + 53)"
  proof (cases "x = 0")
    case False
    then have "x < 2 powi (ilog2 x + 1)" "ilog2 x + 1 \<le> quantum x + 53"
      using ilog2_spec[of x] assms by (auto simp: quantum_def)
    then show ?thesis by (meson less_le_trans two_powi_le)
  qed simp
  then have "x / 2 powi quantum x \<le> of_int (2 ^ 53)"
    by (simp add: pos_divide_le_eq power_int_add mult.commute)
  from round_half_even_mono[OF this] have "round_half_even (x / 2 powi quantum x) \<le> 2 ^ 53"
    by (simp only: round_half_even_int)
  then have "(of_int (round_half_even (x / 2 powi quantum x)) :: rat) \<le> of_int (2 ^ 53)"
    by (simp only: of_int_le_iff)
  then have "rnd x \<le> 2 ^ 53 * 2 powi quantum x"
    unfolding rnd_def by (intro mult_right_mono) auto
  also have "\<dots> \<le> 2 ^ 52 * 2 powi quantum y"
  proof -
    have "(2::rat) powi (quantum x + 1) \<le> 2 powi quantum y" using lt by simp
    then show ?thesis by (simp add: power_int_add)
  qed
  finally show ?thesis using hi by linarith
qed

lemma rnd_nonneg: "0 \<le> x \<Longrightarrow> 0 \<le> rnd x"
  using rnd_mono_nonneg[of 0 x] by simp

lemma rnd_mono: "x \<le> y \<Longrightarrow> rnd x \<le> rnd y"
proof -
  assume xy: "x \<le> y"
  consider "0 \<le> x" | "x \<le> 0" "0 \<le> y" | "y \<le> 0" "x \<le> 0" using xy by linarith
  then show ?thesis
  proof cases
    case 1
    then show ?thesis using xy by (rule rnd_mono_nonneg)
  next
    case 2
    then have "0 \<le> rnd y" "0 \<le> rnd (- x)" by (auto intro: rnd_nonneg)
    then show ?thesis by (simp add: rnd_uminus)
  next
    case 3
    then have "rnd (- y) \<le> rnd (- x)" using xy by (intro rnd_mono_nonneg) auto
    then show ?thesis by (simp add: rnd_uminus)
  qed
qed

lemma rnd_idem [simp]: "rnd (rnd x) = rnd x"
proof (rule rnd_exactI)
  show "rnd x = of_int (round_half_even (x / 2 powi quantum x)) * 2 powi quantum x" by (rule rnd_def)
  show "-1074 \<le> quantum x" by (simp add: quantum_def)
  have "\<bar>x\<bar> < 2 powi (quantum x + 53)"
  proof (cases "x = 0")
    case False
    then have "\<bar>x\<bar> < 2 powi (ilog2 \<bar>x\<bar> + 1)" "ilog2 \<bar>x\<bar> + 1 \<le> quantum x + 53"
      using ilog2_spec[of "\<bar>x\<bar>"] by (auto simp: quantum_def)
    then show ?thesis by (meson less_le_trans two_powi_le)
  qed simp
  then have "- of_int (2 ^ 53) \<le> x / 2 powi quantum x" "x / 2 powi quantum x \<le> of_int (2 ^ 53)"
    by (auto simp: pos_divide_le_eq pos_le_divide_eq power_int_add mult.commute abs_less_iff)
  from this(1)[folded of_int_minus, THEN round_half_even_mono] this(2)[THEN round_half_even_mono]
  show "\<bar>round_half_even (x / 2 powi quantum x)\<bar> \<le> 2 ^ 53"
    by (simp only: round_half_even_int abs_le_iff minus_le_iff)
qed


lemma rnd_near: "\<bar>rnd x - x\<bar> \<le> 2 powi quantum x / 2"
proof -
  let ?q = "(2::rat) powi quantum x"
  have "rnd x - x = (of_int (round_half_even (x / ?q)) - x / ?q) * ?q"
    by (simp add: rnd_def left_diff_distrib)
  then have "\<bar>rnd x - x\<bar> = \<bar>of_int (round_half_even (x / ?q)) - x / ?q\<bar> * ?q"
    by (simp add: abs_mult)
  also have "\<dots> \<le> 1/2 * ?q" by (intro mult_right_mono round_half_even_near) auto
  finally show ?thesis by simp
qed

text \<open>In the range of normal doubles the relative error is at most 2^-53.\<close>

lemma rnd_relative:
  assumes "2 powi (-1000) \<le> \<bar>x\<bar>"
  shows "\<bar>rnd x - x\<bar> \<le> \<bar>x\<bar> / 2 ^ 53"
proof -
  have x0: "0 < \<bar>x\<bar>" using assms two_powi_pos[of "-1000"] by linarith
  have s: "2 powi ilog2 \<bar>x\<bar> \<le> \<bar>x\<bar>" "\<bar>x\<bar> < 2 powi (ilog2 \<bar>x\<bar> + 1)" using ilog2_spec[OF x0] by auto
  have "(2::rat) powi (-1000) < 2 powi (ilog2 \<bar>x\<bar> + 1)" using assms s(2) by linarith
  then have "-1000 \<le> ilog2 \<bar>x\<bar>" unfolding two_powi_less by simp
  then have q: "quantum x = ilog2 \<bar>x\<bar> + (-52)" using x0 by (simp add: quantum_def)
  have "2 powi quantum x / 2 = 2 powi ilog2 \<bar>x\<bar> / (2 ^ 53 :: rat)"
    unfolding q by (subst power_int_add) (simp_all add: power_int_minus)
  also have "\<dots> \<le> \<bar>x\<bar> / 2 ^ 53" using s(1) by (intro divide_right_mono) auto
  finally show ?thesis using rnd_near[of x] by linarith
qed

lemma rnd_close:
  assumes "1 / 1000000000 \<le> x"
  shows "x * (1 - 1 / 1000000) \<le> rnd x \<and> rnd x \<le> x * (1 + 1 / 1000000)"
proof -
  have "(2::rat) powi (-1000) \<le> 2 powi (-30)" unfolding two_powi_le by simp
  also have "(2::rat) powi (-30) = 1 / 2 ^ 30" by (simp add: power_int_minus field_simps)
  also have "\<dots> \<le> \<bar>x\<bar>" using assms by simp
  finally have "\<bar>rnd x - x\<bar> \<le> \<bar>x\<bar> / 2 ^ 53" by (rule rnd_relative)
  moreover have "\<bar>x\<bar> / 2 ^ 53 \<le> x / 1000000" using assms by simp
  ultimately have "\<bar>rnd x - x\<bar> \<le> x / 1000000" by (rule order_trans)
  then have "rnd x - x \<le> x / 1000000" "x - rnd x \<le> x / 1000000" by linarith+
  then show ?thesis by (simp only: right_diff_distrib distrib_left mult_1_right times_divide_eq_right) linarith
qed

text \<open>Doubles are multiples of the least quantum, so the difference of two distinct ones does not round to zero.\<close>

lemma rnd_multiple: "\<exists>k. rnd x = of_int k * 2 powi (-1074)"
proof -
  have q: "-1074 \<le> quantum x" by (simp add: quantum_def)
  define n where "n = nat (quantum x + 1074)"
  have n: "quantum x = int n + (-1074)" using q by (simp add: n_def)
  have "(2::rat) powi quantum x = 2 powi int n * 2 powi (-1074)"
    unfolding n by (rule power_int_add) simp
  then have "rnd x = of_int (round_half_even (x / 2 powi quantum x) * 2 ^ n) * 2 powi (-1074)"
    by (simp add: rnd_def)
  then show ?thesis by blast
qed

lemma rnd_diff_pos:
  assumes "rnd a = a" "rnd b = b" "a < b"
  shows "0 < rnd (b - a)"
proof -
  let ?q = "(2::rat) powi (-1074)"
  obtain i j where ij: "a = of_int i * ?q" "b = of_int j * ?q"
    using rnd_multiple[of a] rnd_multiple[of b] assms(1,2) by auto
  have "i < j" using assms(3) two_powi_pos[of "-1074"] by (simp only: ij mult_less_cancel_right_pos of_int_less_iff)
  then have "(1::rat) \<le> of_int (j - i)" by simp
  then have "1 * ?q \<le> of_int (j - i) * ?q" by (rule mult_right_mono) simp
  moreover have "b - a = of_int (j - i) * ?q" by (simp add: ij left_diff_distrib)
  ultimately have "?q \<le> b - a" by simp
  then have "rnd ?q \<le> rnd (b - a)" by (rule rnd_mono)
  moreover have "rnd ?q = ?q" by (rule rnd_exactI[of _ 1 "-1074"]) auto
  ultimately show ?thesis using two_powi_pos[of "-1074"] by linarith
qed

section \<open>The interface of a rounding\<close>

locale rounding =
  fixes r :: "rat \<Rightarrow> rat"
  assumes r_mono: "x \<le> y \<Longrightarrow> r x \<le> r y"
    and r_idem: "r (r x) = r x"
    and r_odd: "r (- x) = - r x"
    and r_int: "\<bar>n\<bar> \<le> 2 ^ 53 \<Longrightarrow> r (of_int n) = of_int n"
begin

lemma r_zero: "r 0 = 0"
  using r_int[of 0] by simp

lemma r_one: "r 1 = 1"
  using r_int[of 1] by simp

lemma r_le: "x \<le> b \<Longrightarrow> r b = b \<Longrightarrow> r x \<le> b"
  using r_mono[of x b] by simp

lemma r_ge: "a \<le> x \<Longrightarrow> r a = a \<Longrightarrow> a \<le> r x"
  using r_mono[of a x] by simp

lemma r_ge_0: "0 \<le> x \<Longrightarrow> 0 \<le> r x"
  by (rule r_ge[OF _ r_zero])

lemma r_le_0: "x \<le> 0 \<Longrightarrow> r x \<le> 0"
  by (rule r_le[OF _ r_zero])

lemma r_le_1: "x \<le> 1 \<Longrightarrow> r x \<le> 1"
  by (rule r_le[OF _ r_one])

lemma r_abs_le:
  assumes "\<bar>x\<bar> \<le> b" and "r b = b"
  shows "\<bar>r x\<bar> \<le> b"
proof -
  have "r (- b) = - b" using assms(2) by (simp add: r_odd)
  with assms show ?thesis by (auto simp: abs_le_iff minus_le_iff intro: r_le r_ge)
qed

lemma r_abs: "r \<bar>x\<bar> = \<bar>r x\<bar>"
  using r_ge_0[of x] r_le_0[of x] by (auto simp: abs_if r_odd)

text \<open>A quotient of two differences that share their left end rounds into the unit interval.\<close>

lemma r_ratio:
  assumes "a \<le> x" "x \<le> b" "a < b" "0 < r (b - a)"
  shows "0 \<le> r (r (x - a) / r (b - a)) \<and> r (r (x - a) / r (b - a)) \<le> 1"
proof -
  have "0 \<le> r (x - a)" "r (x - a) \<le> r (b - a)" using assms by (auto intro: r_ge_0 r_mono)
  with assms(4) have "0 \<le> r (x - a) / r (b - a)" "r (x - a) / r (b - a) \<le> 1"
    by (simp_all add: pos_divide_le_eq)
  then show ?thesis by (auto intro: r_ge_0 r_le_1)
qed

text \<open>A product with a factor of the unit interval stays between zero and the other factor.\<close>

lemma r_scale:
  assumes "0 \<le> t" "t \<le> 1" "r d = d"
  shows "0 \<le> d \<Longrightarrow> 0 \<le> r (t * d) \<and> r (t * d) \<le> d"
    and "d \<le> 0 \<Longrightarrow> d \<le> r (t * d) \<and> r (t * d) \<le> 0"
proof -
  assume "0 \<le> d"
  then have "0 \<le> t * d" "t * d \<le> d" using assms by (auto simp: mult_left_le_one_le)
  then show "0 \<le> r (t * d) \<and> r (t * d) \<le> d" using assms(3) by (auto intro: r_ge_0 r_le)
next
  assume d: "d \<le> 0"
  have "t * d \<le> 0" using assms d by (simp add: mult_nonneg_nonpos)
  moreover have "d \<le> t * d" using mult_right_mono_neg[OF assms(2) d] by simp
  ultimately show "d \<le> r (t * d) \<and> r (t * d) \<le> 0" using assms(3) by (auto intro: r_le_0 r_ge)
qed

end

interpretation dbl: rounding rnd
  by unfold_locales (auto simp: rnd_mono rnd_uminus)

end
