(* ===== verification/Numbers.thy ===== *)
theory Numbers
  imports Doubles
begin

text \<open>
  JavaScript Numbers: \<open>NaN\<close>, the infinities, and the finite doubles as the rationals they
  stand for. Every arithmetic operation computes the exact result and rounds it (\<open>fl\<close>). The
  type is an instance of the library's arithmetic and order syntax, so the components read
  like the code. Positive and negative zero are identified: the code tells them apart
  nowhere (no division by a zero that may be negative, no \<open>Object.is\<close>).
\<close>

named_theorems js_num \<open>evaluation of Number operations\<close>

section \<open>The type and its arithmetic\<close>

datatype jsnum = NaN | PInf | NInf | Fin rat

definition overflow :: rat where "overflow = 2 ^ 1024"

definition fl :: "rat \<Rightarrow> jsnum" where
  "fl x = (let r = rnd x in if overflow \<le> r then PInf else if r \<le> - overflow then NInf else Fin r)"

instantiation jsnum :: "{zero, one, plus, minus, uminus, times, inverse, ord}"
begin

definition zero_jsnum :: jsnum where "0 = Fin 0"

definition one_jsnum :: jsnum where "1 = Fin 1"

fun uminus_jsnum :: "jsnum \<Rightarrow> jsnum" where
  "- NaN = NaN"
| "- PInf = NInf"
| "- NInf = PInf"
| "- Fin a = Fin (- a)"

fun plus_jsnum :: "jsnum \<Rightarrow> jsnum \<Rightarrow> jsnum" where
  "Fin a + Fin b = fl (a + b)"
| "NaN + y = NaN"
| "x + NaN = NaN"
| "PInf + NInf = NaN"
| "NInf + PInf = NaN"
| "PInf + y = PInf"
| "NInf + y = NInf"
| "x + PInf = PInf"
| "x + NInf = NInf"

definition minus_jsnum :: "jsnum \<Rightarrow> jsnum \<Rightarrow> jsnum" where
  "x - y = x + (- y :: jsnum)"

fun times_jsnum :: "jsnum \<Rightarrow> jsnum \<Rightarrow> jsnum" where
  "Fin a * Fin b = fl (a * b)"
| "NaN * y = NaN"
| "x * NaN = NaN"
| "PInf * PInf = PInf"
| "PInf * NInf = NInf"
| "NInf * PInf = NInf"
| "NInf * NInf = PInf"
| "PInf * Fin b = (if b = 0 then NaN else if 0 < b then PInf else NInf)"
| "NInf * Fin b = (if b = 0 then NaN else if 0 < b then NInf else PInf)"
| "Fin a * PInf = (if a = 0 then NaN else if 0 < a then PInf else NInf)"
| "Fin a * NInf = (if a = 0 then NaN else if 0 < a then NInf else PInf)"

fun divide_jsnum :: "jsnum \<Rightarrow> jsnum \<Rightarrow> jsnum" where
  "divide (Fin a) (Fin b) =
     (if b = 0 then (if a = 0 then NaN else if 0 < a then PInf else NInf) else fl (a / b))"
| "divide NaN y = NaN"
| "divide x NaN = NaN"
| "divide (Fin a) y = Fin 0"
| "divide PInf (Fin b) = (if 0 \<le> b then PInf else NInf)"
| "divide NInf (Fin b) = (if 0 \<le> b then NInf else PInf)"
| "divide x y = NaN"

definition inverse_jsnum :: "jsnum \<Rightarrow> jsnum" where
  "inverse x = divide (Fin 1) x"

fun less_eq_jsnum :: "jsnum \<Rightarrow> jsnum \<Rightarrow> bool" where
  "Fin a \<le> Fin b \<longleftrightarrow> a \<le> b"
| "NaN \<le> y \<longleftrightarrow> False"
| "x \<le> NaN \<longleftrightarrow> False"
| "NInf \<le> y \<longleftrightarrow> True"
| "x \<le> PInf \<longleftrightarrow> True"
| "x \<le> (y :: jsnum) \<longleftrightarrow> False"

fun less_jsnum :: "jsnum \<Rightarrow> jsnum \<Rightarrow> bool" where
  "Fin a < Fin b \<longleftrightarrow> a < b"
| "NaN < y \<longleftrightarrow> False"
| "x < NaN \<longleftrightarrow> False"
| "x < NInf \<longleftrightarrow> False"
| "PInf < y \<longleftrightarrow> False"
| "x < (y :: jsnum) \<longleftrightarrow> True"

instance ..

end

lemma minus_Fin [simp]: "Fin a - Fin b = fl (a - b)"
  by (simp add: minus_jsnum_def)

section \<open>Library functions and coercions\<close>

text \<open>\<open>x === y\<close> on Numbers: \<open>NaN\<close> equals nothing.\<close>

definition num_eq :: "jsnum \<Rightarrow> jsnum \<Rightarrow> bool" where
  "num_eq x y = (x = y \<and> x \<noteq> NaN)"

definition num_truthy :: "jsnum \<Rightarrow> bool" where
  "num_truthy x = (x \<noteq> NaN \<and> x \<noteq> Fin 0)"

text \<open>\<open>Math.max\<close> and \<open>Math.min\<close>: \<open>NaN\<close> as soon as one argument is.\<close>

definition jmax :: "jsnum \<Rightarrow> jsnum \<Rightarrow> jsnum" where
  "jmax x y = (if x = NaN \<or> y = NaN then NaN else if x \<le> y then y else x)"

definition jmin :: "jsnum \<Rightarrow> jsnum \<Rightarrow> jsnum" where
  "jmin x y = (if x = NaN \<or> y = NaN then NaN else if x \<le> y then x else y)"

definition jmaxs :: "jsnum list \<Rightarrow> jsnum" where
  "jmaxs xs = foldl jmax NInf xs"

definition jmins :: "jsnum list \<Rightarrow> jsnum" where
  "jmins xs = foldl jmin PInf xs"

fun jabs :: "jsnum \<Rightarrow> jsnum" where
  "jabs (Fin a) = Fin \<bar>a\<bar>"
| "jabs NaN = NaN"
| "jabs x = PInf"

fun jfloor :: "jsnum \<Rightarrow> jsnum" where
  "jfloor (Fin a) = Fin (of_int \<lfloor>a\<rfloor>)"
| "jfloor x = x"

fun jceil :: "jsnum \<Rightarrow> jsnum" where
  "jceil (Fin a) = Fin (of_int \<lceil>a\<rceil>)"
| "jceil x = x"

text \<open>\<open>Math.round\<close>: the nearest integer, ties upwards.\<close>

fun jround :: "jsnum \<Rightarrow> jsnum" where
  "jround (Fin a) = Fin (of_int \<lfloor>a + 1/2\<rfloor>)"
| "jround x = x"

fun is_integer :: "jsnum \<Rightarrow> bool" where
  "is_integer (Fin a) = (of_int \<lfloor>a\<rfloor> = a)"
| "is_integer x = False"

text \<open>\<open>x % 1\<close> takes the sign of the dividend.\<close>

fun mod_one :: "jsnum \<Rightarrow> jsnum" where
  "mod_one (Fin a) = Fin (if 0 \<le> a then a - of_int \<lfloor>a\<rfloor> else a - of_int \<lceil>a\<rceil>)"
| "mod_one x = NaN"

text \<open>Arithmetic and comparison coerce \<open>null\<close> to 0.\<close>

fun nz :: "jsnum option \<Rightarrow> jsnum" where
  "nz None = Fin 0"
| "nz (Some x) = x"

fun opt_truthy :: "jsnum option \<Rightarrow> bool" where
  "opt_truthy None = False"
| "opt_truthy (Some x) = num_truthy x"

text \<open>\<open>a || b\<close> on a nullable Number.\<close>

definition num_or :: "jsnum option \<Rightarrow> jsnum \<Rightarrow> jsnum" where
  "num_or a b = (case a of Some x \<Rightarrow> if num_truthy x then x else b | None \<Rightarrow> b)"

section \<open>Doubles as such\<close>

text \<open>A value that a Number can hold; sensor readings are finite ones of moderate size.\<close>

fun is_double :: "jsnum \<Rightarrow> bool" where
  "is_double (Fin a) = (rnd a = a \<and> \<bar>a\<bar> < overflow)"
| "is_double x = True"

fun bounded :: "rat \<Rightarrow> jsnum \<Rightarrow> bool" where
  "bounded B (Fin a) = (\<bar>a\<bar> \<le> B \<and> rnd a = a)"
| "bounded B x = False"

lemma boundedE: "bounded B x \<Longrightarrow> (\<And>a. x = Fin a \<Longrightarrow> \<bar>a\<bar> \<le> B \<Longrightarrow> rnd a = a \<Longrightarrow> thesis) \<Longrightarrow> thesis"
  by (cases x) auto

lemma rnd_pow2 [simp]: "rnd (2 ^ k) = 2 ^ k"
  by (rule rnd_exactI[of _ 1 "int k"]) (auto simp: power_int_def)

lemma rnd_numeral [simp, js_num]: "(numeral n :: int) \<le> 2 ^ 53 \<Longrightarrow> rnd (numeral n) = numeral n"
  using rnd_of_int[of "numeral n"] by simp

lemma rnd_neg_numeral [simp, js_num]: "(numeral n :: int) \<le> 2 ^ 53 \<Longrightarrow> rnd (- numeral n) = - numeral n"
  by (simp add: rnd_uminus)

lemma rnd_1 [simp, js_num]: "rnd 1 = 1"
  using rnd_of_int[of 1] by simp

lemma rnd_dyadic: "x * 2 ^ k = of_int m \<Longrightarrow> \<bar>m\<bar> \<le> 2 ^ 53 \<Longrightarrow> k \<le> 1074 \<Longrightarrow> rnd x = x"
  by (rule rnd_exactI[of _ m "- int k"]) (auto simp: power_int_minus power_int_def field_simps)

lemma overflow_pos [simp]: "0 < overflow"
  by (simp add: overflow_def)

lemma fl_small:
  assumes "\<bar>x\<bar> \<le> 2 ^ 100"
  shows "fl x = Fin (rnd x)"
proof -
  have "(2::rat) ^ 100 < overflow" unfolding overflow_def by (rule power_strict_increasing) auto
  moreover have "\<bar>rnd x\<bar> \<le> 2 ^ 100" using assms by (rule dbl.r_abs_le) (rule rnd_pow2)
  ultimately have "\<bar>rnd x\<bar> < overflow" by (rule le_less_trans[rotated])
  then show ?thesis by (simp add: fl_def Let_def abs_less_iff)
qed

text \<open>Evaluation need not compute the overflow threshold for Numbers of ordinary size.\<close>

lemma fl_code [code]:
  "fl x = (if \<bar>x\<bar> \<le> 1000000000000000000 then Fin (rnd x)
           else let r = rnd x in if overflow \<le> r then PInf else if r \<le> - overflow then NInf else Fin r)"
  by (simp add: fl_small) (simp add: fl_def)

lemma fl_exact: "rnd x = x \<Longrightarrow> \<bar>x\<bar> \<le> 2 ^ 100 \<Longrightarrow> fl x = Fin x"
  by (simp add: fl_small)

lemma fl_of_int:
  assumes "\<bar>n\<bar> \<le> 2 ^ 53"
  shows "fl (of_int n) = Fin (of_int n)"
proof (rule fl_exact)
  show "rnd (of_int n) = of_int n" using assms by (rule rnd_of_int)
  have "of_int \<bar>n\<bar> \<le> (of_int (2 ^ 53) :: rat)" using assms by (simp only: of_int_le_iff)
  then show "\<bar>of_int n\<bar> \<le> (2 ^ 100 :: rat)" by simp
qed

lemma fl_numerals [simp, js_num]:
  "fl 0 = Fin 0" "fl 1 = Fin 1" "fl (- 1) = Fin (- 1)"
  "(numeral n :: int) \<le> 2 ^ 53 \<Longrightarrow> fl (numeral n) = Fin (numeral n)"
  "(numeral n :: int) \<le> 2 ^ 53 \<Longrightarrow> fl (- numeral n) = Fin (- numeral n)"
  using fl_of_int[of 0] fl_of_int[of 1] fl_of_int[of "-1"] fl_of_int[of "numeral n"] fl_of_int[of "- numeral n"]
  by simp_all

lemma floor_rat_numeral [simp, js_num]:
  "\<lfloor>numeral a / numeral b :: rat\<rfloor> = numeral a div numeral b"
  "\<lfloor>- (numeral a / numeral b) :: rat\<rfloor> = - numeral a div numeral b"
  "\<lfloor>1 / numeral b :: rat\<rfloor> = 1 div numeral b"
  using floor_divide_of_int_eq[of "numeral a" "numeral b", where ?'a = rat]
    floor_divide_of_int_eq[of "- numeral a" "numeral b", where ?'a = rat]
    floor_divide_of_int_eq[of 1 "numeral b", where ?'a = rat]
  by simp_all

lemma is_double_fl [simp]: "is_double (fl x)"
  by (auto simp: fl_def Let_def abs_less_iff)

lemma fl_not_NaN [simp]: "fl x \<noteq> NaN"
  by (simp add: fl_def Let_def)

lemma fl_nonneg [simp]: "0 \<le> x \<Longrightarrow> Fin 0 \<le> fl x"
  using dbl.r_ge_0[of x] by (auto simp: fl_def Let_def)

lemma fl_mono: "x \<le> y \<Longrightarrow> fl x \<le> fl y"
  using rnd_mono[of x y] by (auto simp: fl_def Let_def)

lemma is_double_ops [simp]:
  "is_double (x + y)" "is_double (x * y)"
  by (cases x; cases y; simp)+

lemma is_double_minus [simp]: "is_double (x - y)"
  by (simp add: minus_jsnum_def)

lemma is_double_divide [simp]: "is_double (x / y)"
  by (cases x; cases y; simp)

section \<open>Order\<close>

lemma num_le_refl: "x \<noteq> NaN \<Longrightarrow> x \<le> (x :: jsnum)"
  by (cases x) auto

lemma num_le_trans: "x \<le> y \<Longrightarrow> y \<le> z \<Longrightarrow> x \<le> (z :: jsnum)"
  by (cases x; cases y; cases z; simp)

lemma num_le_total: "x \<noteq> NaN \<Longrightarrow> y \<noteq> NaN \<Longrightarrow> x \<le> y \<or> y \<le> (x :: jsnum)"
  by (cases x; cases y) auto

lemma num_le_antisym: "x \<le> y \<Longrightarrow> y \<le> x \<Longrightarrow> x = (y :: jsnum)"
  by (cases x; cases y) auto

lemma num_not_less: "x \<noteq> NaN \<Longrightarrow> y \<noteq> NaN \<Longrightarrow> \<not> x < y \<longleftrightarrow> y \<le> (x :: jsnum)"
  by (cases x; cases y) auto

lemma num_less_le: "x < y \<longleftrightarrow> x \<le> y \<and> x \<noteq> (y :: jsnum)"
  by (cases x; cases y) auto

lemma num_le_not_NaN: "x \<le> y \<Longrightarrow> x \<noteq> NaN \<and> y \<noteq> (NaN :: jsnum)"
  by (cases x; cases y) auto

lemma fl_between [simp]: "NInf \<le> fl x" "fl x \<le> PInf"
  by (simp_all add: fl_def Let_def)

lemma num_add_left_mono: "x \<le> y \<Longrightarrow> Fin a + x \<le> Fin a + y"
  by (cases x; cases y) (auto intro: fl_mono)

lemma num_mult_left_mono: "0 \<le> a \<Longrightarrow> i \<le> j \<Longrightarrow> Fin a * Fin i \<le> Fin a * Fin j"
  by (auto intro: fl_mono mult_left_mono)

lemma num_divide_mono: "x \<le> y \<Longrightarrow> 0 < c \<Longrightarrow> x / Fin c \<le> y / Fin c"
  by (cases x; cases y) (auto intro!: fl_mono divide_right_mono)

lemma jmax_ge: "jmax x y = z \<Longrightarrow> z \<noteq> NaN \<Longrightarrow> x \<le> z \<and> y \<le> z"
  by (cases x; cases y) (auto simp: jmax_def split: if_splits)

lemma jmin_le: "jmin x y = z \<Longrightarrow> z \<noteq> NaN \<Longrightarrow> z \<le> x \<and> z \<le> y"
  by (cases x; cases y) (auto simp: jmin_def split: if_splits)

lemma jmax_Fin [simp]: "jmax (Fin a) (Fin b) = Fin (max a b)"
  by (simp add: jmax_def max_def)

lemma jmin_Fin [simp]: "jmin (Fin a) (Fin b) = Fin (min a b)"
  by (simp add: jmin_def min_def)

lemma nz_Some [js_num]: "nz (Some x) = x" by simp

lemma foldl_jmin:
  "\<lbrakk>\<forall>x\<in>insert a (set xs). x \<noteq> NaN\<rbrakk> \<Longrightarrow>
     foldl jmin a xs \<in> insert a (set xs) \<and> (\<forall>x\<in>insert a (set xs). foldl jmin a xs \<le> x)"
proof (induction xs arbitrary: a)
  case (Cons y xs)
  have m: "jmin a y \<in> {a, y}" "jmin a y \<le> a" "jmin a y \<le> y"
    using Cons.prems num_le_total[of a y] by (auto simp: jmin_def num_le_refl)
  with Cons.prems have "\<forall>x\<in>insert (jmin a y) (set xs). x \<noteq> NaN" by auto
  from Cons.IH[OF this] m show ?case by (auto dest: num_le_trans)
qed (simp add: num_le_refl)

lemma foldl_jmax:
  "\<lbrakk>\<forall>x\<in>insert a (set xs). x \<noteq> NaN\<rbrakk> \<Longrightarrow>
     foldl jmax a xs \<in> insert a (set xs) \<and> (\<forall>x\<in>insert a (set xs). x \<le> foldl jmax a xs)"
proof (induction xs arbitrary: a)
  case (Cons y xs)
  have m: "jmax a y \<in> {a, y}" "a \<le> jmax a y" "y \<le> jmax a y"
    using Cons.prems num_le_total[of a y] by (auto simp: jmax_def num_le_refl)
  with Cons.prems have "\<forall>x\<in>insert (jmax a y) (set xs). x \<noteq> NaN" by auto
  from Cons.IH[OF this] m show ?case by (auto dest: num_le_trans)
qed (simp add: num_le_refl)

lemma jmins_bounded:
  assumes "xs \<noteq> []" "\<forall>x\<in>set xs. bounded B x"
  shows "jmins xs \<in> set xs \<and> (\<forall>x\<in>set xs. jmins xs \<le> x)"
proof -
  have "\<forall>x\<in>insert PInf (set xs). x \<noteq> NaN" using assms(2) by auto
  from foldl_jmin[OF this] have M: "jmins xs \<in> insert PInf (set xs)" "\<forall>x\<in>set xs. jmins xs \<le> x"
    by (simp_all add: jmins_def)
  obtain a where "Fin a \<in> set xs" using assms by (cases xs) (auto elim!: boundedE)
  with M show ?thesis by (cases "jmins xs") auto
qed

lemma jmaxs_bounded:
  assumes "xs \<noteq> []" "\<forall>x\<in>set xs. bounded B x"
  shows "jmaxs xs \<in> set xs \<and> (\<forall>x\<in>set xs. x \<le> jmaxs xs)"
proof -
  have "\<forall>x\<in>insert NInf (set xs). x \<noteq> NaN" using assms(2) by auto
  from foldl_jmax[OF this] have M: "jmaxs xs \<in> insert NInf (set xs)" "\<forall>x\<in>set xs. x \<le> jmaxs xs"
    by (simp_all add: jmaxs_def)
  obtain a where "Fin a \<in> set xs" using assms by (cases xs) (auto elim!: boundedE)
  with M show ?thesis by (cases "jmaxs xs") auto
qed

end
