(* ===== verification/Texts.thy ===== *)
theory Texts
  imports Numbers
begin

text \<open>
  JavaScript strings as the byte lists of their UTF-8 encoding, with the string operations and
  regular expressions the dashboard uses. Case mapping is that of ASCII (the names the code
  compares are ASCII). \<open>utf16_length\<close> gives the \<open>length\<close> property, which counts UTF-16 units.
  \<open>number_text\<close> is \<open>Number::toString\<close> in radix 10: the fewest digits that round to the
  Number.
\<close>

section \<open>Characters outside ASCII\<close>

definition endash :: string where
  "endash = [CHR 0xE2, CHR 0x80, CHR 0x93]"

definition minus_sign :: string where
  "minus_sign = [CHR 0xE2, CHR 0x88, CHR 0x92]"

definition arrow :: string where
  "arrow = [CHR 0xE2, CHR 0x86, CHR 0x92]"

definition degree :: string where
  "degree = [CHR 0xC2, CHR 0xB0]"

definition middot :: string where
  "middot = [CHR 0xC2, CHR 0xB7]"

section \<open>Operations\<close>

definition lower_char :: "char \<Rightarrow> char" where
  "lower_char c = (let n = of_char c :: nat in if 65 \<le> n \<and> n \<le> 90 then char_of (n + 32) else c)"

definition lower :: "string \<Rightarrow> string" where
  "lower s = map lower_char s"

definition starts_with :: "string \<Rightarrow> string \<Rightarrow> bool" where
  "starts_with p s = (take (length p) s = p)"

fun str_includes :: "string \<Rightarrow> string \<Rightarrow> bool" where
  "str_includes p [] = (p = [])"
| "str_includes p (c # s) = (starts_with p (c # s) \<or> str_includes p s)"

text \<open>\<open>xs.join(sep)\<close>.\<close>

fun join :: "string \<Rightarrow> string list \<Rightarrow> string" where
  "join sep [] = []"
| "join sep [x] = x"
| "join sep (x # y # zs) = x @ sep @ join sep (y # zs)"

text \<open>\<open>s.replace(p, r)\<close> with a string pattern replaces the first occurrence.\<close>

fun replace_first :: "string \<Rightarrow> string \<Rightarrow> string \<Rightarrow> string" where
  "replace_first p r [] = (if p = [] then r else [])"
| "replace_first p r (c # s) =
     (if starts_with p (c # s) then r @ drop (length p) (c # s) else c # replace_first p r s)"

definition is_digit :: "char \<Rightarrow> bool" where
  "is_digit c = (let n = of_char c :: nat in 48 \<le> n \<and> n \<le> 57)"

definition is_space :: "char \<Rightarrow> bool" where
  "is_space c = (let n = of_char c :: nat in n = 32 \<or> (9 \<le> n \<and> n \<le> 13))"

text \<open>The code units of a UTF-8 byte: none for a continuation byte, two for a four-byte lead.\<close>

definition utf16_units :: "char \<Rightarrow> nat" where
  "utf16_units c = (let n = of_char c :: nat in if 128 \<le> n \<and> n < 192 then 0 else if 240 \<le> n then 2 else 1)"

definition utf16_length :: "string \<Rightarrow> nat" where
  "utf16_length s = sum_list (map utf16_units s)"

lemma starts_with_append [simp]: "starts_with p (p @ s)"
  by (simp add: starts_with_def)

lemma starts_with_iff: "starts_with p s \<longleftrightarrow> (\<exists>t. s = p @ t)"
  by (metis append_eq_conv_conj append_take_drop_id starts_with_def)

lemma str_includes_iff: "str_includes p s \<longleftrightarrow> (\<exists>u v. s = u @ p @ v)"
proof (induction s)
  case (Cons c s)
  show ?case
    unfolding str_includes.simps Cons.IH starts_with_iff
    by (auto simp: append_eq_Cons_conv Cons_eq_append_conv)
qed auto

lemma lower_append [simp]: "lower (s @ t) = lower s @ lower t"
  by (simp add: lower_def)

lemma length_lower [simp]: "length (lower s) = length s"
  by (simp add: lower_def)

lemma lower_char_idem [simp]: "lower_char (lower_char c) = lower_char c"
proof (cases "65 \<le> (of_char c :: nat) \<and> (of_char c :: nat) \<le> 90")
  case True
  then have "(of_char (char_of ((of_char c :: nat) + 32)) :: nat) = of_char c + 32"
    by simp
  with True show ?thesis by (simp add: lower_char_def Let_def)
qed (auto simp: lower_char_def Let_def)

lemma lower_idem [simp]: "lower (lower s) = lower s"
  by (simp add: lower_def)

section \<open>Decimal digits\<close>

definition digit_char :: "int \<Rightarrow> char" where
  "digit_char d = char_of (48 + d)"

fun nat_digits :: "int \<Rightarrow> string" where
  "nat_digits n = (if n < 10 then [digit_char n] else nat_digits (n div 10) @ [digit_char (n mod 10)])"

declare nat_digits.simps [simp del]

lemma is_digit_digit_char [simp]: "0 \<le> d \<Longrightarrow> d < 10 \<Longrightarrow> is_digit (digit_char d)"
proof -
  assume d: "0 \<le> d" "d < 10"
  have "(of_char (char_of (48 + d)) :: int) = 48 + d" using d by simp
  then have "(of_char (digit_char d) :: nat) = nat (48 + d)"
    by (metis digit_char_def nat_int of_int_of_char of_nat_of_char)
  with d show ?thesis by (simp add: is_digit_def Let_def nat_le_iff le_nat_iff)
qed

lemma nat_digits_digits: "0 \<le> n \<Longrightarrow> c \<in> set (nat_digits n) \<Longrightarrow> is_digit c"
proof (induction n rule: nat_digits.induct)
  case (1 n)
  then show ?case by (cases "n < 10") (auto simp: nat_digits.simps[of n])
qed

lemma nat_digits_not_Nil [simp]: "nat_digits n \<noteq> []"
  by (subst nat_digits.simps) simp

section \<open>Number to text\<close>

text \<open>The decimal exponent: \<open>10 ^ e <= x < 10 ^ (e + 1)\<close> for a positive \<open>x\<close>.\<close>

definition decade :: "rat \<Rightarrow> int" where
  "decade x = (if 1 \<le> x then int (length (nat_digits \<lfloor>x\<rfloor>)) - 1
               else - int (length (nat_digits (\<lceil>1 / x\<rceil> - 1))))"

text \<open>
  The fewest digits \<open>k\<close> (17 always suffice for a double), as the integer \<open>s\<close> with
  \<open>s * 10 ^ (n - k)\<close> rounding to \<open>x\<close>.
\<close>

fun shortest :: "nat \<Rightarrow> nat \<Rightarrow> rat \<Rightarrow> int \<Rightarrow> int \<times> nat" where
  "shortest 0 k x n = (round_half_even (x * 10 powi (int k - n)), k)"
| "shortest (Suc fuel) k x n =
     (let s = round_half_even (x * 10 powi (int k - n))
      in if rnd (of_int s * 10 powi (n - int k)) = x then (s, k) else shortest fuel (Suc k) x n)"

definition decimal_layout :: "string \<Rightarrow> int \<Rightarrow> string" where
  "decimal_layout ds n =
     (let k = int (length ds) in
      if k \<le> n \<and> n \<le> 21 then ds @ replicate (nat (n - k)) CHR ''0''
      else if 0 < n \<and> n \<le> 21 then take (nat n) ds @ ''.'' @ drop (nat n) ds
      else if -6 < n \<and> n \<le> 0 then ''0.'' @ replicate (nat (- n)) CHR ''0'' @ ds
      else (let e = n - 1; es = (if e < 0 then ''-'' else ''+'') @ nat_digits \<bar>e\<bar>
            in if k = 1 then ds @ ''e'' @ es else take 1 ds @ ''.'' @ drop 1 ds @ ''e'' @ es))"

definition positive_text :: "rat \<Rightarrow> string" where
  "positive_text x =
     (let n = decade x + 1; (s, k) = shortest 16 1 x n
      in if s = 10 ^ k then decimal_layout ''1'' (n + 1) else decimal_layout (nat_digits \<bar>s\<bar>) n)"

fun number_text :: "jsnum \<Rightarrow> string" where
  "number_text NaN = ''NaN''"
| "number_text PInf = ''Infinity''"
| "number_text NInf = ''-Infinity''"
| "number_text (Fin x) =
     (if x = 0 then ''0'' else if x < 0 then ''-'' @ positive_text (- x) else positive_text x)"

text \<open>The characters of a Number's text: none of them means anything to an HTML parser.\<close>

definition number_char :: "char \<Rightarrow> bool" where
  "number_char c = (is_digit c \<or> c \<in> set ''+-.eINafinity'')"

lemma number_char_digit [intro]: "is_digit c \<Longrightarrow> number_char c"
  by (simp add: number_char_def)

lemma number_char_marks [simp]:
  "number_char CHR ''0''" "number_char CHR ''.''" "number_char CHR ''e''" "number_char CHR ''+''" "number_char CHR ''-''"
  by (simp_all add: number_char_def is_digit_def)

lemma decimal_layout_set:
  "set (decimal_layout ds n) \<subseteq> set ds \<union> {CHR ''0'', CHR ''.'', CHR ''e'', CHR ''+'', CHR ''-''}
     \<union> set (nat_digits \<bar>n - 1\<bar>)"
  unfolding decimal_layout_def Let_def
  by (simp only: set_append list.set split: if_split)
    (use set_take_subset[of "nat n" ds] set_drop_subset[of "nat n" ds]
       set_take_subset[of 1 ds] set_drop_subset[of 1 ds] in \<open>auto\<close>)

lemma decimal_layout_chars:
  assumes "\<forall>c\<in>set ds. is_digit c" and "c \<in> set (decimal_layout ds n)"
  shows "number_char c"
  using subsetD[OF decimal_layout_set assms(2)] assms(1) nat_digits_digits[of "\<bar>n - 1\<bar>" c]
  by auto

lemma positive_text_chars: "c \<in> set (positive_text x) \<Longrightarrow> number_char c"
proof (cases "shortest 16 1 x (decade x + 1)")
  case (Pair s k)
  have "\<forall>c\<in>set ''1''. is_digit c" by (simp add: is_digit_def)
  moreover have "\<forall>c\<in>set (nat_digits \<bar>s\<bar>). is_digit c" using nat_digits_digits[of "\<bar>s\<bar>"] by auto
  moreover assume "c \<in> set (positive_text x)"
  ultimately show ?thesis
    using Pair decimal_layout_chars[of "''1''" c] decimal_layout_chars[of "nat_digits \<bar>s\<bar>" c]
    by (auto simp: positive_text_def Let_def split: if_splits)
qed

lemma number_text_chars: "c \<in> set (number_text v) \<Longrightarrow> number_char c"
  by (cases v) (auto simp: number_char_def is_digit_def split: if_splits dest!: positive_text_chars)

section \<open>Regular expressions\<close>

text \<open>
  \<open>/FSV\s*(\d+)/\<close>: the digits that follow the first \<open>FSV\<close> with at least one digit after optional
  white space. \<open>\s*\<close> and \<open>\d+\<close> take all they can and share no character, so no shorter
  choice can match where this one does not.
\<close>

definition fsv_code_here :: "string \<Rightarrow> string option" where
  "fsv_code_here s =
     (if starts_with ''FSV'' s
      then (let ds = takeWhile is_digit (dropWhile is_space (drop 3 s)) in if ds = [] then None else Some ds)
      else None)"

fun match_fsv_code :: "string \<Rightarrow> string option" where
  "match_fsv_code [] = None"
| "match_fsv_code (c # s) = nullish_opt (fsv_code_here (c # s)) (match_fsv_code s)"

text \<open>\<open>s.replace(/^FSV\s*\d+\s*/, "")\<close>.\<close>

definition strip_fsv_code :: "string \<Rightarrow> string" where
  "strip_fsv_code s =
     (case fsv_code_here s of
        None \<Rightarrow> s
      | Some ds \<Rightarrow> dropWhile is_space (drop (length ds) (dropWhile is_space (drop 3 s))))"

lemma match_fsv_code_digits: "match_fsv_code s = Some ds \<Longrightarrow> ds \<noteq> [] \<and> (\<forall>c\<in>set ds. is_digit c)"
proof (induction s)
  case (Cons c s)
  then show ?case
    by (cases "fsv_code_here (c # s)")
      (auto simp: fsv_code_here_def Let_def split: if_splits dest: set_takeWhileD)
qed simp

end
