(* ===== verification/Format.thy ===== *)
theory Format
  imports Texts
begin

text \<open>
  \<open>format.js\<close>: HTML escaping and the texts of values, and the entity objects they are taken
  from (the JSON that \<open>Entity.to_dict\<close> of \<open>entities.py\<close> sends). \<open>loc v d\<close> stands for
  \<open>v.toLocaleString(undefined, ...)\<close> with \<open>d\<close> decimals: the text depends on the locale of the
  browser, so it is a parameter; the HTML lemmas assume that it holds no markup character.
\<close>

section \<open>Entities\<close>

text \<open>\<open>Entity.kind\<close> has the three values "numeric", "binary" and "enum".\<close>

datatype kind = Numeric | Binary | Enum

record entity =
  e_id :: string
  e_name :: string
  e_platform :: string
  e_category :: string
  e_kind :: kind
  e_device_class :: "string option"
  e_unit :: "string option"
  e_state_class :: "string option"
  e_options :: "string list"
  e_min :: "jsnum option"
  e_max :: "jsnum option"
  e_step :: "jsnum option"
  e_writable :: bool
  e_value :: "jsnum option"
  e_text :: "string option"
  e_updated :: "jsnum option"

section \<open>Markup\<close>

text \<open>The template tag \<open>h\<close>: strings and values interleaved.\<close>

fun h :: "string list \<Rightarrow> string list \<Rightarrow> string" where
  "h [] vs = []"
| "h (s # ss) [] = s @ h ss []"
| "h (s # ss) (v # vs) = s @ v @ h ss vs"

definition esc_char :: "char \<Rightarrow> string" where
  "esc_char c =
     (if c = CHR ''&'' then ''&amp;''
      else if c = CHR ''<'' then ''&lt;''
      else if c = CHR ''>'' then ''&gt;''
      else if c = CHR 0x22 then ''&quot;''
      else if c = CHR 0x27 then ''&#39;''
      else [c])"

definition esc :: "string option \<Rightarrow> string" where
  "esc s = concat (map esc_char (nullish s []))"

section \<open>Values\<close>

definition decimals_for :: "string option \<Rightarrow> jsnum option \<Rightarrow> nat" where
  "decimals_for u v =
     (if u = Some (degree @ ''C'') \<or> u = Some ''L/min'' then 1
      else if u \<in> {Some ''W'', Some ''Wh'', Some ''rpm'', Some ''Hz'', Some ''%'', Some ''min''} then 0
      else if (case v of None \<Rightarrow> False | Some x \<Rightarrow> jabs x < Fin 10 \<and> \<not> is_integer x) then 2
      else if (case v of None \<Rightarrow> False | Some x \<Rightarrow> is_integer x) then 0 else 1)"

type_synonym locale_format = "jsnum \<Rightarrow> nat \<Rightarrow> string"

text \<open>The format the witnesses use: the digits of \<open>String(v)\<close>.\<close>

definition plain_format :: locale_format where
  "plain_format x d = number_text x"

definition num :: "locale_format \<Rightarrow> jsnum option \<Rightarrow> nat \<Rightarrow> string" where
  "num loc v d = (case v of None \<Rightarrow> endash | Some x \<Rightarrow> if x = NaN then endash else loc x d)"

definition entity_value :: "locale_format \<Rightarrow> entity option \<Rightarrow> string" where
  "entity_value loc oe =
     (case oe of
        None \<Rightarrow> endash
      | Some e \<Rightarrow>
          if e_kind e \<noteq> Numeric then esc (Some (nullish (e_text e) endash))
          else num loc (e_value e) (decimals_for (e_unit e) (e_value e)))"

text \<open>The two formatters that pick a unit return the text and the unit.\<close>

definition power :: "locale_format \<Rightarrow> jsnum option \<Rightarrow> string \<times> string" where
  "power loc w =
     (case w of
        None \<Rightarrow> (endash, ''W'')
      | Some x \<Rightarrow>
          if Fin 1000 \<le> jabs x then (num loc (Some (x / Fin 1000)) 2, ''kW'')
          else (num loc (Some x) 0, ''W''))"

definition energy :: "locale_format \<Rightarrow> jsnum option \<Rightarrow> string \<times> string" where
  "energy loc wh =
     (case wh of
        None \<Rightarrow> (endash, ''kWh'')
      | Some x \<Rightarrow>
          if Fin 1000000 \<le> jabs x then (num loc (Some (x / Fin 1000000)) 2, ''MWh'')
          else (num loc (Some (x / Fin 1000)) (if x < Fin 10000 then 2 else 1), ''kWh''))"

text \<open>\<open>now\<close> is \<open>Date.now()\<close>, in milliseconds.\<close>

definition ago :: "jsnum \<Rightarrow> jsnum option \<Rightarrow> string" where
  "ago now ts =
     (if \<not> opt_truthy ts then ''never''
      else
        let s = jmax 0 (now / Fin 1000 - nz ts) in
        if s < Fin 10 then ''just now''
        else if s < Fin 60 then number_text (jfloor s) @ ''s ago''
        else if s < Fin 3600 then number_text (jfloor (s / Fin 60)) @ '' min ago''
        else if s < Fin 86400 then number_text (jfloor (s / Fin 3600)) @ '' h ago''
        else number_text (jfloor (s / Fin 86400)) @ '' d ago'')"

text \<open>\<open>name.replace(/^FSV \d+\s*/, "")\<close>: one space, at least one digit.\<close>

definition pretty_name :: "string \<Rightarrow> string" where
  "pretty_name s =
     (let r = drop 4 s in
      if starts_with ''FSV '' s \<and> takeWhile is_digit r \<noteq> []
      then dropWhile is_space (dropWhile is_digit r) else s)"

section \<open>Lemmas\<close>

definition markup_char :: "char \<Rightarrow> bool" where
  "markup_char c = (c = CHR ''<'' \<or> c = CHR ''>'' \<or> c = CHR 0x22 \<or> c = CHR 0x27)"

definition markup_free :: "string \<Rightarrow> bool" where
  "markup_free s = (\<forall>c\<in>set s. \<not> markup_char c)"

named_theorems markup \<open>texts without markup characters\<close>

lemma markup_free_Nil [simp]: "markup_free []"
  by (simp add: markup_free_def)

lemma markup_free_Cons [simp]: "markup_free (c # s) \<longleftrightarrow> \<not> markup_char c \<and> markup_free s"
  by (simp add: markup_free_def)

lemma markup_free_append [simp]: "markup_free (s @ t) \<longleftrightarrow> markup_free s \<and> markup_free t"
  by (auto simp: markup_free_def)

lemma markup_free_concat: "(\<And>s. s \<in> set ss \<Longrightarrow> markup_free s) \<Longrightarrow> markup_free (concat ss)"
  by (auto simp: markup_free_def)

lemma markup_free_esc_char: "markup_free (esc_char c)"
  by (simp add: esc_char_def markup_char_def)

lemma markup_free_esc [simp, markup]: "markup_free (esc s)"
  unfolding esc_def by (rule markup_free_concat) (auto simp: markup_free_esc_char)

lemma markup_free_endash [simp, markup]: "markup_free endash"
  by (simp add: endash_def markup_char_def)

lemma number_char_not_markup: "number_char c \<Longrightarrow> \<not> markup_char c"
  by (auto simp: number_char_def is_digit_def markup_char_def)

lemma markup_free_number_text [simp, markup]: "markup_free (number_text v)"
  unfolding markup_free_def using number_text_chars number_char_not_markup by blast

lemma markup_free_num [markup]: "(\<And>x d. markup_free (loc x d)) \<Longrightarrow> markup_free (num loc v n)"
  by (simp add: num_def split: option.splits)

lemma markup_free_entity_value [markup]:
  "(\<And>x d. markup_free (loc x d)) \<Longrightarrow> markup_free (entity_value loc e)"
  by (simp add: entity_value_def markup_free_num split: option.splits)

lemma esc_Nil [simp]: "esc (Some []) = []" "esc None = []"
  by (simp_all add: esc_def)

lemma esc_append: "esc (Some (s @ t)) = esc (Some s) @ esc (Some t)"
  by (simp add: esc_def)

lemma esc_Cons: "esc (Some (c # s)) = esc_char c @ esc (Some s)"
  by (simp add: esc_def)

text \<open>The markup characters of a text in their order: what decides how an HTML parser splits it.\<close>

definition skeleton :: "string \<Rightarrow> string" where
  "skeleton s = filter markup_char s"

lemma skeleton_append [simp]: "skeleton (s @ t) = skeleton s @ skeleton t"
  by (simp add: skeleton_def)

lemma skeleton_Nil [simp]: "skeleton [] = []"
  by (simp add: skeleton_def)

lemma skeleton_concat: "skeleton (concat ss) = concat (map skeleton ss)"
  by (induction ss) auto

lemma skeleton_markup_free [simp]: "markup_free s \<Longrightarrow> skeleton s = []"
  by (simp add: skeleton_def markup_free_def filter_empty_conv)

lemma skeleton_Cons: "skeleton (c # s) = (if markup_char c then c # skeleton s else skeleton s)"
  by (simp add: skeleton_def)

lemmas skeleton_eval = skeleton_Cons markup_char_def

lemma markup_free_marks [simp]: "markup_free minus_sign" "markup_free arrow" "markup_free degree" "markup_free middot"
  by (simp_all add: minus_sign_def arrow_def degree_def middot_def markup_char_def)

text \<open>What an HTML parser makes of the five character references \<open>esc\<close> writes.\<close>

definition references :: "(string \<times> char) list" where
  "references = [(''&amp;'', CHR ''&''), (''&lt;'', CHR ''<''), (''&gt;'', CHR ''>''),
                 (''&quot;'', CHR 0x22), (''&#39;'', CHR 0x27)]"

fun decode_from :: "nat \<Rightarrow> string \<Rightarrow> string" where
  "decode_from 0 s = s"
| "decode_from (Suc n) [] = []"
| "decode_from (Suc n) (c # s) =
     (case find (\<lambda>(r, _). starts_with r (c # s)) references of
        Some (r, d) \<Rightarrow> d # decode_from n (drop (length r) (c # s))
      | None \<Rightarrow> c # decode_from n s)"

definition html_decode :: "string \<Rightarrow> string" where
  "html_decode s = decode_from (length s) s"

lemma decode_esc_char:
  "decode_from (Suc n) (esc_char c @ t) = c # decode_from n t"
  by (auto simp: esc_char_def references_def starts_with_def numeral_eq_Suc)

lemma decode_from_esc: "length s \<le> n \<Longrightarrow> decode_from n (esc (Some s)) = s"
proof (induction s arbitrary: n)
  case Nil
  then show ?case by (cases n) auto
next
  case (Cons c s)
  then obtain m where "n = Suc m" "length s \<le> m" by (cases n) auto
  with Cons.IH show ?case by (simp add: esc_Cons decode_esc_char)
qed

lemma length_esc: "length s \<le> length (esc (Some s))"
proof (induction s)
  case (Cons c s)
  have "1 \<le> length (esc_char c)" by (simp add: esc_char_def)
  with Cons show ?case by (simp add: esc_Cons)
qed simp

section \<open>Properties\<close>

text \<open>
  C33: escaping is loss-free: decoding the character references of the escaped text gives the
  text back, for every text (also one that already holds references).
\<close>

theorem esc_roundtrip: "html_decode (esc (Some s)) = s"
  unfolding html_decode_def by (rule decode_from_esc[OF length_esc])

text \<open>
  Escaped text and the displayed value of any entity hold none of the characters that open
  or close a tag or an attribute value, given that the locale's number texts hold none.
\<close>

theorem displayed_text_inert:
  assumes "\<And>x d. markup_free (loc x d)"
  shows "markup_free (esc s) \<and> markup_free (entity_value loc oe)"
  using assms by (simp add: markup_free_entity_value)

theorem displayed_text_inert_witness:
  \<open>markup_free (esc (Some ''<b title="x">'')) \<and> markup_free (entity_value (\<lambda>x d. number_text x) None)\<close>
  by (rule displayed_text_inert) simp

end
