(* ===== verification/Store.thy ===== *)
theory Store
  imports Format
begin

text \<open>
  \<open>store.js\<close>: the live entity state. \<open>store.entities\<close> and \<open>store.byName\<close> are two Maps onto the
  same objects, and a state message mutates an object that both reach, so the objects live in
  a heap (\<open>st_objs\<close>) and the Maps hold addresses. Objects of earlier snapshots stay in the
  heap, as closures may still hold them. The functions that derive a value from the live
  state (water law, heat output, COP) follow, then the laws of the store and their proofs.
\<close>

section \<open>Well-known names\<close>

datatype name_key =
    K_outdoor | K_waterOut | K_waterIn | K_lawTarget | K_tank | K_outlet1 | K_outlet2 | K_flow
  | K_power | K_freq | K_fan | K_pwm | K_valve | K_opMode | K_defrost | K_backup | K_booster
  | K_error | K_energyIn | K_energyOut | K_minutesActive | K_dhw | K_dhwMode | K_dhwTarget
  | K_mode | K_zone1 | K_zone1Target | K_zone2 | K_zone2Target | K_outlet1Target
  | K_outlet2Target | K_lawOffset

fun N :: "name_key \<Rightarrow> string" where
  "N K_outdoor = ''Temp Outer''"
| "N K_waterOut = ''Temp Water Out''"
| "N K_waterIn = ''Temp Water In''"
| "N K_lawTarget = ''Temp Water Law Target''"
| "N K_tank = ''Temp DHW Tank''"
| "N K_outlet1 = ''Temp Outlet Zone1''"
| "N K_outlet2 = ''Temp Outlet Zone2''"
| "N K_flow = ''Flow Sensor''"
| "N K_power = ''System Power''"
| "N K_freq = ''Current Frequency 1''"
| "N K_fan = ''Outdoor Fan1 RPM''"
| "N K_pwm = ''PWM''"
| "N K_valve = ''3 Way Valve''"
| "N K_opMode = ''Operating Mode''"
| "N K_defrost = ''Defrost Step''"
| "N K_backup = ''Backup Heater Mode''"
| "N K_booster = ''Booster Heater Mode''"
| "N K_error = ''Error Code''"
| "N K_energyIn = ''Total Input Energy''"
| "N K_energyOut = ''Total Output Energy''"
| "N K_minutesActive = ''Minutes Active''"
| "N K_dhw = ''DHW''"
| "N K_dhwMode = ''DHW Mode''"
| "N K_dhwTarget = ''Temp DHW Target''"
| "N K_mode = ''Mode''"
| "N K_zone1 = ''Zone1''"
| "N K_zone1Target = ''Zone 1 Target''"
| "N K_zone2 = ''Zone2''"
| "N K_zone2Target = ''Zone 2 Target''"
| "N K_outlet1Target = ''Zone 1 Water Outlet Target''"
| "N K_outlet2Target = ''Zone 2 Water Outlet Target''"
| "N K_lawOffset = ''Temp Water Law Target F''"

declare N.simps [simp del]

section \<open>State\<close>

record status =
  s_mqtt :: bool
  s_broker :: "string option"
  s_last_message :: "jsnum option"
  s_read_only :: "bool option"

record store =
  st_objs :: "entity list"
  st_entities :: "(string, nat) jsmap"
  st_by_name :: "(string, nat) jsmap"
  st_status :: status
  st_ws_connected :: bool
  st_ready :: bool

definition init_store :: store where
  "init_store = \<lparr> st_objs = [], st_entities = [], st_by_name = [],
     st_status = \<lparr> s_mqtt = False, s_broker = None, s_last_message = None, s_read_only = None \<rparr>,
     st_ws_connected = False, st_ready = False \<rparr>"

definition entity_by_id :: "store \<Rightarrow> string \<Rightarrow> entity option" where
  "entity_by_id st i = map_option (\<lambda>a. st_objs st ! a) (map_get (st_entities st) i)"

definition all_entities :: "store \<Rightarrow> entity list" where
  "all_entities st = map (\<lambda>a. st_objs st ! a) (map_values (st_entities st))"

section \<open>Lookups\<close>

definition ent :: "store \<Rightarrow> string \<Rightarrow> entity option" where
  "ent st name = map_option (\<lambda>a. st_objs st ! a) (map_get (st_by_name st) (lower name))"

definition val :: "store \<Rightarrow> string \<Rightarrow> jsnum option" where
  "val st name = (case ent st name of Some e \<Rightarrow> e_value e | None \<Rightarrow> None)"

definition text_of :: "store \<Rightarrow> string \<Rightarrow> string option" where
  "text_of st name =
     (case ent st name of
        Some e \<Rightarrow> nullish_opt (e_text e) (map_option number_text (e_value e))
      | None \<Rightarrow> None)"

definition fsv :: "store \<Rightarrow> int \<Rightarrow> jsnum option" where
  "fsv st code =
     (let p = ''fsv '' @ nat_digits code @ '' '' in
      case find (\<lambda>(name, a). starts_with p name) (st_by_name st) of
        Some (name, a) \<Rightarrow> e_value (st_objs st ! a)
      | None \<Rightarrow> None)"

section \<open>Derived values\<close>

definition water_law_curve :: "jsnum \<Rightarrow> jsnum \<Rightarrow> jsnum \<Rightarrow> jsnum \<Rightarrow> jsnum \<Rightarrow> jsnum" where
  "water_law_curve outdoor tCold tWarm wCold wWarm =
     (if outdoor \<le> tCold \<or> tWarm \<le> tCold then wCold
      else if tWarm \<le> outdoor then wWarm
      else wCold + ((outdoor - tCold) / (tWarm - tCold)) * (wWarm - wCold))"

definition water_law_target :: "store \<Rightarrow> nat \<Rightarrow> jsnum option" where
  "water_law_target st zone =
     (case (val st (N K_outdoor), fsv st 2011, fsv st 2012,
            fsv st (if zone = 1 then 2021 else 2031), fsv st (if zone = 1 then 2022 else 2032)) of
        (Some outdoor, Some tCold, Some tWarm, Some wCold, Some wWarm) \<Rightarrow>
          Some (water_law_curve outdoor tCold tWarm wCold wWarm + nullish (val st (N K_lawOffset)) 0)
      | _ \<Rightarrow> None)"

definition outlet_target :: "store \<Rightarrow> nat \<Rightarrow> jsnum option" where
  "outlet_target st zone =
     (if text_of st (N K_mode) = Some ''AUTO'' then water_law_target st zone
      else val st (N (if zone = 1 then K_outlet1Target else K_outlet2Target)))"

definition heat_output :: "store \<Rightarrow> jsnum option" where
  "heat_output st =
     (case (val st (N K_flow), val st (N K_waterOut), val st (N K_waterIn)) of
        (Some flow, Some out, Some inn) \<Rightarrow>
          if (case val st (N K_freq) of Some f \<Rightarrow> num_eq f 0 | None \<Rightarrow> False) then Some 0
          else Some (jmax 0 (flow / Fin 60 * Fin 4186 * (out - inn)))
      | _ \<Rightarrow> None)"

definition live_cop :: "store \<Rightarrow> jsnum option" where
  "live_cop st =
     (case (heat_output st, val st (N K_power)) of
        (Some heat, Some pw) \<Rightarrow>
          if pw < Fin 150 \<or> \<not> opt_truthy (val st (N K_freq)) then None else Some (heat / pw)
      | _ \<Rightarrow> None)"

section \<open>Messages of the server\<close>

text \<open>\<open>setEntities\<close> allocates the objects of the list and fills both Maps from it.\<close>

definition set_entities :: "entity list \<Rightarrow> store \<Rightarrow> store" where
  "set_entities es st =
     (let n = length (st_objs st); addressed = zip es [n..<n + length es]
      in st\<lparr> st_objs := st_objs st @ es,
             st_entities := fold (\<lambda>ea. map_set (e_id (fst ea)) (snd ea)) addressed [],
             st_by_name := fold (\<lambda>ea. map_set (lower (e_name (fst ea))) (snd ea)) addressed [] \<rparr>)"

datatype message =
    Snapshot "entity list" status
  | State string "jsnum option" "string option" jsnum
  | Status status
  | Other_message

text \<open>The events \<open>emit\<close> hands to the subscribers; a state event carries the entity object.\<close>

datatype ui_event = Ev_connection | Ev_snapshot | Ev_state nat

definition on_message :: "message \<Rightarrow> store \<Rightarrow> store \<times> ui_event list" where
  "on_message m st =
     (case m of
        Snapshot es s \<Rightarrow> ((set_entities es st)\<lparr> st_status := s, st_ready := True \<rparr>, [Ev_snapshot])
      | State i v t ts \<Rightarrow>
          (case map_get (st_entities st) i of
             Some a \<Rightarrow>
               (st\<lparr> st_objs := (st_objs st)[a := (st_objs st ! a)\<lparr> e_value := v, e_text := t, e_updated := Some ts \<rparr>],
                    st_status := (st_status st)\<lparr> s_last_message := Some ts \<rparr> \<rparr>, [Ev_state a])
           | None \<Rightarrow> (st, []))
      | Status s \<Rightarrow> (st\<lparr> st_status := s \<rparr>, [Ev_connection])
      | Other_message \<Rightarrow> (st, []))"

definition after_message :: "store \<Rightarrow> message \<Rightarrow> store" where
  "after_message st m = fst (on_message m st)"

section \<open>Subscribers\<close>

text \<open>
  \<open>listeners\<close> is a Set, so subscribing twice keeps one entry; \<open>emit\<close> calls the subscribers in
  insertion order and catches what one of them throws. A subscriber is a name here, \<open>call\<close>
  what calling it does: the next state and, perhaps, an exception.
\<close>

definition subscribe :: "'l \<Rightarrow> 'l list \<Rightarrow> 'l list" where
  "subscribe l ls = (if l \<in> set ls then ls else ls @ [l])"

definition unsubscribe :: "'l \<Rightarrow> 'l list \<Rightarrow> 'l list" where
  "unsubscribe l ls = filter (\<lambda>x. x \<noteq> l) ls"

fun emit :: "('l \<Rightarrow> 'e \<Rightarrow> 's \<Rightarrow> 's \<times> 'x option) \<Rightarrow> 'l list \<Rightarrow> 'e \<Rightarrow> 's \<Rightarrow> 's \<times> 'x list" where
  "emit call [] ev s = (s, [])"
| "emit call (l # ls) ev s =
     (let (s1, err) = call l ev s; (s2, errs) = emit call ls ev s1
      in (s2, (case err of Some x \<Rightarrow> x # errs | None \<Rightarrow> errs)))"

section \<open>Laws of the lookups\<close>

definition store_ok :: "store \<Rightarrow> bool" where
  "store_ok st \<longleftrightarrow>
     map_ok (st_entities st) \<and> map_ok (st_by_name st) \<and>
     (\<forall>(i, a) \<in> set (st_entities st). a < length (st_objs st) \<and> e_id (st_objs st ! a) = i) \<and>
     (\<forall>(n, a) \<in> set (st_by_name st). a < length (st_objs st) \<and> lower (e_name (st_objs st ! a)) = n)"

lemma store_ok_init: "store_ok init_store"
  by (simp add: store_ok_def init_store_def map_ok_def)

lemma map_ok_get: "map_ok m \<Longrightarrow> map_get m k = Some v \<longleftrightarrow> (k, v) \<in> set m"
  by (auto simp: map_ok_def dest: map_of_SomeD)

lemma store_ok_by_id: "store_ok st \<Longrightarrow> map_get (st_entities st) i = Some a \<Longrightarrow>
    a < length (st_objs st) \<and> e_id (st_objs st ! a) = i"
  by (auto simp: store_ok_def dest!: map_of_SomeD)

lemma store_ok_by_name: "store_ok st \<Longrightarrow> map_get (st_by_name st) n = Some a \<Longrightarrow>
    a < length (st_objs st) \<and> lower (e_name (st_objs st ! a)) = n"
  by (auto simp: store_ok_def dest!: map_of_SomeD)

text \<open>The addresses that a snapshot gives to its objects.\<close>

definition addressed :: "entity list \<Rightarrow> store \<Rightarrow> (entity \<times> nat) list" where
  "addressed es st = zip es [length (st_objs st)..<length (st_objs st) + length es]"

lemma addressed_obj:
  "ea \<in> set (addressed es st) \<Longrightarrow>
     snd ea < length (st_objs st @ es) \<and> (st_objs st @ es) ! snd ea = fst ea"
  by (auto simp: addressed_def set_zip nth_append)

lemma set_entities_simps:
  "st_objs (set_entities es st) = st_objs st @ es"
  "st_entities (set_entities es st) = fold (\<lambda>ea. map_set (e_id (fst ea)) (snd ea)) (addressed es st) []"
  "st_by_name (set_entities es st) = fold (\<lambda>ea. map_set (lower (e_name (fst ea))) (snd ea)) (addressed es st) []"
  "st_status (set_entities es st) = st_status st"
  "st_ws_connected (set_entities es st) = st_ws_connected st"
  by (simp_all add: set_entities_def addressed_def Let_def)

lemma fold_address_get:
  "map_get (fold (\<lambda>ea. map_set (key (fst ea)) (snd ea)) xs []) k =
     map_option snd (find_last (\<lambda>ea. key (fst ea) = k) xs)"
  by (subst jsm.get_fold_put[of "\<lambda>ea. key (fst ea)" snd]) (auto split: option.splits)

lemma fold_address_ok: "map_ok (fold (\<lambda>ea. map_set (key (fst ea)) (snd ea)) xs [])"
  by (rule jsm.ok_fold_put[of _ "\<lambda>ea. key (fst ea)" snd]) (simp add: map_ok_def)

lemma fold_address_entry:
  assumes "(k, a) \<in> set (fold (\<lambda>ea. map_set (key (fst ea)) (snd ea)) (addressed es st) [])"
  shows "a < length (st_objs st @ es) \<and> key ((st_objs st @ es) ! a) = k"
proof -
  obtain ea where "find_last (\<lambda>ea. key (fst ea) = k) (addressed es st) = Some ea" "snd ea = a"
    using assms map_ok_get[OF fold_address_ok[of key "addressed es st"], where k = k and v = a]
    by (auto simp: fold_address_get)
  with addressed_obj[of ea es st] show ?thesis by (auto dest!: find_last_SomeD)
qed

lemma store_ok_set_entities: "store_ok (set_entities es st)"
  unfolding store_ok_def set_entities_simps
  using fold_address_entry[of _ _ e_id es st] fold_address_entry[of _ _ "\<lambda>e. lower (e_name e)" es st]
  by (auto simp: fold_address_ok[of e_id] fold_address_ok[of "\<lambda>e. lower (e_name e)"])

lemma find_last_addressed:
  "map_option (\<lambda>ea. (st_objs st @ es) ! snd ea) (find_last (\<lambda>ea. p (fst ea)) (addressed es st)) =
     find_last p es"
proof -
  have "find_last p (map fst xs) = map_option fst (find_last (\<lambda>ea. p (fst ea)) xs)" for xs :: "(entity \<times> nat) list"
    by (induction xs rule: rev_induct) (auto simp: find_last_snoc)
  then have "find_last p es = map_option fst (find_last (\<lambda>ea. p (fst ea)) (addressed es st))"
    by (metis addressed_def add_diff_cancel_left' length_upt map_fst_zip)
  also have "\<dots> = map_option (\<lambda>ea. (st_objs st @ es) ! snd ea) (find_last (\<lambda>ea. p (fst ea)) (addressed es st))"
    using addressed_obj find_last_SomeD by (intro option.map_cong0) fastforce
  finally show ?thesis by simp
qed

lemma by_id_set_entities: "entity_by_id (set_entities es st) i = find_last (\<lambda>e. e_id e = i) es"
  by (simp add: entity_by_id_def set_entities_simps fold_address_get option.map_comp comp_def
      find_last_addressed[of st es "\<lambda>e. e_id e = i"])

lemma ent_set_entities: "ent (set_entities es st) n = find_last (\<lambda>e. lower (e_name e) = lower n) es"
  using find_last_addressed[of st es "\<lambda>e. lower (e_name e) = lower n"]
  by (simp add: ent_def set_entities_simps fold_address_get[of "\<lambda>e. lower (e_name e)"] option.map_comp comp_def)

section \<open>Laws of the messages\<close>

lemma after_message_simps:
  "after_message st (Snapshot es s) = (set_entities es st)\<lparr> st_status := s, st_ready := True \<rparr>"
  "after_message st (Status s) = st\<lparr> st_status := s \<rparr>"
  "after_message st Other_message = st"
  "map_get (st_entities st) i = None \<Longrightarrow> after_message st (State i v t ts) = st"
  "map_get (st_entities st) i = Some a \<Longrightarrow> after_message st (State i v t ts) =
     st\<lparr> st_objs := (st_objs st)[a := (st_objs st ! a)\<lparr> e_value := v, e_text := t, e_updated := Some ts \<rparr>],
         st_status := (st_status st)\<lparr> s_last_message := Some ts \<rparr> \<rparr>"
  by (simp_all add: after_message_def on_message_def)

lemma store_ok_cong:
  "st_objs st = st_objs st' \<Longrightarrow> st_entities st = st_entities st' \<Longrightarrow> st_by_name st = st_by_name st'
     \<Longrightarrow> store_ok st = store_ok st'"
  by (simp add: store_ok_def)

lemma store_ok_update:
  assumes "store_ok st" and "e_id e = e_id (st_objs st ! a)" and "e_name e = e_name (st_objs st ! a)"
  shows "store_ok (st\<lparr> st_objs := (st_objs st)[a := e] \<rparr>)"
proof -
  have "e_id ((st_objs st)[a := e] ! b) = e_id (st_objs st ! b)"
    "e_name ((st_objs st)[a := e] ! b) = e_name (st_objs st ! b)" if "b < length (st_objs st)" for b
    using assms(2,3) that by (cases "a = b"; simp)+
  with assms(1) show ?thesis by (auto simp: store_ok_def)
qed

lemma store_ok_message: "store_ok st \<Longrightarrow> store_ok (after_message st m)"
proof (cases m)
  case (Snapshot es s)
  have "store_ok (set_entities es st)" by (rule store_ok_set_entities)
  then show ?thesis by (simp add: Snapshot after_message_simps store_ok_def)
next
  case (State i v t ts)
  assume ok: "store_ok st"
  show ?thesis
  proof (cases "map_get (st_entities st) i")
    case None
    with ok show ?thesis by (simp add: State after_message_simps)
  next
    case (Some a)
    let ?e = "(st_objs st ! a)\<lparr> e_value := v, e_text := t, e_updated := Some ts \<rparr>"
    have "store_ok (st\<lparr> st_objs := (st_objs st)[a := ?e] \<rparr>)" by (rule store_ok_update[OF ok]) auto
    then show ?thesis by (simp add: State Some after_message_simps store_ok_def)
  qed
qed (auto simp: after_message_simps store_ok_def)

interpretation store_run: machine after_message "\<lambda>_ _. True" store_ok
  by unfold_locales (rule store_ok_message)

lemma always_enabled [simp]: "enabled_run (\<lambda>_ _. True) step s es"
  by (induction es arbitrary: s) auto

lemma address_of_nth:
  assumes "distinct (map key es)" and "k < length es"
  shows "find_last (\<lambda>ea. key (fst ea) = key (es ! k)) (addressed es st) = Some (es ! k, length (st_objs st) + k)"
proof (rule find_last_unique)
  show "(es ! k, length (st_objs st) + k) \<in> set (addressed es st)"
    using assms(2) by (auto simp: addressed_def set_zip)
  fix y assume "y \<in> set (addressed es st)" "key (fst y) = key (es ! k)"
  then obtain i where i: "i < length es" "y = (es ! i, length (st_objs st) + i)" "key (es ! i) = key (es ! k)"
    by (auto simp: addressed_def set_zip)
  then have "i = k" using nth_eq_iff_index_eq[OF assms(1), of i k] assms(2) by simp
  with i show "y = (es ! k, length (st_objs st) + k)" by simp
qed simp

lemma snapshot_addresses:
  assumes "distinct (map e_id es)" and "distinct (map (\<lambda>e. lower (e_name e)) es)" and "k < length es"
  shows "map_get (st_entities (after_message st (Snapshot es s))) (e_id (es ! k)) = Some (length (st_objs st) + k)"
    and "map_get (st_by_name (after_message st (Snapshot es s))) (lower (e_name (es ! k))) = Some (length (st_objs st) + k)"
  using address_of_nth[of e_id es k st] address_of_nth[of "\<lambda>e. lower (e_name e)" es k st] assms
  by (simp_all add: after_message_simps set_entities_simps fold_address_get[of e_id]
      fold_address_get[of "\<lambda>e. lower (e_name e)"])

section \<open>A sample snapshot\<close>

text \<open>A small heat pump, for the examples at which the properties are applied.\<close>

definition sensor :: "string \<Rightarrow> string \<Rightarrow> rat \<Rightarrow> entity" where
  "sensor i n v = \<lparr> e_id = i, e_name = n, e_platform = ''sensor'', e_category = ''sensor'',
     e_kind = Numeric, e_device_class = None, e_unit = None, e_state_class = None, e_options = [],
     e_min = None, e_max = None, e_step = None, e_writable = False,
     e_value = Some (Fin v), e_text = None, e_updated = Some (Fin 1) \<rparr>"

definition sample_status :: status where
  "sample_status = \<lparr> s_mqtt = True, s_broker = Some ''b'', s_last_message = Some (Fin 1), s_read_only = Some False \<rparr>"

definition sample_entities :: "rat \<Rightarrow> entity list" where
  "sample_entities outdoor =
     [sensor ''a'' (N K_outdoor) outdoor, sensor ''b'' ''FSV 2011 Max'' (- 10), sensor ''c'' ''FSV 2012 Min'' 15,
      sensor ''d'' ''FSV 2021 WL1 Max'' 40, sensor ''e'' ''FSV 2022 WL1 Min'' 25, sensor ''f'' (N K_lawOffset) 1,
      sensor ''g'' (N K_flow) 15, sensor ''h'' (N K_waterOut) 35, sensor ''i'' (N K_waterIn) 30,
      sensor ''j'' (N K_freq) 50, sensor ''k'' (N K_power) 1000]"

definition sample_store :: "rat \<Rightarrow> store" where
  "sample_store outdoor = after_message init_store (Snapshot (sample_entities outdoor) sample_status)"

section \<open>Properties: lookups and messages\<close>

text \<open>
  C1: in every state the dashboard reaches from its start by any sequence of server messages,
  both Maps have distinct keys, every address in them is an allocated object, and the object
  carries the identifier (the lower-case name) it is filed under.
\<close>

theorem store_ok_always: "store_ok (run after_message init_store ms)"
  using store_run.inv_run[of init_store ms] store_ok_init by simp

text \<open>
  C2: after a snapshot, a lookup by identifier, and a lookup by name in any letter case, return
  the last entity of the snapshot that carries it, and nothing from before the snapshot.
\<close>

theorem snapshot_lookup:
  "entity_by_id (after_message st (Snapshot es s)) i = find_last (\<lambda>e. e_id e = i) es \<and>
   ent (after_message st (Snapshot es s)) n = find_last (\<lambda>e. lower (e_name e) = lower n) es"
  using by_id_set_entities[of es st i] ent_set_entities[of es st n]
  by (simp add: after_message_simps entity_by_id_def ent_def)

text \<open>
  C3: a state message for an entity of the last snapshot changes value, text and time of that
  entity, as seen by identifier and by name, and of no other entity.
\<close>

theorem state_after_snapshot:
  assumes "distinct (map e_id es)" and "distinct (map (\<lambda>e. lower (e_name e)) es)"
    and "k < length es" and "j < length es"
    and "st1 = after_message st (Snapshot es s)"
    and "st2 = after_message st1 (State (e_id (es ! k)) v t ts)"
    and "e' = (if j = k then (es ! k)\<lparr> e_value := v, e_text := t, e_updated := Some ts \<rparr> else es ! j)"
  shows "ent st2 (e_name (es ! j)) = Some e' \<and> entity_by_id st2 (e_id (es ! j)) = Some e'
    \<and> s_last_message (st_status st2) = Some ts"
proof -
  let ?n = "length (st_objs st)"
  have "st_objs st1 = st_objs st @ es" by (simp add: assms(5) after_message_simps set_entities_simps)
  then have objs: "st_objs st1 ! (?n + k) = es ! k" "st_objs st1 ! (?n + j) = es ! j" "?n + k < length (st_objs st1)"
    using assms(3) by auto
  have "map_get (st_entities st1) (e_id (es ! k)) = Some (?n + k)"
    using snapshot_addresses(1)[OF assms(1,2,3)] assms(5) by simp
  then have st2: "st2 = st1\<lparr> st_objs := (st_objs st1)[?n + k := (es ! k)\<lparr> e_value := v, e_text := t, e_updated := Some ts \<rparr>],
         st_status := (st_status st1)\<lparr> s_last_message := Some ts \<rparr> \<rparr>"
    unfolding assms(6) by (simp add: after_message_simps objs)
  have "map_get (st_entities st1) (e_id (es ! j)) = Some (?n + j)"
    "map_get (st_by_name st1) (lower (e_name (es ! j))) = Some (?n + j)"
    using snapshot_addresses[OF assms(1,2,4)] assms(5) by auto
  then show ?thesis
    using objs by (simp add: st2 ent_def entity_by_id_def assms(7) nth_list_update)
qed

text \<open>
  A state message for an identifier that is not in the store changes nothing and emits
  nothing; every other message emits exactly one event.
\<close>

theorem unknown_state_ignored:
  "on_message (State i v t ts) st =
     (if entity_by_id st i = None then (st, [])
      else (after_message st (State i v t ts), [Ev_state (the (map_get (st_entities st) i))]))"
  by (simp add: on_message_def after_message_def entity_by_id_def split: option.splits)


theorem state_after_snapshot_witness:
  "ent (after_message (sample_store 5) (State ''g'' (Some (Fin 20)) None (Fin 7))) (N K_flow) =
     Some ((sensor ''g'' (N K_flow) 15)\<lparr> e_value := Some (Fin 20), e_text := None, e_updated := Some (Fin 7) \<rparr>)"
proof -
  have "distinct (map e_id (sample_entities 5))" "distinct (map (\<lambda>e. lower (e_name e)) (sample_entities 5))"
    by code_simp+
  from state_after_snapshot[OF this, of 6 6 "sample_store 5" init_store sample_status _ "Some (Fin 20)" None "Fin 7"]
  show ?thesis by (simp add: sample_store_def sample_entities_def sensor_def)
qed

end
