(* ===== verification/Schematic.thy ===== *)
theory Schematic
  imports Store
begin

text \<open>
  The system schematic of \<open>views/overview.js\<close>: the element tree that the browser builds from the text
  of \<open>flowSvg\<close> (white space between tags left out, attribute values unescaped), what \<open>renderFlow\<close>
  writes into it, and the pills of \<open>renderPills\<close>.
\<close>

section \<open>The picture\<close>

datatype dom = El string "(string \<times> string) list" "dom list" | Tx string

fun dom_ids :: "dom \<Rightarrow> string list" where
  "dom_ids (El tag attrs cs) =
     map snd (filter (\<lambda>(k, v). k = ''id'') attrs) @ concat (map dom_ids cs)"
| "dom_ids (Tx s) = []"

text \<open>\<open>esc(ent(n)?.id || "")\<close> as an attribute value.\<close>

definition entity_attr :: "store \<Rightarrow> name_key \<Rightarrow> string" where
  "entity_attr st n = (case ent st (N n) of Some e \<Rightarrow> e_id e | None \<Rightarrow> [])"

definition clickable :: "store \<Rightarrow> name_key \<Rightarrow> dom list \<Rightarrow> dom" where
  "clickable st n cs = El ''g'' [(''data-entity'', entity_attr st n), (''style'', ''cursor:pointer'')] cs"

definition path_el :: "string \<Rightarrow> (string \<times> string) list \<Rightarrow> dom" where
  "path_el d attrs = El ''path'' ((''d'', d) # attrs) []"

definition text_el :: "string \<Rightarrow> string \<Rightarrow> string \<Rightarrow> (string \<times> string) list \<Rightarrow> string \<Rightarrow> dom" where
  "text_el cls x y attrs s = El ''text'' ([(''class'', cls), (''x'', x), (''y'', y)] @ attrs) [Tx s]"

definition svg_defs :: dom where
  "svg_defs =
     El ''defs'' []
       [El ''linearGradient'' [(''id'', ''tankGrad''), (''x1'', ''0''), (''y1'', ''1''), (''x2'', ''0''), (''y2'', ''0'')]
          [El ''stop'' [(''offset'', ''0''), (''stop-color'', ''var(--heat)'')] [],
           El ''stop'' [(''offset'', ''1''), (''stop-color'', ''var(--heat-2)'')] []],
        El ''clipPath'' [(''id'', ''tankClip'')]
          [El ''rect'' [(''x'', ''690''), (''y'', ''182''), (''width'', ''100''), (''height'', ''120''), (''rx'', ''22'')] []]]"

definition svg_pipes :: "dom list" where
  "svg_pipes =
     map (\<lambda>d. path_el d [(''class'', ''pipe-bg'')])
       [''M276,110 H450'', ''M490,110 H630'', ''M470,130 V222 H690'', ''M630,140 H560 V250'', ''M690,280 H560 V250'', ''M560,250 H276''] @
     map (\<lambda>(cls, i, d). path_el d [(''class'', cls), (''id'', i)])
       [(''pipe supply'', ''p-main-s'', ''M276,110 H450''), (''pipe supply'', ''p-heat-s'', ''M490,110 H630''),
        (''pipe supply'', ''p-tank-s'', ''M470,130 V222 H690''), (''pipe ret'', ''p-heat-r'', ''M630,140 H560 V250''),
        (''pipe ret'', ''p-tank-r'', ''M690,280 H560 V250''), (''pipe ret'', ''p-main-r'', ''M560,250 H276'')]"

definition svg_unit :: "store \<Rightarrow> dom" where
  "svg_unit st =
     clickable st K_freq
       [El ''rect'' [(''class'', ''unit-box''), (''x'', ''26''), (''y'', ''40''), (''width'', ''250''), (''height'', ''240''), (''rx'', ''20'')] [],
        El ''g'' [(''opacity'', ''.5'')]
          (map (\<lambda>i. El ''rect'' [(''x'', ''184''), (''y'', nat_digits (70 + i * 10)), (''width'', ''72''), (''height'', ''3''),
                               (''rx'', ''1.5''), (''fill'', ''var(--border-strong)'')] []) [0, 1, 2, 3, 4, 5]),
        El ''circle'' [(''cx'', ''100''), (''cy'', ''150''), (''r'', ''58''), (''fill'', ''var(--surface)''), (''stroke'', ''var(--border-strong)'')] [],
        El ''g'' [(''class'', ''fan'')]
          (map (\<lambda>a. path_el ''M100,150 C92,128 92,104 104,96 C114,104 112,128 100,150Z''
                     [(''transform'', ''rotate('' @ nat_digits a @ '' 100 150)''), (''fill'', ''var(--cool)''), (''opacity'', ''.85'')])
             [0, 72, 144, 216, 288] @
           [El ''circle'' [(''cx'', ''100''), (''cy'', ''150''), (''r'', ''9''), (''fill'', ''var(--surface-3)''), (''stroke'', ''var(--border-strong)'')] []]),
        text_el ''lbl'' ''44'' ''236'' [] ''Compressor'', text_el ''val'' ''44'' ''262'' [(''id'', ''f-freq'')] endash,
        text_el ''lbl'' ''184'' ''236'' [] ''Fan'', text_el ''val-sm'' ''184'' ''260'' [(''id'', ''f-fan'')] endash]"

definition svg_labels :: "store \<Rightarrow> dom list" where
  "svg_labels st =
     [clickable st K_outdoor [text_el ''lbl'' ''26'' ''18'' [] ''Outside'',
        text_el ''val'' ''92'' ''20'' [(''id'', ''f-outdoor''), (''style'', ''font-size:16px'')] endash],
      clickable st K_waterOut [text_el ''lbl'' ''300'' ''72'' [] ''Flow out'', text_el ''val'' ''300'' ''96'' [(''id'', ''f-out'')] endash],
      clickable st K_waterIn [text_el ''lbl'' ''300'' ''276'' [] ''Return'', text_el ''val'' ''300'' ''300'' [(''id'', ''f-in'')] endash],
      clickable st K_flow [text_el ''lbl'' ''300'' ''172'' [] ''Flow rate'', text_el ''val-sm'' ''300'' ''192'' [(''id'', ''f-flow'')] endash]]"

definition svg_valve :: "store \<Rightarrow> dom" where
  "svg_valve st =
     clickable st K_valve
       [El ''circle'' [(''cx'', ''470''), (''cy'', ''110''), (''r'', ''20''), (''fill'', ''var(--surface-2)''), (''stroke'', ''var(--border-strong)'')] [],
        El ''g'' [(''class'', ''valve-arm''), (''id'', ''f-valve-arm'')]
          [path_el ''M470,110 L486,110'' [(''stroke'', ''var(--heat)''), (''stroke-width'', ''4''), (''stroke-linecap'', ''round'')]],
        El ''circle'' [(''cx'', ''470''), (''cy'', ''110''), (''r'', ''4''), (''fill'', ''var(--text)'')] [],
        text_el ''lbl'' ''470'' ''74'' [(''text-anchor'', ''middle'')] ''3-way valve'',
        text_el ''val-sm'' ''470'' ''160'' [(''text-anchor'', ''middle''), (''id'', ''f-valve''), (''style'', ''display:none'')] endash]"

definition zone_id :: "nat \<Rightarrow> string \<Rightarrow> string" where
  "zone_id z suffix = ''f-z'' @ nat_digits (int z) @ suffix"

definition svg_zone :: "store \<Rightarrow> nat \<Rightarrow> dom" where
  "svg_zone st z =
     El ''g'' [(''id'', zone_id z []), (''data-entity'', entity_attr st (if z = 1 then K_outlet1 else K_outlet2)), (''style'', ''cursor:pointer'')]
       [text_el ''lbl'' ''644'' (if z = 1 then ''104'' else ''140'') [] (''Zone '' @ nat_digits (int z)),
        text_el ''val'' ''748'' (if z = 1 then ''105'' else ''141'')
          [(''text-anchor'', ''end''), (''style'', ''font-size:17px''), (''id'', zone_id z ''-v'')] endash,
        text_el ''val-sm'' ''798'' (if z = 1 then ''105'' else ''141'')
          [(''text-anchor'', ''end''), (''style'', ''font-size:11px''), (''id'', zone_id z ''-t'')] []]"

definition svg_house :: "store \<Rightarrow> dom" where
  "svg_house st =
     El ''g'' [(''class'', ''target''), (''id'', ''f-house'')]
       (path_el ''M630,70 L720,16 L810,70 V160 H630Z''
          [(''fill'', ''var(--surface-2)''), (''stroke'', ''var(--border-strong)''), (''stroke-linejoin'', ''round'')]
        # text_el ''lbl'' ''720'' ''62'' [(''text-anchor'', ''middle''), (''id'', ''f-heat-lbl'')] ''Heating''
        # map (svg_zone st) [1, 2])"

definition svg_tank :: "store \<Rightarrow> dom" where
  "svg_tank st =
     El ''g'' [(''class'', ''target''), (''id'', ''f-tank''), (''data-entity'', entity_attr st K_tank), (''style'', ''cursor:pointer'')]
       [El ''rect'' [(''x'', ''690''), (''y'', ''182''), (''width'', ''100''), (''height'', ''120''), (''rx'', ''22''),
                   (''fill'', ''var(--surface-2)''), (''stroke'', ''var(--border-strong)'')] [],
        El ''g'' [(''clip-path'', ''url(#tankClip)'')]
          [El ''rect'' [(''class'', ''tank-fill''), (''id'', ''f-tank-fill''), (''x'', ''690''), (''y'', ''302''), (''width'', ''100''),
                      (''height'', ''0''), (''fill'', ''url(#tankGrad)''), (''opacity'', ''.45'')] []],
        text_el ''lbl'' ''740'' ''204'' [(''text-anchor'', ''middle''), (''style'', ''fill:var(--text-2)'')] ''Hot water'',
        text_el ''val'' ''740'' ''248'' [(''text-anchor'', ''middle''), (''id'', ''f-tank-v'')] endash,
        text_el ''val-sm'' ''740'' ''270'' [(''text-anchor'', ''middle''), (''id'', ''f-tank-t''), (''style'', ''fill:var(--text)'')] []]"

definition flow_svg :: "store \<Rightarrow> dom" where
  "flow_svg st =
     El ''svg'' [(''class'', ''flow-svg''), (''viewBox'', ''0 0 900 320''), (''role'', ''img''), (''aria-label'', ''Heat pump schematic'')]
       ([svg_defs] @ svg_pipes @ [svg_unit st] @ svg_labels st @ [svg_valve st, svg_house st, svg_tank st])"

section \<open>renderFlow\<close>

record flow_view =
  fw_running :: bool
  fw_fan_on :: bool
  fw_fan_speed :: string
  fw_pipe_time :: string
  fw_idle :: "(string \<times> bool) list"
  fw_arm :: string
  fw_active :: "(string \<times> bool) list"
  fw_texts :: "(string \<times> string) list"
  fw_opacity :: "(string \<times> string) list"
  fw_fill :: "jsnum \<times> jsnum"

text \<open>The texts for a temperature, in whole or tenth degrees.\<close>

definition deg :: "locale_format \<Rightarrow> jsnum option \<Rightarrow> string" where
  "deg loc v = (if v = None then endash else num loc v 1 @ degree)"

definition zone_texts :: "locale_format \<Rightarrow> store \<Rightarrow> nat \<Rightarrow> (string \<times> string) list" where
  "zone_texts loc st z =
     (let on = (text_of st (N (if z = 1 then K_zone1 else K_zone2)) \<noteq> Some ''OFF''); t = outlet_target st z
      in [(zone_id z ''-v'', deg loc (val st (N (if z = 1 then K_outlet1 else K_outlet2)))),
          (zone_id z ''-t'', if \<not> on then ''off'' else if t = None then [] else arrow @ '' '' @ num loc t 1 @ degree)])"

definition zone_opacity :: "store \<Rightarrow> nat \<Rightarrow> string" where
  "zone_opacity st z =
     (if ent st (N (if z = 1 then K_outlet1 else K_outlet2)) = None then ''0''
      else if text_of st (N (if z = 1 then K_zone1 else K_zone2)) \<noteq> Some ''OFF'' then ''1'' else ''0.45'')"

definition tank_level :: "jsnum option \<Rightarrow> jsnum" where
  "tank_level tank =
     (case tank of None \<Rightarrow> 0 | Some t \<Rightarrow> jmax (fl (5/100)) (jmin 1 ((t - Fin 20) / Fin 45)))"

definition tank_fill :: "jsnum \<Rightarrow> jsnum \<times> jsnum" where
  "tank_fill level = (Fin 302 - Fin 120 * level, Fin 120 * level)"

definition flow_texts :: "locale_format \<Rightarrow> store \<Rightarrow> (string \<times> string) list" where
  "flow_texts loc st =
     [(''f-outdoor'', if val st (N K_outdoor) = None then endash else num loc (val st (N K_outdoor)) 1 @ '' '' @ degree @ ''C''),
      (''f-freq'', num loc (Some (nullish (val st (N K_freq)) 0)) 0 @ '' Hz''),
      (''f-fan'', num loc (Some (nullish (val st (N K_fan)) 0)) 0 @ '' rpm''),
      (''f-out'', deg loc (val st (N K_waterOut))), (''f-in'', deg loc (val st (N K_waterIn))),
      (''f-flow'', num loc (Some (nullish (val st (N K_flow)) 0)) 1 @ '' L/min''),
      (''f-heat-lbl'', if text_of st (N K_mode) = Some ''AUTO'' then ''Heating '' @ middot @ '' water law'' else ''Heating'')] @
     zone_texts loc st 1 @ zone_texts loc st 2 @
     [(''f-tank-v'', deg loc (val st (N K_tank))),
      (''f-tank-t'', if val st (N K_dhwTarget) = None then [] else ''target '' @ num loc (val st (N K_dhwTarget)) 0 @ degree)]"

definition render_flow :: "locale_format \<Rightarrow> store \<Rightarrow> flow_view" where
  "render_flow loc st =
     (let flow = nullish (val st (N K_flow)) 0;
          rpm = nullish (val st (N K_fan)) 0;
          to_tank = (text_of st (N K_valve) = Some ''TANK'');
          running = (Fin (1/2) < flow)
      in \<lparr> fw_running = running,
           fw_fan_on = (0 < rpm),
           fw_fan_speed = number_text (jmax (Fin (1/4)) (Fin 320 / jmax rpm 1)) @ ''s'',
           fw_pipe_time = number_text (jmax (fl (35/100)) (jmin (Fin (5/2)) (Fin 14 / jmax flow 1))) @ ''s'',
           fw_idle = map (\<lambda>(p, on). (p, \<not> on \<or> \<not> running))
             [(''p-heat-s'', \<not> to_tank), (''p-heat-r'', \<not> to_tank), (''p-tank-s'', to_tank), (''p-tank-r'', to_tank),
              (''p-main-s'', True), (''p-main-r'', True)],
           fw_arm = (if to_tank then ''rotate(90deg)'' else ''rotate(0deg)''),
           fw_active = [(''f-house'', \<not> to_tank), (''f-tank'', to_tank)],
           fw_texts = flow_texts loc st,
           fw_opacity = [(zone_id 1 [], zone_opacity st 1), (zone_id 2 [], zone_opacity st 2)],
           fw_fill = tank_fill (tank_level (val st (N K_tank))) \<rparr>)"

text \<open>The elements \<open>renderFlow\<close> selects by identifier: all but those of \<open>setText\<close> must exist, or it throws.\<close>

definition flow_selects :: "flow_view \<Rightarrow> string list" where
  "flow_selects f =
     map fst (fw_idle f) @ [''f-valve-arm''] @ map fst (fw_active f) @ map fst (fw_texts f) @ map fst (fw_opacity f) @ [''f-tank-fill'']"

definition flow_stats :: "locale_format \<Rightarrow> store \<Rightarrow> string" where
  \<open>flow_stats loc st =
     (let dt = (case (val st (N K_waterOut), val st (N K_waterIn)) of (Some a, Some b) \<Rightarrow> Some (a - b) | _ \<Rightarrow> None);
          p = power loc (val st (N K_power)); hq = power loc (heat_output st); cop = live_cop st;
          cell = (\<lambda>k v. ''<div><div class="k">'' @ k @ ''</div><div class="v">'' @ v @ ''</div></div>'')
      in cell ''Heat output'' (fst hq @ ''<small>'' @ snd hq @ ''</small>'') @
         cell ''Power input'' (fst p @ ''<small>'' @ snd p @ ''</small>'') @
         cell ''Live COP'' (if cop = None then endash else num loc cop 2) @
         cell ([CHR 0xCE, CHR 0x94] @ ''T flow / return'') ((if dt = None then endash else num loc dt 1) @ ''<small>K</small>''))\<close>

section \<open>renderPills\<close>

definition pill :: "string \<Rightarrow> string \<Rightarrow> string" where
  \<open>pill cls content = ''<span class="pill '' @ cls @ ''"><span class="dot"></span>'' @ content @ ''</span>''\<close>

definition bold :: "string \<Rightarrow> string" where
  "bold s = ''<b>'' @ s @ ''</b>''"

definition op_label :: "string \<Rightarrow> string" where
  "op_label op = nullish (map_of [(''OP_STOP'', ''Standby''), (''OP_NORMAL'', ''Running''), (''OP_SAFETY'', ''Safety''),
     (''OP_BALANCE'', ''Balancing''), (''OP_RECOVERY'', ''Recovery'')] op) op"

definition truthy_text :: "string option \<Rightarrow> bool" where
  "truthy_text t = (t \<noteq> None \<and> t \<noteq> Some [])"

definition defrost_label :: "string \<Rightarrow> string" where
  "defrost_label s = lower (replace_first ''_'' '' '' (replace_first ''DEFROST_'' [] s))"

definition pills :: "locale_format \<Rightarrow> store \<Rightarrow> string list" where
  \<open>pills loc st =
     (let err = val st (N K_error); op = text_of st (N K_opMode); mode = text_of st (N K_mode);
          defrost = text_of st (N K_defrost); backup = text_of st (N K_backup); booster = text_of st (N K_booster)
      in (case err of None \<Rightarrow> []
          | Some x \<Rightarrow> if 0 < x then [pill ''bad'' (''Error '' @ bold (''E'' @ num loc err 0))] else [pill ''good'' ''No errors'']) @
         (if truthy_text op then [pill (if op = Some ''OP_NORMAL'' then ''heat'' else []) (esc (map_option op_label op))] else []) @
         (if truthy_text mode then [''<span class="pill">Mode '' @ bold (esc mode) @ ''</span>''] else []) @
         (if truthy_text defrost \<and> \<not> str_includes ''NO_DEF'' (the defrost)
          then [pill ''cool'' (''Defrost '' @ bold (esc (map_option defrost_label defrost)))] else []) @
         (if truthy_text backup \<and> backup \<noteq> Some ''OFF'' then [pill ''warn'' (''Backup heater '' @ bold (esc backup))] else []) @
         (if truthy_text booster \<and> booster \<noteq> Some ''OFF'' then [pill ''warn'' ''Booster heater''] else []))\<close>

definition render_pills :: "locale_format \<Rightarrow> store \<Rightarrow> string" where
  "render_pills loc st = concat (pills loc st)"

section \<open>Lemmas\<close>

lemma small_digits: "nat_digits 1 = ''1''" "nat_digits 2 = ''2''"
  by code_simp+

lemma zone_ids: "zone_id 1 s = ''f-z1'' @ s" "zone_id (Suc 0) s = ''f-z1'' @ s" "zone_id 2 s = ''f-z2'' @ s"
  by (simp_all add: zone_id_def small_digits)

lemma dom_ids_path [simp]: "dom_ids (path_el d attrs) = map snd (filter (\<lambda>(k, v). k = ''id'') attrs)"
  by (simp add: path_el_def)

lemma dom_ids_text [simp]: "dom_ids (text_el cls x y attrs s) = map snd (filter (\<lambda>(k, v). k = ''id'') attrs)"
  by (simp add: text_el_def)

lemma dom_ids_clickable [simp]: "dom_ids (clickable st n cs) = concat (map dom_ids cs)"
  by (simp add: clickable_def)

lemma flow_svg_ids:
  "dom_ids (flow_svg st) =
     [''tankGrad'', ''tankClip'', ''p-main-s'', ''p-heat-s'', ''p-tank-s'', ''p-heat-r'', ''p-tank-r'', ''p-main-r'',
      ''f-freq'', ''f-fan'', ''f-outdoor'', ''f-out'', ''f-in'', ''f-flow'', ''f-valve-arm'', ''f-valve'', ''f-house'', ''f-heat-lbl'',
      ''f-z1'', ''f-z1-v'', ''f-z1-t'', ''f-z2'', ''f-z2-v'', ''f-z2-t'', ''f-tank'', ''f-tank-fill'', ''f-tank-v'', ''f-tank-t'']"
  by (simp add: flow_svg_def svg_defs_def svg_pipes_def svg_unit_def svg_labels_def svg_valve_def svg_house_def svg_zone_def
      svg_tank_def zone_ids)

lemma flow_selects_eq:
  "flow_selects (render_flow loc st) =
     [''p-heat-s'', ''p-heat-r'', ''p-tank-s'', ''p-tank-r'', ''p-main-s'', ''p-main-r'', ''f-valve-arm'', ''f-house'', ''f-tank'',
      ''f-outdoor'', ''f-freq'', ''f-fan'', ''f-out'', ''f-in'', ''f-flow'', ''f-heat-lbl'', ''f-z1-v'', ''f-z1-t'', ''f-z2-v'', ''f-z2-t'',
      ''f-tank-v'', ''f-tank-t'', ''f-z1'', ''f-z2'', ''f-tank-fill'']"
  by (simp add: flow_selects_def render_flow_def Let_def flow_texts_def zone_texts_def zone_ids)

lemma fl_bounds: "rnd a = a \<Longrightarrow> rnd b = b \<Longrightarrow> a \<le> x \<Longrightarrow> x \<le> b \<Longrightarrow> \<bar>x\<bar> \<le> 2 ^ 100 \<Longrightarrow> \<exists>y. fl x = Fin y \<and> a \<le> y \<and> y \<le> b"
  using rnd_mono[of a x] rnd_mono[of x b] by (simp add: fl_small)

lemma tank_level_range:
  assumes "bounded 1000000 x"
  obtains l where "tank_level (Some x) = Fin l" "rnd (1/20) \<le> l" "l \<le> 1" "rnd l = l"
proof -
  obtain t where t: "x = Fin t" "\<bar>t\<bar> \<le> 1000000" by (rule boundedE[OF assms])
  have a: "fl (t - 20) = Fin (rnd (t - 20))" using t(2) by (intro fl_small) simp
  have "\<bar>rnd (t - 20)\<bar> \<le> 2000000"
    using t(2) rnd_mono[of "t - 20" 2000000] rnd_mono[of "- 2000000" "t - 20"] by (simp add: abs_le_iff)
  then have b: "fl (rnd (t - 20) / 45) = Fin (rnd (rnd (t - 20) / 45))" by (intro fl_small) (simp add: abs_divide divide_le_eq)
  have c: "fl (1/20) = Fin (rnd (1/20))" by (rule fl_small) simp
  have "tank_level (Some x) = Fin (max (rnd (1/20)) (min 1 (rnd (rnd (t - 20) / 45))))"
    by (simp add: tank_level_def t(1) a b c one_jsnum_def)
  moreover have "rnd (1/20) \<le> (1::rat)" using rnd_mono[of "1/20" 1] by simp
  moreover have "rnd (max (rnd (1/20)) (min 1 (rnd y))) = max (rnd (1/20)) (min 1 (rnd y))" for y
    by (simp add: max_def min_def)
  ultimately show thesis using that by simp
qed

section \<open>Properties\<close>

text \<open>
  The filling of the tank stays inside the drawn tank (y from 182 to 302) for every temperature, and a hotter
  tank is never drawn emptier.
\<close>

theorem tank_filling_inside:
  assumes "bounded 1000000 t" "bounded 1000000 u" "t \<le> u"
    and "tank_fill (tank_level (Some t)) = (y, hgt)" "tank_fill (tank_level (Some u)) = (y', hgt')"
  shows "Fin 182 \<le> y \<and> y \<le> Fin 302 \<and> Fin 5 \<le> hgt \<and> hgt \<le> Fin 120 \<and> y' \<le> y \<and> hgt \<le> hgt'"
proof -
  obtain l where l: "tank_level (Some t) = Fin l" "rnd (1/20) \<le> l" "l \<le> 1" by (rule tank_level_range[OF assms(1)])
  obtain l' where l': "tank_level (Some u) = Fin l'" "rnd (1/20) \<le> l'" "l' \<le> 1" by (rule tank_level_range[OF assms(2)])
  have "(49/1000::rat) \<le> rnd (1/20)" using rnd_close[of "1/20"] by simp
  then have low: "49/1000 \<le> l" "49/1000 \<le> l'" using l(2) l'(2) by simp_all
  have mono: "l \<le> l'"
  proof -
    have "(t - Fin 20) / Fin 45 \<le> (u - Fin 20) / Fin 45"
      using assms(1-3) by (intro num_divide_mono) (auto elim!: boundedE intro!: fl_mono)
    then have "tank_level (Some t) \<le> tank_level (Some u)"
      by (cases "(t - Fin 20) / Fin 45"; cases "(u - Fin 20) / Fin 45")
        (auto simp: tank_level_def jmax_def jmin_def one_jsnum_def num_le_refl fl_small[of "1/20"] split: if_splits)
    then show ?thesis by (simp add: l l')
  qed
  obtain v where v: "fl (120 * l) = Fin v" "5 \<le> v" "v \<le> 120" using fl_bounds[of 5 120 "120 * l"] l(3) low by auto
  obtain v' where v': "fl (120 * l') = Fin v'" "5 \<le> v'" "v' \<le> 120" using fl_bounds[of 5 120 "120 * l'"] l'(3) low by auto
  have vv: "v \<le> v'" using fl_mono[of "120 * l" "120 * l'"] mono by (simp add: v v')
  have "fl (302 - v') \<le> fl (302 - v)" using vv by (intro fl_mono) simp
  moreover obtain w where w: "fl (302 - v) = Fin w" "182 \<le> w" "w \<le> 302" using fl_bounds[of 182 302 "302 - v"] v by auto
  moreover have "y = Fin w" "hgt = Fin v" "y' = fl (302 - v')" "hgt' = Fin v'"
    using assms(4,5) by (simp_all add: tank_fill_def l l' v v' w)
  ultimately show ?thesis using v(2,3) vv by simp
qed

theorem tank_filling_inside_witness:
  "Fin 182 \<le> fst (tank_fill (tank_level (Some (Fin 40)))) \<and> fst (tank_fill (tank_level (Some (Fin 40)))) \<le> Fin 302 \<and>
   Fin 5 \<le> snd (tank_fill (tank_level (Some (Fin 40)))) \<and> snd (tank_fill (tank_level (Some (Fin 40)))) \<le> Fin 120 \<and>
   fst (tank_fill (tank_level (Some (Fin 50)))) \<le> fst (tank_fill (tank_level (Some (Fin 40)))) \<and>
   snd (tank_fill (tank_level (Some (Fin 40)))) \<le> snd (tank_fill (tank_level (Some (Fin 50))))"
  by (rule tank_filling_inside[OF _ _ _ prod.collapse[symmetric] prod.collapse[symmetric]]) simp_all

end
