(* ===== verification/Gaps.thy ===== *)
theory Gaps
  imports Format "HOL-Library.While_Combinator"
begin

text \<open>
  The tables of history samples and what \<open>charts.js\<close> and \<open>views/overview.js\<close> do with them before
  drawing: \<open>withGaps\<close> breaks lines where data is missing, \<open>resample\<close> samples a step function on
  a grid, \<open>sparkline\<close> turns a grid into an SVG path.
\<close>

section \<open>Tables\<close>

text \<open>
  One series of the answer of \<open>api/history\<close>: parallel arrays, in order of time. \<open>v[i]\<close> is
  \<open>undefined\<close> past the end and may be \<open>null\<close>; both are \<open>None\<close>.
\<close>

record series =
  sr_t :: "jsnum list"
  sr_v :: "jsnum option list"
  sr_min :: "jsnum option list"
  sr_max :: "jsnum option list"
  sr_text :: "string option list"

definition at_null :: "'a option list \<Rightarrow> nat \<Rightarrow> 'a option" where
  "at_null xs i = (case elem_at xs i of Some x \<Rightarrow> x | None \<Rightarrow> None)"

lemma at_null_Nil [simp]: "at_null [] i = None"
  by (simp add: at_null_def)

lemma at_null_0 [simp]: "at_null (x # xs) 0 = x"
  by (simp add: at_null_def)

lemma at_null_Suc [simp]: "at_null (x # xs) (Suc i) = at_null xs i"
  by (simp add: at_null_def)

lemma at_null_nth: "i < length xs \<Longrightarrow> at_null xs i = xs ! i"
  by (simp add: at_null_def elem_at_in)

section \<open>Gaps\<close>

fun steps_from :: "jsnum \<Rightarrow> jsnum list \<Rightarrow> jsnum list" where
  "steps_from a [] = []"
| "steps_from a (b # ts) = (b - a) # steps_from b ts"

text \<open>\<open>sort((a, b) => a - b)\<close>: a difference that is \<open>NaN\<close> counts as 0.\<close>

definition num_sort :: "jsnum list \<Rightarrow> jsnum list" where
  "num_sort xs = sort_by (\<lambda>a b. \<not> 0 < a - b) xs"

definition median_step :: "jsnum list \<Rightarrow> jsnum" where
  "median_step ts =
     (let s = num_sort (steps_from (hd ts) (tl ts))
      in num_or (elem_at s (length s div 2)) (Fin 60))"

definition gap_limit :: "jsnum \<Rightarrow> jsnum list \<Rightarrow> jsnum" where
  "gap_limit min_gap ts = jmax min_gap (median_step ts * Fin 4)"

fun gap_loop :: "jsnum \<Rightarrow> jsnum \<Rightarrow> (jsnum \<times> jsnum option) list \<Rightarrow> (jsnum \<times> jsnum option) list" where
  "gap_loop limit prev [] = []"
| "gap_loop limit prev ((t, v) # ps) =
     (if limit < t - prev then [(prev + 1, None)] else []) @ (t, v) # gap_loop limit t ps"

definition table :: "jsnum list \<Rightarrow> jsnum option list \<Rightarrow> (jsnum \<times> jsnum option) list" where
  "table ts vs = map (\<lambda>i. (ts ! i, at_null vs i)) [0..<length ts]"

definition with_gaps :: "jsnum list \<Rightarrow> jsnum option list \<Rightarrow> jsnum \<Rightarrow> jsnum list \<times> jsnum option list" where
  "with_gaps ts vs min_gap =
     (if length ts < 3 then (ts, vs)
      else
        let p0 = (hd ts, at_null vs 0);
            out = p0 # gap_loop (gap_limit min_gap ts) (fst p0) (tl (table ts vs))
        in (map fst out, map snd out))"

section \<open>Resampling\<close>

text \<open>
  \<open>resample\<close>: \<open>j\<close> moves to the last sample that is not later than the grid point. The inner
  \<open>while\<close> reads \<open>s.t[j + 1]\<close> while it exists.
\<close>

function seek :: "jsnum list \<Rightarrow> jsnum \<Rightarrow> nat \<Rightarrow> nat" where
  "seek ts t j = (if j + 1 < length ts \<and> ts ! (j + 1) \<le> t then seek ts t (j + 1) else j)"
  by pat_completeness auto
termination
  by (relation "measure (\<lambda>(ts, t, j). length ts - j)") auto

declare seek.simps [simp del]

definition grid_time :: "jsnum \<Rightarrow> jsnum \<Rightarrow> nat \<Rightarrow> nat \<Rightarrow> jsnum" where
  "grid_time start stop n i = start + ((stop - start) * Fin (of_nat i)) / Fin (of_nat n - 1)"

text \<open>What a grid point \<open>t\<close> gets with the index at \<open>j\<close>.\<close>

definition hold :: "series \<Rightarrow> jsnum \<Rightarrow> nat \<Rightarrow> jsnum option" where
  "hold s t j = (if (case elem_at (sr_t s) j of Some u \<Rightarrow> u \<le> t | None \<Rightarrow> False) then at_null (sr_v s) j else None)"

fun resample_loop :: "series \<Rightarrow> jsnum list \<Rightarrow> nat \<Rightarrow> jsnum option list" where
  "resample_loop s [] j = []"
| "resample_loop s (t # ts) j =
     (let j' = seek (sr_t s) t j in hold s t j' # resample_loop s ts j')"

definition resample :: "series \<Rightarrow> jsnum \<Rightarrow> jsnum \<Rightarrow> nat \<Rightarrow> jsnum option list" where
  "resample s start stop n = resample_loop s (map (grid_time start stop n) [0..<n]) 0"

text \<open>
  The same loops one iteration at a time, on the variables \<open>i\<close>, \<open>j\<close> and \<open>out\<close> of the code: either the body of the
  \<open>while\<close> or the rest of the body of the \<open>for\<close>.
\<close>

type_synonym resample_state = "nat \<times> nat \<times> jsnum option list"

fun resample_step :: "series \<Rightarrow> jsnum \<Rightarrow> jsnum \<Rightarrow> nat \<Rightarrow> resample_state \<Rightarrow> resample_state" where
  "resample_step s start stop n (i, j, out) =
     (if n \<le> i then (i, j, out)
      else let t = grid_time start stop n i
           in if j + 1 < length (sr_t s) \<and> sr_t s ! (j + 1) \<le> t then (i, j + 1, out)
              else (i + 1, j, out @ [hold s t j]))"

section \<open>Sparklines\<close>

text \<open>\<open>x.toFixed(1)\<close> for \<open>|x| < 10^21\<close>: tenths, rounded half up, of the exact value.\<close>

definition fixed1 :: "jsnum \<Rightarrow> string" where
  "fixed1 x =
     (case x of
        Fin a \<Rightarrow>
          (let n = \<lfloor>\<bar>a\<bar> * 10 + 1/2\<rfloor>
           in (if a < 0 then ''-'' else []) @ nat_digits (n div 10) @ ''.'' @ nat_digits (n mod 10))
      | _ \<Rightarrow> number_text x)"

definition spark_range :: "jsnum list \<Rightarrow> jsnum \<times> jsnum" where
  "spark_range pts =
     (let lo = jmins pts; hi = jmaxs pts in
      if hi - lo < fl (1 / 1000000000) then (lo - 1, hi + 1) else (lo, hi))"

definition spark_y :: "jsnum \<Rightarrow> jsnum \<times> jsnum \<Rightarrow> jsnum \<Rightarrow> jsnum" where
  "spark_y height r v =
     height - Fin 3 - ((v - fst r) / (snd r - fst r)) * (height - Fin 8)"

text \<open>The drawing commands: pen up (\<open>M\<close>) where the previous value was missing.\<close>

datatype stroke = Move jsnum jsnum | Line jsnum jsnum

fun spark_loop :: "jsnum \<Rightarrow> jsnum \<Rightarrow> jsnum \<times> jsnum \<Rightarrow> nat \<Rightarrow> bool \<Rightarrow> jsnum option list \<Rightarrow> stroke list" where
  "spark_loop height step r i started [] = []"
| "spark_loop height step r i started (None # vs) = spark_loop height step r (Suc i) False vs"
| "spark_loop height step r i started (Some v # vs) =
     (if started then Line else Move) (Fin (of_nat i) * step) (spark_y height r v)
     # spark_loop height step r (Suc i) True vs"

fun stroke_text :: "stroke \<Rightarrow> string" where
  "stroke_text (Move x y) = ''M'' @ fixed1 x @ '','' @ fixed1 y"
| "stroke_text (Line x y) = ''L'' @ fixed1 x @ '','' @ fixed1 y"

definition spark_strokes :: "jsnum \<Rightarrow> jsnum \<Rightarrow> jsnum option list \<Rightarrow> stroke list" where
  "spark_strokes width height values =
     (let pts = List.map_filter id values in
      if length pts < 2 then []
      else spark_loop height (width / Fin (of_nat (length values) - 1)) (spark_range pts) 0 False values)"

text \<open>\<open>uid\<close> is the random identifier of the gradient.\<close>

definition sparkline :: "string \<Rightarrow> jsnum \<Rightarrow> jsnum \<Rightarrow> string \<Rightarrow> bool \<Rightarrow> jsnum option list \<Rightarrow> string" where
  \<open>sparkline uid width height color area values =
     (if length (List.map_filter id values) < 2 then []
      else
        let d = concat (map stroke_text (spark_strokes width height values));
            w = number_text width; h = number_text height; nl = [CHR 0x0A]; fill_id = ''sg'' @ uid
        in ''<svg viewBox="0 0 '' @ w @ '' '' @ h @ ''" preserveAspectRatio="none" width="100%" height="100%">'' @ nl @
           ''    <defs><linearGradient id="'' @ fill_id @ ''" x1="0" y1="0" x2="0" y2="1"><stop offset="0" stop-color="var('' @
           color @ '')" stop-opacity=".28"/><stop offset="1" stop-color="var('' @ color @
           '')" stop-opacity="0"/></linearGradient></defs>'' @ nl @ ''    '' @
           (if area then ''<path d="'' @ d @ ''L'' @ w @ '','' @ h @ ''L0,'' @ h @ ''Z" fill="url(#'' @ fill_id @ '')"/>'' else []) @
           nl @ ''    <path d="'' @ d @ ''" fill="none" stroke="var('' @ color @
           '')" stroke-width="1.6" vector-effect="non-scaling-stroke"/>'' @ nl @ ''  </svg>'')\<close>

section \<open>Lemmas on gaps\<close>

lemma table_Nil [simp]: "table [] vs = []"
  by (simp add: table_def)

lemma table_Cons [simp]: "table (t # ts) vs = (t, at_null vs 0) # table ts (tl vs)"
proof -
  have "at_null vs (Suc i) = at_null (tl vs) i" for i by (cases vs) simp_all
  then show ?thesis by (simp add: table_def upt_conv_Cons map_Suc_upt[symmetric] del: map_Suc_upt upt_Suc)
qed

lemma map_fst_table [simp]: "map fst (table ts vs) = ts"
  by (induction ts arbitrary: vs) auto

text \<open>The samples that have a value.\<close>

definition known_samples :: "(jsnum \<times> jsnum option) list \<Rightarrow> (jsnum \<times> jsnum option) list" where
  "known_samples ps = filter (\<lambda>p. snd p \<noteq> None) ps"

lemma known_samples_simps [simp]:
  "known_samples [] = []" "known_samples (p # ps) = (if snd p \<noteq> None then p # known_samples ps else known_samples ps)"
  by (simp_all add: known_samples_def)

lemma known_samples_zip: "known_samples (zip ts vs) = known_samples (table ts vs)"
proof (induction ts arbitrary: vs)
  case (Cons t ts)
  have "known_samples (table ts []) = []"
    by (induction ts) auto
  with Cons show ?case by (cases vs) auto
qed simp

definition gap_out :: "jsnum \<Rightarrow> jsnum list \<Rightarrow> jsnum option list \<Rightarrow> (jsnum \<times> jsnum option) list" where
  "gap_out min_gap ts vs =
     (case table ts vs of [] \<Rightarrow> [] | p # ps \<Rightarrow> p # gap_loop (gap_limit min_gap ts) (fst p) ps)"

lemma with_gaps_out:
  "3 \<le> length ts \<Longrightarrow> with_gaps ts vs g = (map fst (gap_out g ts vs), map snd (gap_out g ts vs))"
  by (cases ts) (auto simp: with_gaps_def gap_out_def Let_def)

lemma gap_loop_known:
  "known_samples (gap_loop l a ps) = known_samples ps"
  by (induction l a ps rule: gap_loop.induct) auto

lemma gap_out_known: "known_samples (gap_out g ts vs) = known_samples (table ts vs)"
  by (auto simp: gap_out_def gap_loop_known split: list.split)

text \<open>Two points with values are neighbours only when they are no gap apart.\<close>

definition joined_ok :: "jsnum \<Rightarrow> jsnum \<times> jsnum option \<Rightarrow> jsnum \<times> jsnum option \<Rightarrow> bool" where
  "joined_ok l p q = (snd p = None \<or> snd q = None \<or> \<not> l < fst q - fst p)"

lemma gap_loop_joined: "successively (joined_ok l) ((a, v) # gap_loop l a ps)"
  by (induction l a ps arbitrary: v rule: gap_loop.induct) (auto simp: joined_ok_def)

lemma gap_loop_length:
  "length (gap_loop l a ps) = length ps + length (filter (\<lambda>d. l < d) (steps_from a (map fst ps)))"
  by (induction l a ps rule: gap_loop.induct) auto

lemma gap_marker:
  assumes "l < Fin b - Fin a" "\<not> l < Fin 2" "\<bar>a\<bar> \<le> 1000000000000" "\<bar>b\<bar> \<le> 1000000000000"
  shows "Fin a < Fin a + 1 \<and> Fin a + 1 < Fin b"
proof -
  define n where "n = \<lfloor>a\<rfloor>"
  have n: "of_int n \<le> a" "a < of_int n + 1" unfolding n_def by linarith+
  then have big: "\<bar>n + 1\<bar> \<le> 2 ^ 53" "\<bar>n + 2\<bar> \<le> 2 ^ 53" using assms(3) by (auto simp: abs_le_iff n_def le_floor_iff floor_le_iff)
  have lo: "of_int n + 1 \<le> rnd (a + 1)" using dbl.r_ge[of "of_int (n + 1)" "a + 1"] rnd_of_int[OF big(1)] n by simp
  have hi: "rnd (a + 1) \<le> of_int n + 2" using dbl.r_le[of "a + 1" "of_int (n + 2)"] rnd_of_int[OF big(2)] n by simp
  have "fl (b - a) \<noteq> NaN" by simp
  then have "Fin 2 < fl (b - a)"
    using assms(1,2) by (cases l; cases "fl (b - a)") auto
  then have "\<not> b - a \<le> 2" using fl_mono[of "b - a" 2] num_not_less[of "Fin 2" "fl (b - a)"] by auto
  moreover have "fl (a + 1) = Fin (rnd (a + 1))" using assms(3) by (intro fl_small) auto
  ultimately show ?thesis using lo hi n by (simp add: one_jsnum_def)
qed

lemma gap_loop_ascending:
  assumes "\<not> l < Fin 2" "successively (\<le>) (a # map fst ps)" "\<forall>t\<in>set (a # map fst ps). bounded 1000000000000 t"
  shows "successively (\<le>) (a # map fst (gap_loop l a ps))"
  using assms
proof (induction l a ps rule: gap_loop.induct)
  case (2 l a t v ps)
  obtain x y where xy: "a = Fin x" "t = Fin y" "\<bar>x\<bar> \<le> 1000000000000" "\<bar>y\<bar> \<le> 1000000000000"
    using 2(4) by (auto elim!: boundedE)
  have "successively (\<le>) (t # map fst (gap_loop l t ps))" using 2 by auto
  moreover have "a \<le> t" using 2(3) by simp
  ultimately show ?case using gap_marker[of l y x] 2(2) xy by (auto simp: num_less_le)
qed simp

lemma transp_num_le: "transp ((\<le>) :: jsnum \<Rightarrow> jsnum \<Rightarrow> bool)"
  by (rule transpI) (rule num_le_trans)

lemma gap_limit_not_small: "g = Fin r \<Longrightarrow> 2 \<le> r \<Longrightarrow> \<not> gap_limit g ts < Fin 2"
  by (cases "median_step ts * Fin 4") (auto simp: gap_limit_def jmax_def)

section \<open>Properties of gaps\<close>

text \<open>
  \<open>withGaps\<close> neither loses nor alters a sample: the samples with a value, with their times and
  in their order, are those of the input.
\<close>

theorem gaps_keep_samples:
  "known_samples (zip (fst (with_gaps ts vs g)) (snd (with_gaps ts vs g))) = known_samples (zip ts vs)"
proof (cases "length ts < 3")
  case False
  then show ?thesis
    by (simp add: with_gaps_out zip_map_fst_snd gap_out_known known_samples_zip)
qed (simp add: with_gaps_def)

text \<open>
  C23: from three samples on, \<open>withGaps\<close> keeps every sample that has a value, with its time and in its place, joins
  two samples by a line only when the time between them does not exceed the limit, and adds one break for each longer step
  and nothing else; one or two samples are left as they are, however far apart.
\<close>

theorem gaps_break_lines:
  assumes "(ot, ov) = with_gaps ts vs g"
  shows "if length ts < 3 then ot = ts \<and> ov = vs
    else known_samples (zip ot ov) = known_samples (zip ts vs)
      \<and> successively (joined_ok (gap_limit g ts)) (zip ot ov)
      \<and> length ot = length ts + length (filter (\<lambda>d. gap_limit g ts < d) (steps_from (hd ts) (tl ts)))"
proof (cases "length ts < 3")
  case True
  then show ?thesis using assms by (simp add: with_gaps_def)
next
  case False
  then obtain t ts' where ts: "ts = t # ts'" by (cases ts) auto
  have out: "gap_out g ts vs = (t, at_null vs 0) # gap_loop (gap_limit g ts) t (table ts' (tl vs))"
    by (simp add: gap_out_def ts)
  have "zip ot ov = gap_out g ts vs" using assms False by (simp add: with_gaps_out zip_map_fst_snd)
  moreover have "length ot = length (gap_out g ts vs)" using assms False by (simp add: with_gaps_out)
  moreover have "length (table ts' (tl vs)) = length ts'" by (simp add: table_def)
  moreover have "known_samples (zip ot ov) = known_samples (zip ts vs)"
    using gaps_keep_samples[of ts vs g] by (simp add: assms[symmetric])
  ultimately show ?thesis using False by (simp add: out gap_loop_joined gap_loop_length) (simp add: ts)
qed

text \<open>
  The times stay ascending, as the chart library demands, when those of the input are and the
  smallest gap is two seconds or more: the mark of a gap falls between its two samples.
\<close>

theorem gaps_ascending:
  assumes "sorted_wrt (\<le>) ts" "\<forall>t\<in>set ts. bounded 1000000000000 t" and "2 \<le> r"
  shows "sorted_wrt (\<le>) (fst (with_gaps ts vs (Fin r)))"
proof (cases "length ts < 3")
  case False
  then obtain t ts' where ts: "ts = t # ts'" by (cases ts) auto
  have "successively (\<le>) (t # map fst (gap_loop (gap_limit (Fin r) ts) t (table ts' (tl vs))))"
    using assms by (intro gap_loop_ascending gap_limit_not_small) (auto simp: ts successively_if_sorted_wrt)
  then have "sorted_wrt (\<le>) (t # map fst (gap_loop (gap_limit (Fin r) ts) t (table ts' (tl vs))))"
    by (simp add: successively_conv_sorted_wrt[OF transp_num_le])
  with False show ?thesis by (simp add: with_gaps_out gap_out_def) (simp add: ts)
qed (use assms in \<open>simp add: with_gaps_def\<close>)

section \<open>Properties of resampling\<close>

text \<open>The number of samples that are not later than \<open>t\<close>, in a table in order of time.\<close>

definition up_to :: "jsnum list \<Rightarrow> jsnum \<Rightarrow> nat" where
  "up_to ts t = length (takeWhile (\<lambda>u. u \<le> t) ts)"

text \<open>The value of the last sample that is not later than \<open>t\<close>.\<close>

definition value_at :: "series \<Rightarrow> jsnum \<Rightarrow> jsnum option" where
  "value_at s t = (case up_to (sr_t s) t of 0 \<Rightarrow> None | Suc j \<Rightarrow> at_null (sr_v s) j)"

lemma up_to_le: "up_to ts t \<le> length ts"
  by (simp add: up_to_def length_takeWhile_le)

lemma up_to_nth: "j < up_to ts t \<Longrightarrow> ts ! j \<le> t"
  unfolding up_to_def by (metis nth_mem set_takeWhileD takeWhile_nth)

lemma up_to_end: "up_to ts t < length ts \<Longrightarrow> \<not> ts ! up_to ts t \<le> t"
  unfolding up_to_def by (rule nth_length_takeWhile)

lemma up_to_mono: "t \<le> u \<Longrightarrow> up_to ts t \<le> up_to ts u"
  by (induction ts) (auto simp: up_to_def dest: num_le_trans)

lemma up_to_after:
  assumes "sorted_wrt (\<le>) ts" "up_to ts t \<le> j" "j < length ts"
  shows "\<not> ts ! j \<le> t"
proof (cases "j = up_to ts t")
  case False
  then have "ts ! up_to ts t \<le> ts ! j" using assms by (simp add: sorted_wrt_iff_nth_less)
  then show ?thesis using up_to_end[of ts t] assms by (auto dest: num_le_trans)
qed (use assms up_to_end in auto)

lemma seek_up_to:
  assumes sorted_ts: "sorted_wrt (\<le>) ts" and "j \<le> up_to ts t - 1"
  shows "seek ts t j = up_to ts t - 1"
  using assms
proof (induction ts t j rule: seek.induct)
  case (1 ts t j)
  show ?case
  proof (cases "j < up_to ts t - 1")
    case True
    then have "j + 1 < length ts" "ts ! (j + 1) \<le> t"
      using up_to_le[of ts t] up_to_nth[of "j + 1" ts t] by auto
    with 1 True show ?thesis by (subst seek.simps) auto
  next
    case False
    with 1(3) have "j = up_to ts t - 1" by simp
    moreover have "\<not> (j + 1 < length ts \<and> ts ! (j + 1) \<le> t)"
      using up_to_after[of ts t "j + 1"] 1(2) calculation by auto
    ultimately show ?thesis by (subst seek.simps) auto
  qed
qed

lemma resample_loop_values:
  assumes "sorted_wrt (\<le>) (sr_t s)" "sorted_wrt (\<le>) ts" "ts \<noteq> [] \<longrightarrow> j \<le> up_to (sr_t s) (hd ts) - 1"
  shows "resample_loop s ts j = map (value_at s) ts"
  using assms(2,3)
proof (induction ts arbitrary: j)
  case (Cons t ts)
  let ?n = "up_to (sr_t s) t"
  have j: "seek (sr_t s) t j = ?n - 1" using seek_up_to[OF assms(1)] Cons.prems by simp
  have "ts \<noteq> [] \<longrightarrow> ?n - 1 \<le> up_to (sr_t s) (hd ts) - 1"
    using Cons.prems(1) by (cases ts) (auto intro: up_to_mono diff_le_mono)
  then have "resample_loop s ts (?n - 1) = map (value_at s) ts" using Cons by auto
  moreover have "hold s t (?n - 1) = value_at s t"
  proof (cases ?n)
    case 0
    then show ?thesis using up_to_end[of "sr_t s" t] by (auto simp: hold_def value_at_def elem_at_def)
  next
    case (Suc k)
    then have "k < length (sr_t s)" "sr_t s ! k \<le> t"
      using up_to_le[of "sr_t s" t] up_to_nth[of k "sr_t s" t] by auto
    then show ?thesis by (simp add: hold_def Suc value_at_def elem_at_in)
  qed
  ultimately show ?case by (simp only: resample_loop.simps j Let_def list.map)
qed simp

lemma grid_ascending:
  assumes "start = Fin a" "stop = Fin b" "a \<le> b" "\<bar>a\<bar> \<le> 1000000000000" "\<bar>b\<bar> \<le> 1000000000000" "2 \<le> n"
  shows "sorted_wrt (\<le>) (map (grid_time start stop n) [0..<n])"
proof -
  have "fl (b - a) = Fin (rnd (b - a))" using assms by (intro fl_small) auto
  then have d: "stop - start = Fin (rnd (b - a))" "0 \<le> rnd (b - a)" using assms by (simp_all add: rnd_nonneg)
  have c: "0 < (of_nat n - 1 :: rat)" using assms(6) by simp
  have "grid_time start stop n i \<le> grid_time start stop n j" if "i \<le> j" for i j
    unfolding grid_time_def d(1) unfolding assms(1)
    using that by (intro num_add_left_mono num_divide_mono[OF _ c] num_mult_left_mono[OF d(2)]) simp
  then show ?thesis by (auto simp: sorted_wrt_map intro!: sorted_wrt_mono_rel[OF _ sorted_wrt_upt])
qed

text \<open>The iterations left: the grid points that remain and the samples the index can still pass.\<close>

lemma resample_steps:
  assumes "i \<le> n"
  shows "\<exists>k j'. k \<le> (n - i) + (length (sr_t s) - 1 - j) \<and>
    (resample_step s start stop n ^^ k) (i, j, out) = (n, j', out @ resample_loop s (map (grid_time start stop n) [i..<n]) j)"
  using assms
proof (induction "(n - i) + (length (sr_t s) - 1 - j)" arbitrary: i j out rule: less_induct)
  case less
  let ?step = "resample_step s start stop n" and ?t = "grid_time start stop n i"
  let ?more = "j + 1 < length (sr_t s) \<and> sr_t s ! (j + 1) \<le> ?t"
  show ?case
  proof (cases "i = n")
    case True
    then show ?thesis by (intro exI[of _ 0] exI[of _ j]) simp
  next
    case False
    with less.prems have i: "i < n" by simp
    then have grid: "map (grid_time start stop n) [i..<n] = ?t # map (grid_time start stop n) [Suc i..<n]"
      by (simp add: upt_conv_Cons)
    show ?thesis
    proof (cases ?more)
      case True
      then have step: "?step (i, j, out) = (i, j + 1, out)" using i by simp
      have less_left: "(n - i) + (length (sr_t s) - 1 - (j + 1)) < (n - i) + (length (sr_t s) - 1 - j)" using True by linarith
      obtain k j' where k: "k \<le> (n - i) + (length (sr_t s) - 1 - (j + 1))"
        "(?step ^^ k) (i, j + 1, out) = (n, j', out @ resample_loop s (map (grid_time start stop n) [i..<n]) (j + 1))"
        using less.hyps[OF less_left less.prems, of out] by blast
      have "seek (sr_t s) ?t j = seek (sr_t s) ?t (j + 1)" using True by (subst seek.simps) simp
      then have "resample_loop s (map (grid_time start stop n) [i..<n]) j = resample_loop s (map (grid_time start stop n) [i..<n]) (j + 1)"
        unfolding grid by (simp add: Let_def)
      then have "(?step ^^ Suc k) (i, j, out) = (n, j', out @ resample_loop s (map (grid_time start stop n) [i..<n]) j)"
        using k(2) step by (simp add: funpow_Suc_right del: funpow.simps)
      moreover have "Suc k \<le> (n - i) + (length (sr_t s) - 1 - j)" using k(1) True by linarith
      ultimately show ?thesis by blast
    next
      case False
      then have step: "?step (i, j, out) = (i + 1, j, out @ [hold s ?t j])" using i by (simp add: Let_def)
      have less_left: "(n - (i + 1)) + (length (sr_t s) - 1 - j) < (n - i) + (length (sr_t s) - 1 - j)" "i + 1 \<le> n" using i by linarith+
      obtain k j' where k: "k \<le> (n - (i + 1)) + (length (sr_t s) - 1 - j)"
        "(?step ^^ k) (i + 1, j, out @ [hold s ?t j]) =
         (n, j', (out @ [hold s ?t j]) @ resample_loop s (map (grid_time start stop n) [i + 1..<n]) j)"
        using less.hyps[OF less_left, of "out @ [hold s ?t j]"] by blast
      have "seek (sr_t s) ?t j = j" by (subst seek.simps) (simp only: if_not_P[OF False])
      then have "resample_loop s (map (grid_time start stop n) [i..<n]) j =
        hold s ?t j # resample_loop s (map (grid_time start stop n) [i + 1..<n]) j"
        unfolding grid by (simp add: Let_def)
      then have "(?step ^^ Suc k) (i, j, out) = (n, j', out @ resample_loop s (map (grid_time start stop n) [i..<n]) j)"
        using k(2) step by (simp add: funpow_Suc_right del: funpow.simps)
      moreover have "Suc k \<le> (n - i) + (length (sr_t s) - 1 - j)" using k(1) i by linarith
      ultimately show ?thesis by blast
    qed
  qed
qed

text \<open>
  C25: the loops of \<open>resample\<close> end for every input, in order or not, also with NaN among the times, and the work
  is linear: the two loops together take at most one iteration per grid point and one per sample but the first until the
  counter reaches \<open>n\<close>, and what they have then put out is the result.
\<close>

theorem resample_terminates:
  "\<exists>k j. k \<le> n + (length (sr_t s) - 1) \<and>
     (resample_step s start stop n ^^ k) (0, 0, []) = (n, j, resample s start stop n)"
  using resample_steps[of 0 n s 0 start stop "[]"] by (simp add: resample_def)

text \<open>
  C12: resampling is sample-and-hold: on samples in order of time, each of the \<open>n\<close> grid points gets
  the value of the last sample that is not later than it, and \<open>null\<close> before the first sample.
\<close>

theorem resample_holds_last_value:
  assumes "sorted_wrt (\<le>) (sr_t s)" and "start = Fin a" "stop = Fin b" "a \<le> b"
    and "\<bar>a\<bar> \<le> 1000000000000" "\<bar>b\<bar> \<le> 1000000000000" "2 \<le> n"
  shows "resample s start stop n = map (\<lambda>i. value_at s (grid_time start stop n i)) [0..<n]"
proof -
  have "map (grid_time start stop n) [0..<n] \<noteq> [] \<longrightarrow> 0 \<le> up_to (sr_t s) (hd (map (grid_time start stop n) [0..<n])) - 1"
    by simp
  from resample_loop_values[OF assms(1) grid_ascending[OF assms(2-7)] this]
  show ?thesis by (simp add: resample_def)
qed

section \<open>Properties of sparklines\<close>

lemma spark_loop_strokes:
  "spark_loop hgt step r k started vs =
     map (\<lambda>i. (if (if i = 0 then started else vs ! (i - 1) \<noteq> None) then Line else Move)
                (Fin (of_nat (k + i)) * step) (spark_y hgt r (the (vs ! i))))
       (filter (\<lambda>i. vs ! i \<noteq> None) [0..<length vs])"
proof (induction vs arbitrary: k started)
  case (Cons v vs)
  have upt: "[0..<length (v # vs)] = 0 # map Suc [0..<length vs]"
    by (simp add: map_Suc_upt upt_conv_Cons del: upt_Suc)
  show ?case
    unfolding upt
    by (cases v) (auto simp: Cons.IH filter_map comp_def add_ac intro!: map_cong)
qed simp

text \<open>
  A sparkline draws every known value once, in order, at the abscissa of its index, and joins
  it to its predecessor exactly when the value just before it is known too.
\<close>

theorem sparkline_strokes:
  assumes "2 \<le> length (List.map_filter id vs)"
  shows "spark_strokes w hgt vs =
    map (\<lambda>i. (if 0 < i \<and> vs ! (i - 1) \<noteq> None then Line else Move)
               (Fin (of_nat i) * (w / Fin (of_nat (length vs) - 1)))
               (spark_y hgt (spark_range (List.map_filter id vs)) (the (vs ! i))))
      (filter (\<lambda>i. vs ! i \<noteq> None) [0..<length vs])"
  using assms by (auto simp: spark_strokes_def Let_def spark_loop_strokes intro!: map_cong)

lemma past_floor:
  assumes "\<bar>a\<bar> \<le> 1000000"
  shows "a < rnd (a + 1) \<and> rnd (a - 1) < a \<and> \<bar>rnd (a + 1)\<bar> \<le> 1000001 \<and> \<bar>rnd (a - 1)\<bar> \<le> 1000001"
proof -
  define n where "n = \<lfloor>a\<rfloor>"
  define m where "m = \<lceil>a\<rceil>"
  have n: "of_int n \<le> a" "a < of_int n + 1" and m: "a \<le> of_int m" "of_int m < a + 1"
    unfolding n_def m_def by linarith+
  have "of_int n \<le> (of_int 1000000 :: rat)" "of_int (- 1000001) \<le> (of_int n :: rat)"
    "of_int m \<le> (of_int 1000001 :: rat)" "of_int (- 1000000) \<le> (of_int m :: rat)"
    using assms n m by auto
  then have "\<bar>n + 1\<bar> \<le> 2 ^ 53" "\<bar>m - 1\<bar> \<le> 2 ^ 53" by (simp_all only: of_int_le_iff) auto
  then have "of_int n + 1 \<le> rnd (a + 1)" "rnd (a - 1) \<le> of_int m - 1"
    using dbl.r_ge[of "of_int (n + 1)" "a + 1"] dbl.r_le[of "a - 1" "of_int (m - 1)"] n m
      rnd_of_int[of "n + 1"] rnd_of_int[of "m - 1"] by auto
  moreover have "\<bar>rnd (a + 1)\<bar> \<le> 1000001" "\<bar>rnd (a - 1)\<bar> \<le> 1000001"
    using assms by (intro dbl.r_abs_le; auto)+
  ultimately show ?thesis using n m by simp
qed

text \<open>The range of a sparkline is proper and holds every value.\<close>

lemma spark_range_proper:
  assumes "pts \<noteq> []" "\<forall>v\<in>set pts. bounded 1000000 v"
  obtains a b where "spark_range pts = (Fin a, Fin b)" "a < b" "rnd a = a" "rnd b = b"
    "\<bar>a\<bar> \<le> 1000001" "\<bar>b\<bar> \<le> 1000001" "\<forall>v\<in>set pts. Fin a \<le> v \<and> v \<le> Fin b"
proof -
  have mem: "jmins pts \<in> set pts" "jmaxs pts \<in> set pts"
    and all: "\<forall>v\<in>set pts. jmins pts \<le> v \<and> v \<le> jmaxs pts"
    using jmins_bounded[OF assms] jmaxs_bounded[OF assms] by auto
  obtain a where a: "jmins pts = Fin a" "\<bar>a\<bar> \<le> 1000000" "rnd a = a" using mem assms(2) by (auto elim: boundedE)
  obtain b where b: "jmaxs pts = Fin b" "\<bar>b\<bar> \<le> 1000000" "rnd b = b" using mem assms(2) by (auto elim: boundedE)
  have f: "fl (a - 1) = Fin (rnd (a - 1))" "fl (b + 1) = Fin (rnd (b + 1))" "fl (b - a) = Fin (rnd (b - a))"
    using a b by (auto intro!: fl_small)
  note P = past_floor[OF a(2)] past_floor[OF b(2)]
  have ab: "a \<le> b" using all mem(1) a b by auto
  have tiny: "fl (1 / 1000000000) = Fin (rnd (1 / 1000000000))" by (rule fl_small) simp
  show thesis
  proof (cases "jmaxs pts - jmins pts < fl (1 / 1000000000)")
    case True
    then have "spark_range pts = (Fin (rnd (a - 1)), Fin (rnd (b + 1)))"
      by (simp add: spark_range_def a b f one_jsnum_def)
    moreover have "\<forall>v\<in>set pts. Fin (rnd (a - 1)) \<le> v \<and> v \<le> Fin (rnd (b + 1))"
    proof
      fix v assume "v \<in> set pts"
      with all a b have "Fin a \<le> v" "v \<le> Fin b" by auto
      moreover have "Fin (rnd (a - 1)) \<le> Fin a" "Fin b \<le> Fin (rnd (b + 1))" using P by auto
      ultimately show "Fin (rnd (a - 1)) \<le> v \<and> v \<le> Fin (rnd (b + 1))" by (blast intro: num_le_trans)
    qed
    ultimately show thesis using P ab that[of "rnd (a - 1)" "rnd (b + 1)"] by auto
  next
    case False
    then have R: "spark_range pts = (Fin a, Fin b)" by (simp add: spark_range_def a b)
    have "0 < rnd (1 / 1000000000 :: rat)"
      using rnd_diff_pos[of 0 "1 / 1024 / 1024 / 1024"] dbl.r_mono[of "1 / 1024 / 1024 / 1024" "1 / 1000000000"]
        rnd_dyadic[of "1 / 1024 / 1024 / 1024" 30 1] by simp
    with False have "0 < rnd (b - a)" by (simp add: a b f tiny)
    then have "a < b" using dbl.r_le_0[of "b - a"] by (cases "a < b") auto
    with R a b all that[of a b] show thesis by auto
  qed
qed

text \<open>
  With values of ordinary size, every point of a sparkline of the default height of 42 lies
  between the ordinates 5 and 39: the line never leaves its box, even when all values are equal.
\<close>

theorem sparkline_in_box:
  assumes "v \<in> set pts" "\<forall>v\<in>set pts. bounded 1000000 v"
  shows "Fin 5 \<le> spark_y (Fin 42) (spark_range pts) v \<and> spark_y (Fin 42) (spark_range pts) v \<le> Fin 39"
proof -
  obtain a b where R: "spark_range pts = (Fin a, Fin b)" "a < b" "rnd a = a" "rnd b = b"
    "\<bar>a\<bar> \<le> 1000001" "\<bar>b\<bar> \<le> 1000001" and all: "\<forall>v\<in>set pts. Fin a \<le> v \<and> v \<le> Fin b"
    using assms spark_range_proper[of pts] by (metis empty_iff empty_set)
  obtain x where x: "v = Fin x" using assms by (auto elim: boundedE)
  with all assms(1) have ax: "a \<le> x" "x \<le> b" by auto
  define t where "t = rnd (rnd (x - a) / rnd (b - a))"
  have pos: "0 < rnd (b - a)" using R by (intro rnd_diff_pos)
  have t: "0 \<le> t" "t \<le> 1" using dbl.r_ratio[OF ax R(2) pos] by (auto simp: t_def)
  have "0 \<le> rnd (x - a)" "rnd (x - a) \<le> rnd (b - a)" using ax by (auto intro: rnd_nonneg rnd_mono)
  with pos have q: "0 \<le> rnd (x - a) / rnd (b - a)" "rnd (x - a) / rnd (b - a) \<le> 1"
    by (simp_all add: pos_divide_le_eq)
  have f: "fl (x - a) = Fin (rnd (x - a))" "fl (b - a) = Fin (rnd (b - a))"
    "fl (rnd (x - a) / rnd (b - a)) = Fin t" "fl (t * 34) = Fin (rnd (t * 34))"
    using R ax q t unfolding t_def by (intro fl_small; simp)+
  have p: "0 \<le> rnd (t * 34)" "rnd (t * 34) \<le> 34"
    using t dbl.r_scale(1)[of t 34] by auto
  then have "fl (39 - rnd (t * 34)) = Fin (rnd (39 - rnd (t * 34)))" by (intro fl_small) simp
  then have "spark_y (Fin 42) (spark_range pts) v = Fin (rnd (39 - rnd (t * 34)))"
    using pos by (simp add: spark_y_def R x f)
  moreover have "5 \<le> rnd (39 - rnd (t * 34))" "rnd (39 - rnd (t * 34)) \<le> 39"
    using p by (auto intro!: dbl.r_ge dbl.r_le)
  ultimately show ?thesis by simp
qed

section \<open>The properties at sample tables\<close>

definition sample_times :: "jsnum list" where
  "sample_times = [Fin 0, Fin 60, Fin 120, Fin 6000]"

definition sample_series :: series where
  "sample_series = \<lparr> sr_t = sample_times, sr_v = [Some (Fin 1), None, Some (Fin 3), Some (Fin 4)],
     sr_min = [], sr_max = [], sr_text = [] \<rparr>"

theorem gaps_break_lines_witness:
  "known_samples (zip (fst (with_gaps sample_times (sr_v sample_series) (Fin 1200)))
     (snd (with_gaps sample_times (sr_v sample_series) (Fin 1200)))) = [(Fin 0, Some (Fin 1)), (Fin 120, Some (Fin 3)), (Fin 6000, Some (Fin 4))]"
  using gaps_break_lines[OF prod.collapse, of sample_times "sr_v sample_series" "Fin 1200"]
  by (simp add: sample_times_def sample_series_def)

theorem gaps_ascending_witness:
  "sorted_wrt (\<le>) (fst (with_gaps sample_times (sr_v sample_series) (Fin 1200)))"
  by (rule gaps_ascending) (simp_all add: sample_times_def)

theorem resample_holds_last_value_witness:
  "resample sample_series (Fin 0) (Fin 6000) 3
   = map (\<lambda>i. value_at sample_series (grid_time (Fin 0) (Fin 6000) 3 i)) [0..<3]"
  by (rule resample_holds_last_value[OF _ refl refl]) (simp_all add: sample_series_def sample_times_def)

theorem sparkline_strokes_witness:
  "length (spark_strokes (Fin 200) (Fin 42) (sr_v sample_series)) = 3"
  by (subst sparkline_strokes) (simp_all add: sample_series_def map_filter_simps upt_rec)

theorem sparkline_in_box_witness:
  "Fin 5 \<le> spark_y (Fin 42) (spark_range [Fin 7, Fin 7]) (Fin 7)
   \<and> spark_y (Fin 42) (spark_range [Fin 7, Fin 7]) (Fin 7) \<le> Fin 39"
  by (rule sparkline_in_box) simp_all

end
