(* ===== verification/BarChart.thy ===== *)
theory BarChart
  imports Gaps
begin

text \<open>
  The grouped bar chart of \<open>charts.js\<close>: \<open>niceMax\<close>, the geometry, and the SVG text. \<open>log10\<close> and
  \<open>pow10\<close> stand for \<open>Math.log10\<close> and \<open>Math.pow(10, k)\<close>, which ECMAScript only requires to
  approximate the mathematical functions; the lemmas assume how closely (\<open>decade_close\<close>).
\<close>

section \<open>A round upper end of the scale\<close>

definition nice_factor :: "jsnum \<Rightarrow> jsnum" where
  "nice_factor f =
     (if f \<le> Fin 1 then Fin 1 else if f \<le> Fin 2 then Fin 2 else if f \<le> Fin (5/2) then Fin (5/2)
      else if f \<le> Fin 5 then Fin 5 else Fin 10)"

definition nice_max :: "(jsnum \<Rightarrow> jsnum) \<Rightarrow> (jsnum \<Rightarrow> jsnum) \<Rightarrow> jsnum \<Rightarrow> jsnum" where
  "nice_max log10 pow10 v =
     (let e = pow10 (jfloor (log10 v)); f = v / e in nice_factor f * e)"

section \<open>Geometry\<close>

record bar_series =
  bs_label :: string
  bs_color :: string

record bar_group =
  bg_label :: string
  bg_title :: "string option"
  bg_values :: "jsnum option list"
  bg_extra :: string

text \<open>The computed sizes of a chart; the padding is 52, 4, 8 and 26 on the left, right, top and bottom.\<close>

record bar_frame =
  bf_width :: jsnum
  bf_height :: jsnum
  bf_inner_w :: jsnum
  bf_inner_h :: jsnum
  bf_nice :: jsnum
  bf_gw :: jsnum
  bf_bw :: jsnum
  bf_label_every :: nat

definition bar_max :: "bar_group list \<Rightarrow> jsnum" where
  "bar_max groups = jmaxs (fl (1/1000) # concat (map (\<lambda>g. map nz (bg_values g)) groups))"

definition label_every :: "nat \<Rightarrow> jsnum \<Rightarrow> nat" where
  "label_every n inner_w =
     (case jceil (Fin (of_nat n) / jmax (Fin 1) (jfloor (inner_w / Fin 54))) of Fin k \<Rightarrow> nat \<lfloor>k\<rfloor> | _ \<Rightarrow> 0)"

definition bar_frame ::
  "(jsnum \<Rightarrow> jsnum) \<Rightarrow> (jsnum \<Rightarrow> jsnum) \<Rightarrow> jsnum \<Rightarrow> jsnum \<Rightarrow> bar_series list \<Rightarrow> bar_group list \<Rightarrow> bar_frame" where
  "bar_frame log10 pow10 client_width height series groups =
     (let width = jmax (Fin 300) (num_or (Some client_width) (Fin 600));
          inner_w = width - Fin 52 - Fin 4;
          inner_h = height - Fin 8 - Fin 26;
          m = Fin (of_nat (length series));
          gw = inner_w / jmax (Fin 1) (Fin (of_nat (length groups)))
      in \<lparr> bf_width = width, bf_height = height, bf_inner_w = inner_w, bf_inner_h = inner_h,
           bf_nice = nice_max log10 pow10 (bar_max groups), bf_gw = gw,
           bf_bw = jmax (Fin 3) (jmin (Fin 28) ((gw * fl (72/100) - (m - Fin 1) * Fin 2) / m)),
           bf_label_every = label_every (length groups) inner_w \<rparr>)"

definition bar_y :: "bar_frame \<Rightarrow> jsnum \<Rightarrow> jsnum" where
  "bar_y fr v = Fin 8 + bf_inner_h fr - (v / bf_nice fr) * bf_inner_h fr"

definition bar_group_x :: "bar_frame \<Rightarrow> nat \<Rightarrow> nat \<Rightarrow> jsnum" where
  "bar_group_x fr m gi =
     (let n = Fin (of_nat m) in
      Fin 52 + Fin (of_nat gi) * bf_gw fr + (bf_gw fr - (bf_bw fr * n + Fin 2 * (n - Fin 1))) / Fin 2)"

text \<open>Left edge, top, height and corner radius of a bar; no bar for \<open>null\<close> and for values up to 0.\<close>

definition bar_shape :: "bar_frame \<Rightarrow> jsnum \<Rightarrow> nat \<Rightarrow> jsnum option \<Rightarrow> (jsnum \<times> jsnum \<times> jsnum \<times> jsnum) option" where
  "bar_shape fr gx si ov =
     (case ov of
        None \<Rightarrow> None
      | Some v \<Rightarrow>
          if v \<le> Fin 0 then None
          else (let x = gx + Fin (of_nat si) * (bf_bw fr + Fin 2);
                    y0 = bar_y fr v;
                    hgt = jmax (Fin 1) (Fin 8 + bf_inner_h fr - y0);
                    r = jmin (jmin (Fin 4) (bf_bw fr / Fin 2)) hgt
                in Some (x, y0, hgt, r)))"

section \<open>SVG\<close>

definition bar_path :: "bar_frame \<Rightarrow> string \<Rightarrow> jsnum \<times> jsnum \<times> jsnum \<times> jsnum \<Rightarrow> string" where
  \<open>bar_path fr color shape =
     (case shape of (x, y0, hgt, r) \<Rightarrow>
        ''<path d="M'' @ number_text x @ '','' @ number_text (y0 + hgt) @ '' V'' @ number_text (y0 + r) @
        '' q0,-'' @ number_text r @ '' '' @ number_text r @ '',-'' @ number_text r @ '' H'' @
        number_text (x + bf_bw fr - r) @ '' q'' @ number_text r @ '',0 '' @ number_text r @ '','' @ number_text r @
        '' V'' @ number_text (y0 + hgt) @ '' Z" fill="var('' @ color @ '')"/>'')\<close>

definition bar_group_svg :: "bar_frame \<Rightarrow> bar_series list \<Rightarrow> nat \<Rightarrow> bar_group \<Rightarrow> string" where
  \<open>bar_group_svg fr series gi g =
     (let gx = bar_group_x fr (length series) gi;
          left = Fin 52 + Fin (of_nat gi) * bf_gw fr
      in ''<g class="bar-group" data-i="'' @ number_text (Fin (of_nat gi)) @ ''"><rect x="'' @ number_text left @
         ''" y="8" width="'' @ number_text (bf_gw fr) @ ''" height="'' @ number_text (bf_inner_h fr) @
         ''" fill="transparent"/>'' @
         concat (map (\<lambda>si. case bar_shape fr gx si (bg_values g ! si) of
                             None \<Rightarrow> [] | Some sh \<Rightarrow> bar_path fr (bs_color (series ! si)) sh)
                  [0..<length (bg_values g)]) @
         (if gi mod bf_label_every fr = 0 then
            ''<text x="'' @ number_text (left + bf_gw fr / Fin 2) @ ''" y="'' @ number_text (bf_height fr - Fin 8) @
            ''" text-anchor="middle" font-size="11" fill="var(--axis)">'' @ esc (Some (bg_label g)) @ ''</text>''
          else []) @ ''</g>'')\<close>

definition tick_svg :: "(jsnum \<Rightarrow> string) \<Rightarrow> string \<Rightarrow> bar_frame \<Rightarrow> jsnum \<Rightarrow> string" where
  \<open>tick_svg format unit_label fr t =
     ''<line x1="52" x2="'' @ number_text (bf_width fr - Fin 4) @ ''" y1="'' @ number_text (bar_y fr t) @
     ''" y2="'' @ number_text (bar_y fr t) @ ''" stroke="var(--grid)"/>'' @
     ''<text x="44" y="'' @ number_text (bar_y fr t + Fin 4) @
     ''" text-anchor="end" font-size="11" fill="var(--axis)">'' @ format t @
     (if unit_label \<noteq> [] then '' '' @ unit_label else []) @ ''</text>''\<close>

definition bar_legend :: "bar_series list \<Rightarrow> string" where
  \<open>bar_legend series =
     (if 1 < length series then
        ''<div class="legend">'' @
        concat (map (\<lambda>s. ''<span><i style="background:var('' @ bs_color s @
                         '');height:8px;width:8px;border-radius:2px"></i>'' @ esc (Some (bs_label s)) @ ''</span>'') series) @
        ''</div>'' else [])\<close>

definition bar_chart :: "(jsnum \<Rightarrow> string) \<Rightarrow> string \<Rightarrow> bar_frame \<Rightarrow> bar_series list \<Rightarrow> bar_group list \<Rightarrow> string" where
  \<open>bar_chart format unit_label fr series groups =
     (let w = number_text (bf_width fr); hh = number_text (bf_height fr)
      in bar_legend series @ ''<div style="position:relative"><svg width="'' @ w @ ''" height="'' @ hh @
         ''" viewBox="0 0 '' @ w @ '' '' @ hh @ ''" role="img" aria-label="bar chart">'' @
         concat (map (\<lambda>f. tick_svg format unit_label fr (Fin f * bf_nice fr)) [0, 1/4, 1/2, 3/4, 1]) @
         concat (map (\<lambda>gi. bar_group_svg fr series gi (groups ! gi)) [0..<length groups]) @
         ''</svg><div class="tooltip" hidden></div></div>'')\<close>

text \<open>The tooltip of a group.\<close>

definition bar_tip :: "(jsnum \<Rightarrow> string) \<Rightarrow> string \<Rightarrow> bar_series list \<Rightarrow> bar_group \<Rightarrow> string" where
  \<open>bar_tip format unit_label series g =
     ''<div class="t">'' @
     esc (Some (case bg_title g of Some t \<Rightarrow> if t = [] then bg_label g else t | None \<Rightarrow> bg_label g)) @ ''</div>'' @
     concat (map (\<lambda>si. ''<div class="r"><span><i style="background:var('' @ bs_color (series ! si) @ '')"></i>'' @
                      esc (Some (bs_label (series ! si))) @ ''</span><b>'' @
                      (case at_null (bg_values g) si of None \<Rightarrow> endash | Some v \<Rightarrow> format v) @ '' '' @
                      esc (Some unit_label) @ ''</b></div>'') [0..<length series]) @ bg_extra g\<close>

section \<open>Lemmas\<close>

text \<open>
  How close the two library functions have to come: the decade \<open>floor (log10 v)\<close> may be missed only
  within a factor 1.0001 of a power of ten, and that power is a double within one part in 10^6.
\<close>

definition decade_close :: "(jsnum \<Rightarrow> jsnum) \<Rightarrow> (jsnum \<Rightarrow> jsnum) \<Rightarrow> rat \<Rightarrow> bool" where
  "decade_close log10 pow10 v \<longleftrightarrow>
     (\<exists>k e. jfloor (log10 (Fin v)) = Fin (of_int k) \<and> pow10 (Fin (of_int k)) = Fin e \<and>
        v \<le> 10001/10000 * (10 * 10 powi k) \<and> 10 powi k \<le> 10001/10000 * v \<and>
        999999/1000000 * 10 powi k \<le> e \<and> e \<le> 1000001/1000000 * 10 powi k)"

lemma nice_factor_spec:
  "\<exists>n. nice_factor (Fin f) = Fin n \<and> n \<in> {1, 2, 5/2, 5, 10} \<and> (f \<le> n \<or> n = 10)"
  by (rule exI[of _ "if f \<le> 1 then 1 else if f \<le> 2 then 2 else if f \<le> 5/2 then 5/2 else if f \<le> 5 then 5 else 10"])
    (simp add: nice_factor_def)

lemma nice_max_bounds:
  assumes close: "decade_close log10 pow10 v" and v: "1/2000 \<le> v" "v \<le> 1000000000"
  obtains N where "nice_max log10 pow10 (Fin v) = Fin N" "0 < N" "v \<le> 513/512 * N"
proof -
  from close obtain k e where ke: "jfloor (log10 (Fin v)) = Fin (of_int k)" "pow10 (Fin (of_int k)) = Fin e"
    and K: "v \<le> 10001/10000 * (10 * 10 powi k)" "10 powi k \<le> 10001/10000 * v"
    and E: "999999/1000000 * 10 powi k \<le> e" "e \<le> 1000001/1000000 * 10 powi k"
    by (auto simp: decade_close_def)
  have e_v: "e \<le> 2 * v" "v \<le> 10002/1000 * e" using K E by linarith+
  have e_pos: "1/40000 \<le> e" "e \<le> 2000000000" using e_v v by linarith+
  define f where "f = v / e"
  have f: "0 < f" "f \<le> 11" "1/2 \<le> f" using e_v e_pos v by (simp_all add: f_def divide_le_eq le_divide_eq)
  have F: "Fin v / Fin e = Fin (rnd f)" using e_pos f by (simp add: f_def[symmetric] fl_small)
  obtain n where n: "nice_factor (Fin (rnd f)) = Fin n" "n \<in> {1, 2, 5/2, 5, 10}" "rnd f \<le> n \<or> n = 10"
    using nice_factor_spec[of "rnd f"] by auto
  have n_range: "1 \<le> n" "n \<le> 10" using n(2) by auto
  have fr: "f * (999999/1000000) \<le> rnd f" using rnd_close[of f] f by simp
  have fn: "f \<le> 10003/10000 * n"
  proof (cases "n = 10")
    case True
    then show ?thesis using e_v(2) e_pos by (simp add: f_def divide_le_eq)
  next
    case False
    with n(3) have "rnd f \<le> n" by simp
    with fr n_range show ?thesis by linarith
  qed
  have ne: "1/40000 \<le> n * e" "n * e \<le> 20000000000"
    using n_range e_pos mult_mono[of 1 n "1/40000" e] mult_mono[of n 10 e 2000000000] by auto
  then have "Fin n * Fin e = Fin (rnd (n * e))" by (simp add: fl_small)
  then have N: "nice_max log10 pow10 (Fin v) = Fin (rnd (n * e))"
    by (simp only: nice_max_def ke F n Let_def)
  have c: "999999/1000000 * (n * e) \<le> rnd (n * e)" using rnd_close[of "n * e"] ne by (simp add: mult.commute)
  have "v = f * e" using e_pos by (simp add: f_def)
  also have "\<dots> \<le> 10003/10000 * n * e" using fn e_pos by (intro mult_right_mono) auto
  finally have "v \<le> 10003/10000 * (n * e)" by simp
  moreover have "v \<le> 513/512 * z" "0 < z"
    if "v \<le> 10003/10000 * y" "999999/1000000 * y \<le> z" "1/40000 \<le> y" for y z :: rat
    using that by linarith+
  ultimately have "v \<le> 513/512 * rnd (n * e)" "0 < rnd (n * e)" using c ne(1) by blast+
  then show thesis using N that by blast
qed

lemma nice_factor_cases: "nice_factor f \<in> {Fin 1, Fin 2, Fin (5/2), Fin 5, Fin 10}"
  by (simp add: nice_factor_def)

lemma foldl_jmax_ge: "foldl jmax a xs = z \<Longrightarrow> z \<noteq> NaN \<Longrightarrow> x \<in> insert a (set xs) \<Longrightarrow> x \<le> z"
proof (induction xs arbitrary: a x)
  case (Cons y ys)
  have le: "jmax a y \<le> z" using Cons.IH[of "jmax a y" "jmax a y"] Cons.prems by simp
  moreover have "jmax a y \<noteq> NaN" using le num_le_not_NaN by blast
  ultimately have "a \<le> z" "y \<le> z" using jmax_ge[OF refl, of a y] by (blast intro: num_le_trans)+
  then show ?case using Cons.IH[of "jmax a y" x] Cons.prems by auto
qed (simp add: num_le_refl)

lemma jmaxs_ge: "jmaxs xs = Fin m \<Longrightarrow> x \<in> set xs \<Longrightarrow> x \<le> Fin m"
  unfolding jmaxs_def by (rule foldl_jmax_ge[of NInf xs]) auto

text \<open>The maximum is taken over every value of every group, and the small positive number that keeps the scale from vanishing.\<close>

lemma bar_max_ge:
  assumes "bar_max groups = Fin m"
  shows "fl (1/1000) \<le> Fin m" "g \<in> set groups \<Longrightarrow> Some x \<in> set (bg_values g) \<Longrightarrow> x \<le> Fin m"
proof -
  note ge = jmaxs_ge[OF assms[unfolded bar_max_def]]
  show "fl (1/1000) \<le> Fin m" by (rule ge) simp
  assume "g \<in> set groups" "Some x \<in> set (bg_values g)"
  then have "x \<in> set (concat (map (\<lambda>g. map nz (bg_values g)) groups))" by (force intro: image_eqI[of _ nz "Some x"])
  then show "x \<le> Fin m" by (intro ge) simp
qed

section \<open>Properties\<close>

text \<open>
  C29: no bar leaves the picture: for every chart of a height from 50 to 340 pixels, whatever its groups and series, the
  top of the bar of each positive value of each group lies between 7 (one pixel into the upper padding) and the base line.
\<close>

theorem bars_inside:
  assumes fr: "fr = bar_frame log10 pow10 client_width (Fin (of_int hh)) series groups"
    and hh: "50 \<le> hh" "hh \<le> 340"
    and close: "bar_max groups = Fin m" "decade_close log10 pow10 m" "m \<le> 1000000000"
    and v: "0 < v" "g \<in> set groups" "Some (Fin v) \<in> set (bg_values g)"
  shows "Fin 7 \<le> bar_y fr (Fin v) \<and> bar_y fr (Fin v) \<le> Fin (of_int (hh - 26))"
proof -
  have "fl (1/1000) \<le> Fin m" using bar_max_ge(1)[OF close(1)] .
  then have m: "1/2000 \<le> m" using rnd_close[of "1/1000"] by (simp add: fl_small)
  obtain N where N: "nice_max log10 pow10 (Fin m) = Fin N" "0 < N" "m \<le> 513/512 * N"
    using nice_max_bounds[OF close(2) m close(3)] by blast
  define H :: rat where "H = of_int (hh - 34)"
  have H: "16 \<le> H" "H \<le> 306" using hh by (simp_all add: H_def)
  have ints: "fl (of_int hh - 8) = Fin (of_int (hh - 8))" "fl (of_int (hh - 8) - 26) = Fin H"
    "fl (8 + H) = Fin (8 + H)"
    using fl_of_int[of "hh - 8"] fl_of_int[of "hh - 34"] fl_of_int[of "hh - 26"] hh by (simp_all add: H_def)
  then have inner: "bf_inner_h fr = Fin H" "bf_nice fr = Fin N"
    using N(1) by (simp_all add: fr bar_frame_def Let_def close(1))
  have "v \<le> m" using bar_max_ge(2)[OF close(1) v(2,3)] by simp
  then have q: "0 \<le> v / N" "v / N \<le> 513/512" using v(1) N by (simp_all add: divide_le_eq)
  have dyadic: "rnd (513/512) = 513/512" by (rule rnd_dyadic[of _ 9 513]) simp_all
  define r where "r = rnd (v / N)"
  have r: "0 \<le> r" "r \<le> 513/512"
    using rnd_nonneg[OF q(1)] dbl.r_le[OF q(2) dyadic] by (simp_all only: r_def)
  have "r * H \<le> 513/512 * H" using r H by (intro mult_right_mono) auto
  also have "\<dots> \<le> H + 1" using H by linarith
  finally have rH: "0 \<le> r * H" "r * H \<le> H + 1" using r H by auto
  have "rnd (H + 1) = H + 1" using rnd_of_int[of "hh - 33"] hh by (simp add: H_def)
  then have p: "0 \<le> rnd (r * H)" "rnd (r * H) \<le> H + 1" using rH by (auto intro: rnd_nonneg dbl.r_le)
  have "(1000::rat) \<le> 2 ^ 100" by simp
  then have "\<bar>v / N\<bar> \<le> 2 ^ 100" "\<bar>r * H\<bar> \<le> 2 ^ 100" using q rH H unfolding abs_of_nonneg[OF q(1)] abs_of_nonneg[OF rH(1)] by linarith+
  then have f: "fl (v / N) = Fin r" "fl (r * H) = Fin (rnd (r * H))"
    by (simp_all only: fl_small r_def)
  have b: "rat_of_int (hh - 26) = 8 + H" by (simp add: H_def)
  have "fl (8 + H - rnd (r * H)) = Fin (rnd (8 + H - rnd (r * H)))" using p H by (intro fl_small) simp
  then have y: "bar_y fr (Fin v) = Fin (rnd (8 + H - rnd (r * H)))"
    using N(2) by (simp add: bar_y_def inner f ints(3))
  have "7 \<le> rnd (8 + H - rnd (r * H))" using p by (intro dbl.r_ge) auto
  moreover have "rnd (8 + H - rnd (r * H)) \<le> 8 + H"
    using p rnd_of_int[of "hh - 26"] hh unfolding b by (intro dbl.r_le) auto
  ultimately show ?thesis unfolding y b by simp
qed

section \<open>The properties at a sample chart\<close>

definition sample_groups :: "bar_group list" where
  "sample_groups = [\<lparr> bg_label = ''Mon'', bg_title = None, bg_values = [Some (Fin 8), None], bg_extra = [] \<rparr>,
     \<lparr> bg_label = ''Tue'', bg_title = None, bg_values = [Some (Fin 12), Some (Fin 37)], bg_extra = [] \<rparr>]"

definition sample_bar_series :: "bar_series list" where
  "sample_bar_series = [\<lparr> bs_label = ''Used'', bs_color = ''--s1'' \<rparr>, \<lparr> bs_label = ''Heat'', bs_color = ''--s2'' \<rparr>]"

lemma sample_bar_max: "bar_max sample_groups = Fin 37"
proof -
  have "fl (1/1000) = Fin (rnd (1/1000))" by (rule fl_small) simp
  moreover have "rnd (1/1000) \<le> 8" by (rule dbl.r_le) simp_all
  ultimately show ?thesis by (simp add: bar_max_def sample_groups_def jmaxs_def jmax_def zero_jsnum_def)
qed

theorem bars_inside_witness:
  "Fin 7 \<le> bar_y (bar_frame (\<lambda>_. Fin 1) (\<lambda>_. Fin 10) (Fin 800) (Fin (of_int 280)) sample_bar_series sample_groups) (Fin 12)"
proof -
  have "decade_close (\<lambda>_. Fin 1) (\<lambda>_. Fin 10) 37"
    unfolding decade_close_def by (intro exI[of _ 1] exI[of _ 10]) simp
  from bars_inside[OF refl _ _ sample_bar_max this, of 280 12 "sample_groups ! 1"]
  show ?thesis by (simp add: sample_groups_def)
qed

end
