(* ===== verification/Calendar.thy ===== *)
theory Calendar
  imports Main Prelude
begin

text \<open>
  JavaScript's \<open>Date\<close> objects, as far as \<open>views/energy.js\<close> and \<open>views/overview.js\<close> use them: time
  values are integers (milliseconds since 1970), days and months follow the definitions of the
  ECMAScript standard (\<open>Day\<close>, \<open>DayFromYear\<close>, \<open>YearFromTime\<close>, \<open>MonthFromTime\<close>, \<open>MakeDay\<close>). \<open>local_time\<close> and
  \<open>utc\<close> are its \<open>LocalTime\<close> and \<open>UTC\<close>, which depend on the time zone of the browser: the setters
  read the local fields, change one, and convert back.
\<close>

section \<open>Days, years and months\<close>

definition ms_per_day :: int where
  "ms_per_day = 86400000"

definition day_from_year :: "int \<Rightarrow> int" where
  "day_from_year y = 365 * (y - 1970) + (y - 1969) div 4 - (y - 1901) div 100 + (y - 1601) div 400"

definition leap :: "int \<Rightarrow> bool" where
  "leap y = (y mod 4 = 0 \<and> (y mod 100 \<noteq> 0 \<or> y mod 400 = 0))"

text \<open>The days of a year before its month \<open>m\<close> (January is 0; 12 gives the length of the year).\<close>

definition days_before :: "bool \<Rightarrow> int \<Rightarrow> int" where
  "days_before l m =
     (if m \<le> 0 then 0 else if m = 1 then 31
      else (if l then 1 else 0) +
        (if m = 2 then 59 else if m = 3 then 90 else if m = 4 then 120 else if m = 5 then 151
         else if m = 6 then 181 else if m = 7 then 212 else if m = 8 then 243 else if m = 9 then 273
         else if m = 10 then 304 else if m = 11 then 334 else 365))"

text \<open>The year of a day: an estimate from the mean length of a year, off by one at most.\<close>

definition year_of_day :: "int \<Rightarrow> int" where
  "year_of_day d =
     (let y = 1970 + (400 * d) div 146097
      in if d < day_from_year y then y - 1 else if day_from_year (y + 1) \<le> d then y + 1 else y)"

definition month_in_year :: "bool \<Rightarrow> int \<Rightarrow> int" where
  "month_in_year l n = int (length (takeWhile (\<lambda>m. days_before l m \<le> n) [1..11]))"

definition month_of_day :: "int \<Rightarrow> int" where
  "month_of_day d = (let y = year_of_day d in month_in_year (leap y) (d - day_from_year y))"

definition date_of_day :: "int \<Rightarrow> int" where
  "date_of_day d = (let y = year_of_day d in d - day_from_year y - days_before (leap y) (month_of_day d) + 1)"

definition make_day :: "int \<Rightarrow> int \<Rightarrow> int \<Rightarrow> int" where
  "make_day y m dt =
     (let ym = y + m div 12; mn = m mod 12 in day_from_year ym + days_before (leap ym) mn + dt - 1)"

section \<open>Date objects\<close>

record zone =
  local_time :: "int \<Rightarrow> int"
  utc :: "int \<Rightarrow> int"

definition day :: "int \<Rightarrow> int" where
  "day t = t div ms_per_day"

definition time_within_day :: "int \<Rightarrow> int" where
  "time_within_day t = t mod ms_per_day"

definition get_date :: "zone \<Rightarrow> int \<Rightarrow> int" where
  "get_date z t = date_of_day (day (local_time z t))"

definition get_month :: "zone \<Rightarrow> int \<Rightarrow> int" where
  "get_month z t = month_of_day (day (local_time z t))"

text \<open>\<open>setHours(0, 0, 0, 0)\<close>, \<open>setDate\<close> and \<open>setMonth\<close>.\<close>

definition set_midnight :: "zone \<Rightarrow> int \<Rightarrow> int" where
  "set_midnight z t = utc z (day (local_time z t) * ms_per_day)"

definition set_date :: "zone \<Rightarrow> int \<Rightarrow> int \<Rightarrow> int" where
  "set_date z n t =
     (let lt = local_time z t; d = day lt
      in utc z (make_day (year_of_day d) (month_of_day d) n * ms_per_day + time_within_day lt))"

definition set_month :: "zone \<Rightarrow> int \<Rightarrow> int \<Rightarrow> int" where
  "set_month z m t =
     (let lt = local_time z t; d = day lt
      in utc z (make_day (year_of_day d) m (date_of_day d) * ms_per_day + time_within_day lt))"

section \<open>The calendar is consistent\<close>

lemma int_div_bounds: "0 < n \<Longrightarrow> n * (x div n) \<le> x \<and> x < n * (x div n) + (n::int)"
  using pos_mod_bound[of n x] pos_mod_sign[of n x] mult_div_mod_eq[of n x] by linarith

lemma int_div_step:
  assumes "0 < (n::int)"
  shows "(x + 1) div n = x div n + (if n dvd x + 1 then 1 else 0)"
proof -
  define q where "q = x div n"
  define r where "r = x mod n"
  have x: "x = n * q + r" "0 \<le> r" "r < n" using assms by (simp_all add: q_def r_def)
  show ?thesis
  proof (cases "r + 1 = n")
    case True
    then have "x + 1 = n * (q + 1)" using x by (simp add: algebra_simps)
    then show ?thesis using assms by (simp add: q_def)
  next
    case False
    then have "x + 1 = n * q + (r + 1)" "0 \<le> r + 1" "r + 1 < n" using x by auto
    then have "(x + 1) div n = q" "(x + 1) mod n = r + 1" by (rule int_div_pos_eq, rule int_mod_pos_eq)
    then show ?thesis using x(2) by (simp add: q_def dvd_eq_mod_eq_0)
  qed
qed

lemma dvd_shift: "n dvd k \<Longrightarrow> n dvd y - (k::int) \<longleftrightarrow> n dvd y"
  by (metis diff_add_cancel dvd_add_left_iff)

lemma year_length_aux:
  fixes y a b c a' b' c' :: int
  assumes "a' = a + (if P then 1 else 0)" "b' = b + (if Q then 1 else 0)" "c' = c + (if R then 1 else 0)"
    and "R \<Longrightarrow> Q" "Q \<Longrightarrow> P" "L \<longleftrightarrow> P \<and> (\<not> Q \<or> R)"
  shows "365 * (y + 1 - 1970) + a' - b' + c' = 365 * (y - 1970) + a - b + c + (if L then 366 else 365)"
  using assms by (cases P; cases Q; cases R) auto

lemma year_length: "day_from_year (y + 1) = day_from_year y + (if leap y then 366 else 365)"
  unfolding day_from_year_def
proof (rule year_length_aux)
  have "y + 1 - 1969 = y - 1969 + 1" "y - 1969 + 1 = y - 1968" by simp_all
  then show "(y + 1 - 1969) div 4 = (y - 1969) div 4 + (if 4 dvd y then 1 else 0)"
    using int_div_step[of 4 "y - 1969"] dvd_shift[of 4 1968 y] by simp
  have "y + 1 - 1901 = y - 1901 + 1" "y - 1901 + 1 = y - 1900" by simp_all
  then show "(y + 1 - 1901) div 100 = (y - 1901) div 100 + (if 100 dvd y then 1 else 0)"
    using int_div_step[of 100 "y - 1901"] dvd_shift[of 100 1900 y] by simp
  have "y + 1 - 1601 = y - 1601 + 1" "y - 1601 + 1 = y - 1600" by simp_all
  then show "(y + 1 - 1601) div 400 = (y - 1601) div 400 + (if 400 dvd y then 1 else 0)"
    using int_div_step[of 400 "y - 1601"] dvd_shift[of 400 1600 y] by simp
  show "100 dvd y" if "400 dvd y" using dvd_trans[of 100 400 y] that by simp
  show "4 dvd y" if "100 dvd y" using dvd_trans[of 4 100 y] that by simp
  show "leap y \<longleftrightarrow> 4 dvd y \<and> (\<not> 100 dvd y \<or> 400 dvd y)"
    by (simp add: leap_def dvd_eq_mod_eq_0)
qed

lemma day_from_year_bounds:
  "146097 * (y - 1970) - 2000 \<le> 400 * day_from_year y"
  "400 * day_from_year y \<le> 146097 * (y - 1970) + 2000"
proof -
  define a where "a = (y - 1969) div 4"
  define b where "b = (y - 1901) div 100"
  define c where "c = (y - 1601) div 400"
  have d: "day_from_year y = 365 * (y - 1970) + a - b + c" by (simp add: day_from_year_def a_def b_def c_def)
  have a: "4 * a \<le> y - 1969" "y - 1969 < 4 * a + 4" using int_div_bounds[of 4 "y - 1969"] by (simp_all add: a_def)
  have b: "100 * b \<le> y - 1901" "y - 1901 < 100 * b + 100" using int_div_bounds[of 100 "y - 1901"] by (simp_all add: b_def)
  have c: "400 * c \<le> y - 1601" "y - 1601 < 400 * c + 400" using int_div_bounds[of 400 "y - 1601"] by (simp_all add: c_def)
  have a': "100 * y - 197200 \<le> 400 * a" "400 * a \<le> 100 * y - 196900" using a by linarith+
  have b': "4 * y - 8004 \<le> 400 * b" "400 * b \<le> 4 * y - 7604" using b by linarith+
  have c': "y - 2001 \<le> 400 * c" "400 * c \<le> y - 1601" using c by linarith+
  have e: "400 * day_from_year y = 146000 * y - 287620000 + 400 * a - 400 * b + 400 * c" unfolding d by simp
  show "146097 * (y - 1970) - 2000 \<le> 400 * day_from_year y" unfolding e using a' b' c' by simp
  show "400 * day_from_year y \<le> 146097 * (y - 1970) + 2000" unfolding e using a' b' c' by simp
qed

lemma year_of_day_spec: "day_from_year (year_of_day d) \<le> d \<and> d < day_from_year (year_of_day d + 1)"
proof -
  define q where "q = (400 * d) div 146097"
  define y where "y = 1970 + q"
  have q: "146097 * q \<le> 400 * d" "400 * d \<le> 146097 * q + 146096" using int_div_bounds[of 146097 "400 * d"] by (simp_all add: q_def)
  have "day_from_year (y - 1) \<le> d" "d < day_from_year (y + 2)"
    using day_from_year_bounds[of "y - 1"] day_from_year_bounds[of "y + 2"] q by (simp_all add: y_def)
  then show ?thesis
    by (auto simp: year_of_day_def Let_def q_def[symmetric] y_def[symmetric] add.assoc)
qed

lemma day_from_year_mono: "a \<le> b \<Longrightarrow> day_from_year a \<le> day_from_year b"
proof (induction b rule: int_ge_induct)
  case (step b)
  then show ?case using year_length[of b] by (auto split: if_splits)
qed simp

lemma year_of_day_unique:
  assumes "day_from_year y \<le> d" "d < day_from_year (y + 1)"
  shows "year_of_day d = y"
proof -
  let ?z = "year_of_day d"
  have "\<not> y < ?z" using day_from_year_mono[of "y + 1" ?z] year_of_day_spec[of d] assms by auto
  moreover have "\<not> ?z < y" using day_from_year_mono[of "?z + 1" y] year_of_day_spec[of d] assms by auto
  ultimately show ?thesis by simp
qed

lemma month_cases:
  assumes "0 \<le> m" "m < (12::int)"
  shows "m \<in> {0, 1, 2, 3, 4, 5, 6, 7, 8, 9, 10, 11}"
proof -
  have "m \<in> set [0..11]" using assms by simp
  then show ?thesis by (simp add: upto.simps)
qed

lemma month_in_year_range: "0 \<le> month_in_year l n \<and> month_in_year l n < 12"
  using length_takeWhile_le[of "\<lambda>m. days_before l m \<le> n" "[1..11]"] by (simp add: month_in_year_def)

lemma days_before_month: "0 \<le> n \<Longrightarrow> days_before l (month_in_year l n) \<le> n"
proof (cases "month_in_year l n = 0")
  case False
  define k where "k = length (takeWhile (\<lambda>m. days_before l m \<le> n) [1..11])"
  have k: "month_in_year l n = int k" "0 < k" using False by (simp_all add: month_in_year_def k_def)
  then have "takeWhile (\<lambda>m. days_before l m \<le> n) [1..11] ! (k - 1) \<in> set (takeWhile (\<lambda>m. days_before l m \<le> n) [1..11])"
    by (intro nth_mem) (simp add: k_def)
  moreover have "takeWhile (\<lambda>m. days_before l m \<le> n) [1..11] ! (k - 1) = [1..11] ! (k - 1)"
    using k(2) by (intro takeWhile_nth) (simp add: k_def)
  moreover have "k \<le> 11" unfolding k_def using length_takeWhile_le[of _ "[1..11]"] by simp
  then have "[1..11] ! (k - 1) = int k" using k(2) by (simp add: nth_upto)
  ultimately have "int k \<in> set (takeWhile (\<lambda>m. days_before l m \<le> n) [1..11])" by simp
  then show ?thesis unfolding k(1) by (rule set_takeWhileD[THEN conjunct2])
qed (simp add: days_before_def)

lemma month_in_year_start: "0 \<le> m \<Longrightarrow> m < 12 \<Longrightarrow> month_in_year l (days_before l m) = m"
  by (cases l; drule (1) month_cases) (auto simp: month_in_year_def days_before_def upto.simps)

lemma make_day_date: "make_day (year_of_day d) (month_of_day d) (date_of_day d + k) = d + k"
  using month_in_year_range[of "leap (year_of_day d)" "d - day_from_year (year_of_day d)"]
  by (simp add: make_day_def date_of_day_def month_of_day_def Let_def)

text \<open>The first of a month falls into that month.\<close>

lemma first_of_month:
  "year_of_day (make_day y m 1) = y + m div 12"
  "month_of_day (make_day y m 1) = m mod 12"
  "date_of_day (make_day y m 1) = 1"
proof -
  let ?y = "y + m div 12" and ?m = "m mod 12"
  have m: "0 \<le> ?m" "?m < 12" by simp_all
  have d: "make_day y m 1 = day_from_year ?y + days_before (leap ?y) ?m" by (simp add: make_day_def Let_def)
  have "0 \<le> days_before (leap ?y) ?m" "days_before (leap ?y) ?m < (if leap ?y then 366 else 365)"
    using month_cases[OF m] by (auto simp: days_before_def)
  then show y: "year_of_day (make_day y m 1) = ?y"
    unfolding d by (intro year_of_day_unique) (simp_all add: year_length)
  show "month_of_day (make_day y m 1) = ?m"
    unfolding month_of_day_def Let_def y using month_in_year_start[OF m] by (simp add: d)
  then show "date_of_day (make_day y m 1) = 1" unfolding date_of_day_def Let_def y by (simp add: d)
qed

lemma make_day_shift: "make_day (y + k div 12) (k mod 12 + j) dt = make_day y (k + j) dt"
proof -
  have e: "k + j = k mod 12 + j + 12 * (k div 12)" by simp
  have "(k + j) div 12 = (k mod 12 + j) div 12 + k div 12" unfolding e by (subst div_mult_self2) simp_all
  moreover have "(k mod 12 + j) mod 12 = (k + j) mod 12" by (rule mod_add_left_eq)
  ultimately show ?thesis by (simp add: make_day_def Let_def add.assoc add.commute)
qed

lemma days_before_values:
  "days_before l 0 = 0" "days_before l 1 = 31" "days_before l 2 = (if l then 60 else 59)"
  "days_before l 3 = (if l then 91 else 90)" "days_before l 4 = (if l then 121 else 120)"
  "days_before l 5 = (if l then 152 else 151)" "days_before l 6 = (if l then 182 else 181)"
  "days_before l 7 = (if l then 213 else 212)" "days_before l 8 = (if l then 244 else 243)"
  "days_before l 9 = (if l then 274 else 273)" "days_before l 10 = (if l then 305 else 304)"
  "days_before l 11 = (if l then 335 else 334)" "days_before l 12 = (if l then 366 else 365)"
  by (cases l; simp add: days_before_def)+

lemma days_before_less:
  assumes "0 \<le> m" "m < 12"
  shows "days_before l m < days_before l (m + 1)"
  using month_cases[OF assms] by (elim insertE emptyE; cases l) (simp_all add: days_before_values)

lemma make_day_in_year: "0 \<le> m \<Longrightarrow> m \<le> 12 \<Longrightarrow> make_day y m 1 = day_from_year y + days_before (leap y) m"
proof (cases "m = 12")
  case True
  have "make_day y 12 1 = day_from_year (y + 1) + days_before (leap (y + 1)) 0"
    by (simp add: make_day_def Let_def)
  then show ?thesis unfolding True using year_length[of y] by (simp add: days_before_values)
next
  case False
  assume "0 \<le> m" "m \<le> 12"
  with False have "m div 12 = 0" "m mod 12 = m" by simp_all
  then show ?thesis by (simp add: make_day_def Let_def)
qed

lemma make_day_next: "0 \<le> m \<Longrightarrow> m < 12 \<Longrightarrow> make_day y m 1 < make_day y (m + 1) 1"
  using days_before_less[of m "leap y"] by (simp add: make_day_in_year)

lemma make_day_increasing: "make_day y m 1 < make_day y (m + 1) 1"
proof -
  have "make_day (y + m div 12) (m mod 12) 1 < make_day (y + m div 12) (m mod 12 + 1) 1"
    by (rule make_day_next) simp_all
  then show ?thesis using make_day_shift[of y m 1 1] make_day_shift[of y m 0 1] by simp
qed

lemma make_day_not_after: "make_day (year_of_day d) (month_of_day d) 1 \<le> d"
proof -
  have "0 \<le> d - day_from_year (year_of_day d)" using year_of_day_spec[of d] by simp
  then have "1 \<le> date_of_day d"
    using days_before_month[of "d - day_from_year (year_of_day d)" "leap (year_of_day d)"]
    by (simp add: date_of_day_def month_of_day_def Let_def)
  with make_day_date[of d "1 - date_of_day d"] show ?thesis by simp
qed

end
