(* ===== verification/Views.thy ===== *)
theory Views
  imports Prelude
begin

text \<open>
  The contract between \<open>app.js\<close> and a view: \<open>mount\<close> takes the resources of the view (intervals,
  charts, animation frames), its handlers keep account of them while it is shown, and \<open>unmount\<close>
  gives them back. \<open>quiet_view\<close> adds that answers which arrive after \<open>unmount\<close> take no resource
  again. Each view of the dashboard interprets the contract on its own state and handlers.
\<close>

section \<open>Mounting and unmounting\<close>

locale mounted_view =
  fixes mount :: "'i \<Rightarrow> 's \<Rightarrow> 's"
    and step :: "'s \<Rightarrow> 'e \<Rightarrow> 's"
    and unmount :: "'s \<Rightarrow> 's"
    and idle :: "'s \<Rightarrow> bool"
    and live :: "'s \<Rightarrow> bool"
  assumes mount_live: "idle s \<Longrightarrow> live (mount i s)"
    and step_live: "live s \<Longrightarrow> live (step s e)"
    and unmount_idle: "live s \<Longrightarrow> idle (unmount s)"
begin

text \<open>A visit mounts the view, handles some events and unmounts it.\<close>

lemma visit_live: "idle s \<Longrightarrow> live (run step (mount i s) es)"
proof -
  have "live t \<Longrightarrow> live (run step t es)" for t
    by (induction es arbitrary: t) (auto intro: step_live)
  then show "idle s \<Longrightarrow> live (run step (mount i s) es)" by (simp add: mount_live)
qed

lemma visits_idle: "idle s \<Longrightarrow> idle (foldl (\<lambda>s (i, es). unmount (run step (mount i s) es)) s vs)"
  by (induction vs arbitrary: s) (auto intro: unmount_idle visit_live)

end

locale quiet_view = mounted_view mount step unmount idle live
  for mount :: "'i \<Rightarrow> 's \<Rightarrow> 's" and step :: "'s \<Rightarrow> 'e \<Rightarrow> 's" and unmount idle live +
  fixes late :: "'e \<Rightarrow> bool"
  assumes late_idle: "idle s \<Longrightarrow> late e \<Longrightarrow> idle (step s e)"
begin

lemma late_run_idle: "idle s \<Longrightarrow> \<forall>e\<in>set es. late e \<Longrightarrow> idle (run step s es)"
  by (induction es arbitrary: s) (auto intro: late_idle)

text \<open>Between two visits, late events may come in any number.\<close>

lemma quiet_visits_idle:
  "idle s \<Longrightarrow> \<forall>(i, es, fs)\<in>set vs. \<forall>e\<in>set fs. late e
     \<Longrightarrow> idle (foldl (\<lambda>s (i, es, fs). run step (unmount (run step (mount i s) es)) fs) s vs)"
proof (induction vs arbitrary: s)
  case (Cons v vs)
  obtain i es fs where v: "v = (i, es, fs)" by (cases v)
  have "idle (run step (unmount (run step (mount i s) es)) fs)"
    using Cons.prems unfolding v by (intro late_run_idle unmount_idle visit_live) auto
  then show ?case using Cons unfolding v by auto
qed simp

end

lemma removeAll_all: "\<forall>x\<in>set xs. a = x \<Longrightarrow> removeAll a xs = []"
  by (induction xs) auto

section \<open>Intervals\<close>

text \<open>
  \<open>setInterval\<close> gives a fresh identifier, \<open>clearInterval\<close> of an identifier that is not running
  does nothing.
\<close>

record intervals =
  iv_next :: nat
  iv_running :: "nat list"

definition no_intervals :: intervals where
  "no_intervals = \<lparr> iv_next = 0, iv_running = [] \<rparr>"

definition set_interval :: "intervals \<Rightarrow> intervals \<times> nat" where
  "set_interval iv = (iv\<lparr> iv_next := Suc (iv_next iv), iv_running := iv_running iv @ [iv_next iv] \<rparr>, iv_next iv)"

definition clear_interval :: "nat \<Rightarrow> intervals \<Rightarrow> intervals" where
  "clear_interval i iv = iv\<lparr> iv_running := removeAll i (iv_running iv) \<rparr>"

fun new_intervals :: "nat \<Rightarrow> intervals \<Rightarrow> intervals \<times> nat list" where
  "new_intervals 0 iv = (iv, [])"
| "new_intervals (Suc n) iv =
     (let (iv1, t) = set_interval iv; (iv2, ts) = new_intervals n iv1 in (iv2, t # ts))"

lemma new_intervals_running:
  "new_intervals n iv = (iv', ts) \<Longrightarrow> set (iv_running iv') = set (iv_running iv) \<union> set ts"
proof (induction n arbitrary: iv iv' ts)
  case (Suc n)
  obtain iv1 t where 1: "set_interval iv = (iv1, t)" by (cases "set_interval iv")
  obtain iv2 us where 2: "new_intervals n iv1 = (iv2, us)" by (cases "new_intervals n iv1")
  have 3: "iv' = iv2" "ts = t # us" using Suc.prems by (simp_all add: 1 2)
  have "set (iv_running iv1) = insert t (set (iv_running iv))" using 1 by (auto simp: set_interval_def)
  then show ?case unfolding 3 Suc.IH[OF 2] by simp
qed simp

lemma iv_running_clear [simp]: "iv_running (clear_interval i iv) = removeAll i (iv_running iv)"
  by (simp add: clear_interval_def)

lemma iv_running_fold_clear:
  "set (iv_running (fold clear_interval is iv)) = set (iv_running iv) - set is"
  by (induction "is" arbitrary: iv) auto

end
