(* ===== verification/Energy.thy ===== *)
theory Energy
  imports BarChart Calendar Views
begin

text \<open>
  \<open>views/energy.js\<close>: the energy page. The periods (\<open>boundaries\<close>), the rows computed from the counter
  readings at their starts, the totals, the texts, and the state of the view (mode, refresh
  interval, requests in flight). \<open>date_text style t\<close> stands for \<open>toLocaleDateString\<close>.
\<close>

section \<open>Periods\<close>

datatype energy_mode = D7 | D30 | M12

definition MODES :: "(string \<times> energy_mode) list" where
  "MODES = [(''7 days'', D7), (''30 days'', D30), (''12 months'', M12)]"

fun mode_attr :: "energy_mode \<Rightarrow> string" where
  "mode_attr D7 = ''d7''"
| "mode_attr D30 = ''d30''"
| "mode_attr M12 = ''m12''"

definition mode_buttons :: "energy_mode \<Rightarrow> string" where
  \<open>mode_buttons mode =
     ''<div class="segmented" id="e-modes">'' @
     concat (map (\<lambda>(l, m). ''<button data-m="'' @ mode_attr m @ ''" class="'' @
                           (if m = mode then ''active'' else []) @ ''">'' @ l @ ''</button>'') MODES) @ ''</div>''\<close>

text \<open>The loops push a copy of the date and step it.\<close>

fun push_dates :: "(int \<Rightarrow> int) \<Rightarrow> nat \<Rightarrow> int \<Rightarrow> int list" where
  "push_dates next 0 d = []"
| "push_dates next (Suc n) d = d # push_dates next n (next d)"

definition boundaries :: "zone \<Rightarrow> energy_mode \<Rightarrow> int \<Rightarrow> int list" where
  "boundaries z mode now =
     (if mode = M12 then
        let d = set_date z 1 (set_midnight z now);
            d = set_month z (get_month z d - 11) d
        in push_dates (\<lambda>d. set_month z (get_month z d + 1) d) 12 d
      else
        let days = (if mode = D7 then 7 else 30);
            d = set_midnight z now;
            d = set_date z (get_date z d - (int days - 1)) d
        in push_dates (\<lambda>d. set_date z (get_date z d + 1) d) days d)"

section \<open>Rows\<close>

datatype date_style = Month_short | Day_month | Month_year | Weekday_day

record energy_row =
  er_label :: string
  er_title :: string
  er_used :: "jsnum option"
  er_made :: "jsnum option"
  er_cop :: "jsnum option"

definition delta :: "jsnum option list \<Rightarrow> nat \<Rightarrow> jsnum option" where
  "delta arr i =
     (case (at_null arr i, at_null arr (i + 1)) of
        (Some a, Some b) \<Rightarrow> Some (jmax 0 (b - a))
      | _ \<Rightarrow> None)"

text \<open>In \<open>used ? made / used : null\<close> a missing \<open>made\<close> (\<open>null\<close>) counts as 0.\<close>

definition row_cop :: "jsnum option \<Rightarrow> jsnum option \<Rightarrow> jsnum option" where
  "row_cop used made = (case used of Some u \<Rightarrow> if num_truthy u then Some (nz made / u) else None | None \<Rightarrow> None)"

definition energy_rows ::
  "(date_style \<Rightarrow> int \<Rightarrow> string) \<Rightarrow> bool \<Rightarrow> int list \<Rightarrow> jsnum option list \<Rightarrow> jsnum option list \<Rightarrow> energy_row list" where
  "energy_rows date_text monthly starts vi vo =
     map (\<lambda>i. let d = starts ! i; used = delta vi i; made = delta vo i in
            \<lparr> er_label = date_text (if monthly then Month_short else Day_month) d,
              er_title = date_text (if monthly then Month_year else Weekday_day) d,
              er_used = used, er_made = made, er_cop = row_cop used made \<rparr>)
       [0..<length starts]"

definition total :: "(energy_row \<Rightarrow> jsnum option) \<Rightarrow> energy_row list \<Rightarrow> jsnum" where
  "total field rows = foldl (\<lambda>a r. a + num_or (field r) 0) 0 rows"

definition with_data :: "energy_row list \<Rightarrow> jsnum" where
  "with_data rows = jmax (Fin 1) (Fin (of_nat (length (filter (\<lambda>r. er_used r \<noteq> None) rows))))"

definition eligible :: "energy_row \<Rightarrow> bool" where
  "eligible r = (er_cop r \<noteq> None \<and> (case er_used r of Some u \<Rightarrow> Fin 100 < u | None \<Rightarrow> False))"

text \<open>The comparison function \<open>(a, b) => b.cop - a.cop\<close>; \<open>NaN\<close> counts as 0.\<close>

definition by_cop :: "energy_row \<Rightarrow> energy_row \<Rightarrow> bool" where
  "by_cop a b = (\<not> (0 < nz (er_cop b) - nz (er_cop a)))"

definition best_row :: "energy_row list \<Rightarrow> energy_row option" where
  "best_row rows = elem_at (sort_by by_cop (filter eligible rows)) 0"

section \<open>The page\<close>

definition tile :: "string \<Rightarrow> string \<Rightarrow> string \<Rightarrow> string \<Rightarrow> string" where
  \<open>tile label v cls meta =
     ''<div class="card kpi '' @ cls @ ''" style="cursor:default"><div class="label">'' @ label @
     ''</div><div class="value">'' @ v @ ''</div><div class="meta">'' @ meta @ ''</div></div>''\<close>

definition slashed_o :: string where
  "slashed_o = [CHR 0xC3, CHR 0x98]"

definition with_unit :: "string \<times> string \<Rightarrow> string" where
  "with_unit p = fst p @ ''<small>'' @ snd p @ ''</small>''"

definition average_meta :: "locale_format \<Rightarrow> bool \<Rightarrow> jsnum \<Rightarrow> string" where
  "average_meta loc monthly x =
     (let p = Format.energy loc (Some x)
      in slashed_o @ '' '' @ fst p @ '' '' @ snd p @ '' per '' @ (if monthly then ''month'' else ''day''))"

definition energy_kpis :: "locale_format \<Rightarrow> bool \<Rightarrow> energy_row list \<Rightarrow> string" where
  "energy_kpis loc monthly rows =
     (let used = total er_used rows; made = total er_made rows;
          cop = (if num_truthy used then Some (made / used) else None);
          n = with_data rows
      in tile ''Electricity used'' (with_unit (Format.energy loc (Some used))) [] (average_meta loc monthly (used / n)) @
         tile ''Heat produced'' (with_unit (Format.energy loc (Some made))) ''heat'' (average_meta loc monthly (made / n)) @
         tile ''Average COP'' (if cop = None then endash else num loc cop 2) ''good''
           (case best_row rows of None \<Rightarrow> []
            | Some b \<Rightarrow> ''Best: '' @ num loc (er_cop b) 2 @ '' on '' @ esc (Some (er_title b))) @
         tile ''Ambient energy gained'' (with_unit (Format.energy loc (Some (jmax 0 (made - used))))) ''cool''
           ''Heat drawn from outside air'')"

definition kwh :: "jsnum option \<Rightarrow> jsnum option" where
  "kwh v = map_option (\<lambda>x. x / Fin 1000) v"

definition energy_groups :: "locale_format \<Rightarrow> energy_row list \<Rightarrow> bar_group list" where
  \<open>energy_groups loc rows =
     map (\<lambda>r. \<lparr> bg_label = er_label r, bg_title = Some (er_title r), bg_values = [kwh (er_used r), kwh (er_made r)],
               bg_extra = (if er_cop r \<noteq> None
                           then ''<div class="r"><span>COP</span><b>'' @ num loc (er_cop r) 2 @ ''</b></div>'' else []) \<rparr>) rows\<close>

definition cop_groups :: "energy_row list \<Rightarrow> bar_group list" where
  "cop_groups rows =
     map (\<lambda>r. \<lparr> bg_label = er_label r, bg_title = Some (er_title r), bg_values = [er_cop r], bg_extra = [] \<rparr>) rows"

definition energy_series :: "bar_series list" where
  "energy_series = [\<lparr> bs_label = ''Electricity used'', bs_color = ''--s1'' \<rparr>, \<lparr> bs_label = ''Heat produced'', bs_color = ''--s2'' \<rparr>]"

definition cop_series :: "bar_series list" where
  "cop_series = [\<lparr> bs_label = ''COP'', bs_color = ''--s3'' \<rparr>]"

definition energy_cell :: "locale_format \<Rightarrow> jsnum option \<Rightarrow> string" where
  \<open>energy_cell loc v = ''<td class="num">'' @ (if v = None then endash else num loc v 2) @ ''</td>''\<close>

definition energy_table :: "locale_format \<Rightarrow> bool \<Rightarrow> energy_row list \<Rightarrow> string" where
  \<open>energy_table loc monthly rows =
     ''<table><thead><tr><th>'' @ (if monthly then ''Month'' else ''Day'') @
     ''</th><th class="num">Electricity</th><th class="num">Heat</th><th class="num">COP</th></tr></thead><tbody>'' @
     concat (map (\<lambda>r. ''<tr><td>'' @ esc (Some (er_title r)) @ ''</td>'' @ energy_cell loc (kwh (er_used r)) @
                      energy_cell loc (kwh (er_made r)) @ energy_cell loc (er_cop r) @ ''</tr>'') (rev rows)) @
     ''</tbody></table>''\<close>

section \<open>The view\<close>

text \<open>
  A request in flight remembers the starts it was made for; \<open>mode\<close> is read again when the answer
  is drawn. \<open>ev_page\<close>: the elements of the page exist, that is, the counters were known at \<open>mount\<close>.
\<close>

record energy_view =
  ev_mode :: energy_mode
  ev_timer :: "nat option"
  ev_intervals :: intervals
  ev_page :: bool
  ev_requests :: nat
  ev_loads :: "(nat \<times> int list) list"
  ev_shown :: "(bool \<times> energy_row list) option"

definition init_energy :: energy_view where
  "init_energy = \<lparr> ev_mode = D30, ev_timer = None, ev_intervals = no_intervals, ev_page = False,
     ev_requests = 0, ev_loads = [], ev_shown = None \<rparr>"

text \<open>\<open>load\<close> up to its \<open>await\<close>; without the counters \<open>eIn.id\<close> throws before the request.\<close>

definition start_energy_load :: "zone \<Rightarrow> bool \<Rightarrow> int \<Rightarrow> energy_view \<Rightarrow> energy_view" where
  "start_energy_load z counters now s =
     (if counters then s\<lparr> ev_loads := ev_loads s @ [(ev_requests s, boundaries z (ev_mode s) now)],
                          ev_requests := Suc (ev_requests s) \<rparr>
      else s)"

definition mount_energy :: "zone \<Rightarrow> bool \<times> int \<Rightarrow> energy_view \<Rightarrow> energy_view" where
  "mount_energy z arg s =
     (let (counters, now) = arg; s = s\<lparr> ev_page := counters, ev_shown := None \<rparr> in
      if \<not> counters then s
      else let s = start_energy_load z counters now s; (iv, t) = set_interval (ev_intervals s)
           in s\<lparr> ev_intervals := iv, ev_timer := Some t \<rparr>)"

definition unmount_energy :: "energy_view \<Rightarrow> energy_view" where
  "unmount_energy s =
     (case ev_timer s of None \<Rightarrow> s | Some t \<Rightarrow> s\<lparr> ev_intervals := clear_interval t (ev_intervals s) \<rparr>)"

text \<open>A click on a button of the mode bar.\<close>

definition click_mode :: "zone \<Rightarrow> bool \<Rightarrow> int \<Rightarrow> energy_mode \<Rightarrow> energy_view \<Rightarrow> energy_view" where
  "click_mode z counters now m s = start_energy_load z counters now (s\<lparr> ev_mode := m \<rparr>)"

text \<open>\<open>load\<close> after its \<open>await\<close>; \<open>None\<close> is a failed request.\<close>

definition energy_answer ::
  "(date_style \<Rightarrow> int \<Rightarrow> string) \<Rightarrow> nat \<Rightarrow> (jsnum option list \<times> jsnum option list) option \<Rightarrow> energy_view \<Rightarrow> energy_view" where
  "energy_answer date_text k res s =
     (case map_of (ev_loads s) k of
        None \<Rightarrow> s
      | Some starts \<Rightarrow>
          let s = s\<lparr> ev_loads := filter (\<lambda>(j, _). j \<noteq> k) (ev_loads s) \<rparr> in
          (case res of
             None \<Rightarrow> s
           | Some (vi, vo) \<Rightarrow>
               let monthly = (ev_mode s = M12) in
               if ev_page s then s\<lparr> ev_shown := Some (monthly, energy_rows date_text monthly starts vi vo) \<rparr> else s))"

datatype energy_event =
    En_click energy_mode bool int
  | En_tick bool int
  | En_answer nat "(jsnum option list \<times> jsnum option list) option"

fun energy_step :: "zone \<Rightarrow> (date_style \<Rightarrow> int \<Rightarrow> string) \<Rightarrow> energy_view \<Rightarrow> energy_event \<Rightarrow> energy_view" where
  "energy_step z date_text s (En_click m counters now) = click_mode z counters now m s"
| "energy_step z date_text s (En_tick counters now) = start_energy_load z counters now s"
| "energy_step z date_text s (En_answer k res) = energy_answer date_text k res s"

section \<open>Lemmas on the periods\<close>

text \<open>Every local day begins at midnight: the local time of the time value found for a midnight is that midnight.\<close>

definition has_midnights :: "zone \<Rightarrow> bool" where
  "has_midnights z \<longleftrightarrow> (\<forall>k. local_time z (utc z (k * ms_per_day)) = k * ms_per_day)"

definition midnight :: "zone \<Rightarrow> int \<Rightarrow> int" where
  "midnight z k = utc z (k * ms_per_day)"

lemma push_dates_map: "(\<And>i. f (g i) = g (Suc i)) \<Longrightarrow> push_dates f n (g k) = map (\<lambda>i. g (k + i)) [0..<n]"
proof (induction n arbitrary: k)
  case (Suc n)
  have "[0..<Suc n] = 0 # map Suc [0..<n]" by (simp add: upt_conv_Cons map_Suc_upt del: upt_Suc)
  with Suc show ?case by (simp del: upt_Suc)
qed simp

lemma local_midnight: "has_midnights z \<Longrightarrow> local_time z (midnight z k) = k * ms_per_day"
  by (simp add: has_midnights_def midnight_def)

lemma midnight_fields [simp]:
  assumes "has_midnights z"
  shows "day (local_time z (midnight z k)) = k" "time_within_day (local_time z (midnight z k)) = 0"
    "get_date z (midnight z k) = date_of_day k" "get_month z (midnight z k) = month_of_day k"
  using assms by (simp_all add: local_midnight day_def time_within_day_def get_date_def get_month_def ms_per_day_def)

lemma set_midnight_midnight: "set_midnight z t = midnight z (day (local_time z t))"
  by (simp add: set_midnight_def midnight_def)

lemma set_date_midnight:
  "has_midnights z \<Longrightarrow> set_date z n (midnight z k) = midnight z (make_day (year_of_day k) (month_of_day k) n)"
  by (simp add: set_date_def Let_def) (simp add: midnight_def)

lemma set_month_midnight:
  "has_midnights z \<Longrightarrow> set_month z n (midnight z k) = midnight z (make_day (year_of_day k) n (date_of_day k))"
  by (simp add: set_month_def Let_def) (simp add: midnight_def)

lemma next_day: "has_midnights z \<Longrightarrow> set_date z (get_date z (midnight z k) + j) (midnight z k) = midnight z (k + j)"
  by (simp add: set_date_midnight make_day_date)

lemma next_month:
  "has_midnights z \<Longrightarrow>
     set_month z (get_month z (midnight z (make_day y m 1)) + j) (midnight z (make_day y m 1)) = midnight z (make_day y (m + j) 1)"
  by (simp add: set_month_midnight first_of_month make_day_shift)

lemma boundaries_days:
  assumes z: "has_midnights z" and "mode \<noteq> M12" "n = (if mode = D7 then 7 else 30)"
  shows "boundaries z mode now = map (\<lambda>i. midnight z (day (local_time z now) - (int n - 1) + int i)) [0..<n]"
proof -
  let ?t = "day (local_time z now)"
  let ?g = "\<lambda>i. midnight z (?t - (int n - 1) + int i)"
  have first: "set_date z (get_date z (set_midnight z now) - (int n - 1)) (set_midnight z now) = ?g 0"
    using next_day[OF z, of ?t "- (int n - 1)"]
    by (simp add: set_midnight_midnight del: minus_diff_eq midnight_fields)
  have "push_dates (\<lambda>d. set_date z (get_date z d + 1) d) n (?g 0) = map (\<lambda>i. ?g (0 + i)) [0..<n]"
    by (rule push_dates_map) (simp only: next_day[OF z] of_nat_Suc, simp add: algebra_simps)
  then show ?thesis using assms(2,3) first unfolding boundaries_def Let_def by simp
qed

lemma boundaries_months:
  assumes z: "has_midnights z"
  shows "boundaries z M12 now =
    (let t = day (local_time z now) in
     map (\<lambda>i. midnight z (make_day (year_of_day t) (month_of_day t - 11 + int i) 1)) [0..<12])"
proof -
  let ?t = "day (local_time z now)"
  let ?y = "year_of_day ?t" and ?m = "month_of_day ?t"
  let ?g = "\<lambda>i. midnight z (make_day ?y (?m - 11 + int i) 1)"
  have a: "set_date z 1 (set_midnight z now) = midnight z (make_day ?y ?m 1)"
    using set_date_midnight[OF z] by (simp add: set_midnight_midnight)
  have b: "set_month z (get_month z (midnight z (make_day ?y ?m 1)) - 11) (midnight z (make_day ?y ?m 1)) = ?g 0"
    using next_month[OF z, of ?y ?m "- 11"] by simp
  have "push_dates (\<lambda>d. set_month z (get_month z d + 1) d) 12 (?g 0) = map (\<lambda>i. ?g (0 + i)) [0..<12]"
    by (rule push_dates_map) (simp only: next_month[OF z] of_nat_Suc, simp add: algebra_simps)
  then show ?thesis unfolding boundaries_def Let_def a b by simp
qed

section \<open>Properties of the periods\<close>

definition shifted_zone :: "int \<Rightarrow> zone" where
  "shifted_zone off = \<lparr> local_time = (\<lambda>t. t + off), utc = (\<lambda>t. t - off) \<rparr>"

lemma shifted_zone_midnights [simp]: "has_midnights (shifted_zone off)"
  by (simp add: has_midnights_def shifted_zone_def)

text \<open>
  C17: the daily periods begin at the local midnights of the last 7 or 30 days, one after the other, the last one
  being today, whatever the time zone does in between (a zone that has a midnight every day).
\<close>

theorem energy_daily_periods:
  assumes "has_midnights z" "mode \<noteq> M12" "n = (if mode = D7 then 7 else 30)"
  shows "map (local_time z) (boundaries z mode now) =
    map (\<lambda>i. (day (local_time z now) - (int n - 1) + int i) * ms_per_day) [0..<n]"
  unfolding boundaries_days[OF assms] using assms(1) by (simp add: local_midnight)

theorem energy_daily_periods_witness:
  "map (local_time (shifted_zone 3600000)) (boundaries (shifted_zone 3600000) D7 1709251200000) =
    map (\<lambda>i. (day (local_time (shifted_zone 3600000) 1709251200000) - (int 7 - 1) + int i) * ms_per_day) [0..<7]"
  by (rule energy_daily_periods) simp_all

text \<open>
  C16: the monthly periods begin at midnight on the first of twelve consecutive months, the last one being the
  current month, also over the turn of a year.
\<close>

theorem energy_monthly_periods:
  assumes "has_midnights z" "today = day (local_time z now)"
  shows "map (\<lambda>t. let d = day (local_time z t)
                  in (12 * year_of_day d + month_of_day d, date_of_day d, time_within_day (local_time z t)))
           (boundaries z M12 now) =
         map (\<lambda>i. (12 * year_of_day today + month_of_day today - 11 + int i, 1, 0)) [0..<12]"
proof -
  have "12 * (y + m div 12) + m mod 12 = 12 * y + (m::int)" for y m by simp
  then show ?thesis
    unfolding boundaries_months[OF assms(1)] Let_def assms(2)[symmetric] map_map comp_def
    using assms(1) by (simp add: first_of_month add_diff_eq)
qed

theorem energy_monthly_periods_witness:
  "map (\<lambda>t. let d = day (local_time (shifted_zone 3600000) t)
            in (12 * year_of_day d + month_of_day d, date_of_day d, time_within_day (local_time (shifted_zone 3600000) t)))
     (boundaries (shifted_zone 3600000) M12 1709251200000) =
   map (\<lambda>i. (12 * year_of_day 19783 + month_of_day 19783 - 11 + int i, 1, 0)) [0..<12]"
  by (rule energy_monthly_periods[OF shifted_zone_midnights]) (simp add: shifted_zone_def day_def ms_per_day_def)

section \<open>Lemmas on the rows\<close>

text \<open>Counter readings: exact integers (watt hours), at most 2^52.\<close>

definition wh :: "int \<Rightarrow> jsnum" where
  "wh n = Fin (of_int n)"

lemma wh_ops:
  "\<bar>a - b\<bar> \<le> 2 ^ 53 \<Longrightarrow> wh a - wh b = wh (a - b)"
  "\<bar>a + b\<bar> \<le> 2 ^ 53 \<Longrightarrow> wh a + wh b = wh (a + b)"
  using fl_of_int[of "a - b"] fl_of_int[of "a + b"] by (simp_all add: wh_def)

lemma wh_0: "(0::jsnum) = wh 0"
  by (simp add: wh_def zero_jsnum_def)

lemma jmax_wh [simp]: "jmax (wh a) (wh b) = wh (max a b)"
  by (simp add: wh_def max_def)

lemma num_or_wh [simp]: "num_or (Some (wh n)) 0 = wh n"
  by (simp add: num_or_def num_truthy_def wh_def zero_jsnum_def)

lemma delta_wh:
  assumes "Suc i < length ns" "\<forall>n\<in>set ns. 0 \<le> n \<and> n \<le> 2 ^ 52"
  shows "delta (map (\<lambda>n. Some (wh n)) ns) i = Some (wh (max 0 (ns ! Suc i - ns ! i)))"
proof -
  have "0 \<le> ns ! i \<and> ns ! i \<le> 2 ^ 52" "0 \<le> ns ! Suc i \<and> ns ! Suc i \<le> 2 ^ 52" using assms by simp_all
  then have "wh (ns ! Suc i) - wh (ns ! i) = wh (ns ! Suc i - ns ! i)"
    by (intro wh_ops) (auto simp: abs_le_iff)
  then show ?thesis using assms(1) by (simp add: delta_def at_null_def elem_at_in wh_0)
qed

lemma length_rows [simp]: "length (energy_rows dt m starts vi vo) = length starts"
  by (simp add: energy_rows_def)

lemma nth_rows [simp]:
  assumes "i < length starts"
  shows "er_used (energy_rows dt m starts vi vo ! i) = delta vi i" "er_made (energy_rows dt m starts vi vo ! i) = delta vo i"
    "er_cop (energy_rows dt m starts vi vo ! i) = row_cop (delta vi i) (delta vo i)"
  using assms by (simp_all add: energy_rows_def Let_def)

lemma map_used_rows: "map er_used (energy_rows dt m starts vi vo) = map (delta vi) [0..<length starts]"
  by (simp add: energy_rows_def Let_def)

lemma map_made_rows: "map er_made (energy_rows dt m starts vi vo) = map (delta vo) [0..<length starts]"
  by (simp add: energy_rows_def Let_def)

lemma total_map: "total f rows = foldl (\<lambda>a v. a + num_or v 0) 0 (map f rows)"
  by (simp add: total_def foldl_map)

text \<open>The increments of a counter that never falls telescope.\<close>

lemma total_increments:
  assumes "\<forall>n\<in>set ns. 0 \<le> n \<and> n \<le> 2 ^ 52" "sorted ns" "k < length ns"
  shows "foldl (\<lambda>a v. a + num_or v 0) 0 (map (delta (map (\<lambda>n. Some (wh n)) ns)) [0..<k]) = wh (ns ! k - ns ! 0)"
  using assms(3)
proof (induction k)
  case (Suc k)
  have mono: "ns ! 0 \<le> ns ! k" "ns ! k \<le> ns ! Suc k" using assms(2) Suc.prems by (auto intro: sorted_nth_mono)
  have "0 < length ns" using Suc.prems by linarith
  then have r: "0 \<le> ns ! 0" "ns ! Suc k \<le> 2 ^ 52" using assms(1) Suc.prems nth_mem by blast+
  have "wh (ns ! k - ns ! 0) + wh (ns ! Suc k - ns ! k) = wh (ns ! k - ns ! 0 + (ns ! Suc k - ns ! k))"
    using mono r by (intro wh_ops) simp
  then show ?case using Suc mono assms(1) by (simp add: delta_wh)
qed (simp add: wh_0)

section \<open>Properties of the rows\<close>

text \<open>
  C15: the totals of the page are exact: for counters that never fall, read at all boundaries, the energy used is
  the last reading minus the first, whatever the periods; the same holds for the heat produced.
\<close>

theorem energy_totals_exact:
  assumes "\<forall>n\<in>set ns. 0 \<le> n \<and> n \<le> 2 ^ 52" "sorted ns" "length ns = Suc (length starts)"
    and "\<forall>n\<in>set ms. 0 \<le> n \<and> n \<le> 2 ^ 52" "sorted ms" "length ms = Suc (length starts)"
    and rows_def: "rows = energy_rows date_text monthly starts (map (\<lambda>n. Some (wh n)) ns) (map (\<lambda>n. Some (wh n)) ms)"
  shows "total er_used rows = wh (last ns - hd ns) \<and> total er_made rows = wh (last ms - hd ms)"
proof -
  have "last xs = xs ! length starts \<and> hd xs = xs ! 0" if "length xs = Suc (length starts)" for xs :: "int list"
    using that by (cases "xs = []") (simp_all add: last_conv_nth hd_conv_nth)
  then show ?thesis
    unfolding rows_def total_map map_used_rows map_made_rows using assms(1-6) by (simp add: total_increments)
qed

theorem energy_totals_exact_witness:
  "total er_used (energy_rows (\<lambda>s t. []) False [0, 1, 2] (map (\<lambda>n. Some (wh n)) [100, 250, 250, 400])
                    (map (\<lambda>n. Some (wh n)) [300, 800, 800, 900])) = wh (last [100, 250, 250, 400] - hd [100, 250, 250, 400]) \<and>
   total er_made (energy_rows (\<lambda>s t. []) False [0, 1, 2] (map (\<lambda>n. Some (wh n)) [100, 250, 250, 400])
                    (map (\<lambda>n. Some (wh n)) [300, 800, 800, 900])) = wh (last [300, 800, 800, 900] - hd [300, 800, 800, 900])"
  by (rule energy_totals_exact[where date_text = "\<lambda>s t. []" and monthly = False and starts = "[0, 1, 2]"]) simp_all

text \<open>
  A day whose heat counter is missing but whose electricity counter is there is given a coefficient of
  performance of 0, as if the heat pump had produced nothing, where the rows otherwise leave out what is not known.
\<close>

theorem missing_heat_counts_as_zero:
  assumes "i < length starts" "delta vi i = Some (Fin u)" "0 < u" "delta vo i = None"
  shows "er_made (energy_rows date_text monthly starts vi vo ! i) = None \<and>
    er_cop (energy_rows date_text monthly starts vi vo ! i) = Some 0"
  using assms by (simp add: row_cop_def num_truthy_def zero_jsnum_def)

theorem missing_heat_counts_as_zero_witness:
  "er_made (energy_rows (\<lambda>s t. []) False [0] [Some (Fin 100), Some (Fin 300)] [None, Some (Fin 5)] ! 0) = None \<and>
   er_cop (energy_rows (\<lambda>s t. []) False [0] [Some (Fin 100), Some (Fin 300)] [None, Some (Fin 5)] ! 0) = Some 0"
  by (rule missing_heat_counts_as_zero[where u = 200]) (simp_all add: delta_def at_null_def zero_jsnum_def)

section \<open>The best period\<close>

text \<open>The difference of two distinct doubles does not round to zero.\<close>

lemma diff_pos_iff:
  assumes "rnd a = a" "rnd b = b"
  shows "0 < Fin b - Fin a \<longleftrightarrow> a < b"
proof (cases "a < b")
  case True
  then have "0 < rnd (b - a)" using assms by (intro rnd_diff_pos)
  then show ?thesis using True by (simp add: fl_def Let_def zero_jsnum_def)
next
  case False
  then have "fl (b - a) \<le> fl 0" by (intro fl_mono) simp
  then show ?thesis using False by (cases "fl (b - a)") (auto simp: zero_jsnum_def)
qed

lemma sort_by_cong: "(\<And>x y. x \<in> set xs \<Longrightarrow> y \<in> set xs \<Longrightarrow> le x y = le' x y) \<Longrightarrow> sort_by le xs = sort_by le' xs"
proof (induction xs)
  case (Cons x xs)
  have "insert_by le x ys = insert_by le' x ys" if "set ys \<subseteq> set xs" for ys
    using that Cons.prems by (induction ys) auto
  then show ?case using Cons by simp
qed simp

text \<open>The Numbers a row of doubles has as its coefficient of performance.\<close>

definition cop_ok :: "energy_row \<Rightarrow> bool" where
  "cop_ok r = (case er_cop r of Some (Fin c) \<Rightarrow> rnd c = c | None \<Rightarrow> True | _ \<Rightarrow> False)"

lemma by_cop_eq:
  assumes "cop_ok a" "cop_ok b"
  shows "by_cop a b \<longleftrightarrow> nz (er_cop b) \<le> nz (er_cop a)"
proof -
  have "\<exists>c. nz (er_cop r) = Fin c \<and> rnd c = c" if "cop_ok r" for r
    using that by (auto simp: cop_ok_def zero_jsnum_def split: option.splits jsnum.splits)
  then obtain x y where "nz (er_cop a) = Fin x" "rnd x = x" "nz (er_cop b) = Fin y" "rnd y = y" using assms by metis
  then show ?thesis by (simp add: by_cop_def diff_pos_iff not_less del: minus_Fin)
qed

lemma best_row_spec:
  assumes ok: "\<And>r. r \<in> set rows \<Longrightarrow> eligible r \<Longrightarrow> cop_ok r"
  shows "case best_row rows of
           None \<Rightarrow> \<forall>r\<in>set rows. \<not> eligible r
         | Some b \<Rightarrow> b \<in> set rows \<and> eligible b \<and> (\<forall>r\<in>set rows. eligible r \<longrightarrow> nz (er_cop r) \<le> nz (er_cop b))"
proof -
  define key :: "energy_row \<Rightarrow> rat" where "key r = (case nz (er_cop r) of Fin c \<Rightarrow> c | _ \<Rightarrow> 0)" for r
  have key: "by_cop a b \<longleftrightarrow> key b \<le> key a" if "cop_ok a" "cop_ok b" for a b
    using that by_cop_eq[of a b] by (auto simp: key_def cop_ok_def zero_jsnum_def split: option.splits jsnum.splits)
  define xs where "xs = sort_by (\<lambda>a b. key b \<le> key a) (filter eligible rows)"
  have best: "best_row rows = elem_at xs 0"
    unfolding best_row_def xs_def by (rule arg_cong[where f = "\<lambda>ys. elem_at ys 0"], rule sort_by_cong) (simp add: key ok)
  have set: "set xs = {r \<in> set rows. eligible r}" by (simp add: xs_def)
  have sorted: "sorted_wrt (\<lambda>a b. key b \<le> key a) xs" unfolding xs_def by (rule sorted_sort_by) auto
  show ?thesis
  proof (cases xs)
    case Nil
    then show ?thesis using set by (auto simp: best)
  next
    case (Cons b ys)
    have b: "b \<in> set rows" "eligible b" using set Cons by auto
    have "nz (er_cop r) \<le> nz (er_cop b)" if r: "r \<in> set rows" "eligible r" for r
    proof -
      have "key r \<le> key b" using sorted set r unfolding Cons by auto
      then show ?thesis using key[of b r] by_cop_eq[of b r] ok b r by simp
    qed
    then show ?thesis using b Cons by (simp add: best)
  qed
qed


text \<open>Counter readings as the server sends them: doubles up to 10^12.\<close>

definition readings_ok :: "jsnum option list \<Rightarrow> bool" where
  "readings_ok vs \<longleftrightarrow> (\<forall>x. Some x \<in> set vs \<longrightarrow> bounded 1000000000000 x)"

lemma delta_bounded:
  assumes "readings_ok vs" "delta vs i = Some x"
  obtains d where "x = Fin d" "0 \<le> d" "d \<le> 4000000000000"
proof -
  obtain a b where "Some a = vs ! i" "i < length vs" "Some b = vs ! Suc i" "Suc i < length vs" and x: "x = jmax 0 (b - a)"
    using assms(2) by (auto simp: delta_def at_null_def elem_at_def split: option.splits if_splits)
  then have ab: "Some a \<in> set vs" "Some b \<in> set vs" by simp_all
  then obtain p q where pq: "a = Fin p" "b = Fin q" "\<bar>p\<bar> \<le> 1000000000000" "\<bar>q\<bar> \<le> 1000000000000"
    using assms(1) unfolding readings_ok_def by (metis boundedE)
  have r: "rnd (q - p) \<le> 4000000000000" using pq(3,4) rnd_mono[of "q - p" 4000000000000] by simp
  have "fl (q - p) = Fin (rnd (q - p))" using pq(3,4) by (intro fl_small) simp
  then have "x = Fin (max 0 (rnd (q - p)))" unfolding x pq(1,2) by (simp add: zero_jsnum_def)
  then show thesis using that r by simp
qed

lemma eligible_cop_ok:
  assumes "readings_ok vi" "readings_ok vo" "r \<in> set (energy_rows date_text monthly starts vi vo)" "eligible r"
  shows "cop_ok r"
proof -
  obtain i where i: "er_used r = delta vi i" "er_cop r = row_cop (delta vi i) (delta vo i)"
    using assms(3) by (auto simp: energy_rows_def Let_def)
  obtain u where u: "delta vi i = Some u" "Fin 100 < u" using assms(4) by (auto simp: eligible_def i split: option.splits)
  obtain x where "u = Fin x" by (rule delta_bounded[OF assms(1) u(1)])
  with u(2) have x: "u = Fin x" "100 < x" by simp_all
  obtain y where y: "nz (delta vo i) = Fin y" "0 \<le> y" "y \<le> 4000000000000"
  proof (cases "delta vo i")
    case None
    then show thesis using that[of 0] by (simp add: zero_jsnum_def)
  next
    case (Some v)
    obtain d where "v = Fin d" "0 \<le> d" "d \<le> 4000000000000" by (rule delta_bounded[OF assms(2) Some])
    then show thesis using that[of d] Some by simp
  qed
  have "y / x \<le> y" using x y by (simp add: divide_le_eq mult_le_cancel_left1)
  then have "fl (y / x) = Fin (rnd (y / x))" using x y by (intro fl_small) (simp add: abs_le_iff)
  then show ?thesis using x y by (simp add: cop_ok_def i u row_cop_def num_truthy_def zero_jsnum_def)
qed

text \<open>
  C18: the period named as the best one is a row of the table that used more than 100 Wh, and no other such row
  has a higher coefficient of performance; none is named only if no row used more than 100 Wh.
\<close>

theorem best_period_is_best:
  assumes "readings_ok vi" "readings_ok vo" "rows = energy_rows date_text monthly starts vi vo"
  shows "case best_row rows of
           None \<Rightarrow> \<forall>r\<in>set rows. \<not> eligible r
         | Some b \<Rightarrow> b \<in> set rows \<and> eligible b \<and> (\<forall>r\<in>set rows. eligible r \<longrightarrow> nz (er_cop r) \<le> nz (er_cop b))"
  using best_row_spec eligible_cop_ok assms by blast

definition two_days :: "energy_row list" where
  "two_days = energy_rows (\<lambda>s t. []) False [0, 1] (map (\<lambda>n. Some (wh n)) [0, 200, 500]) (map (\<lambda>n. Some (wh n)) [0, 800, 1500])"

theorem best_period_is_best_witness: "\<exists>b. best_row two_days = Some b \<and> b \<in> set two_days \<and> eligible b"
proof -
  have "delta (map (\<lambda>n. Some (wh n)) [0, 200, 500]) 0 = Some (wh 200)"
    by (subst delta_wh) (auto simp: max_def)
  moreover have "delta (map (\<lambda>n. Some (wh n)) [0, 800, 1500]) 0 = Some (wh 800)"
    by (subst delta_wh) (auto simp: max_def)
  ultimately have "eligible (two_days ! 0)"
    unfolding two_days_def by (simp add: eligible_def row_cop_def num_truthy_def wh_def)
  moreover have "two_days ! 0 \<in> set two_days" by (simp add: two_days_def)
  moreover have "readings_ok (map (\<lambda>n. Some (wh n)) [0, 200, 500])" "readings_ok (map (\<lambda>n. Some (wh n)) [0, 800, 1500])"
    by (auto simp: readings_ok_def wh_def)
  from best_period_is_best[OF this two_days_def]
  have "case best_row two_days of None \<Rightarrow> \<forall>r\<in>set two_days. \<not> eligible r | Some b \<Rightarrow> b \<in> set two_days \<and> eligible b"
    by (auto split: option.splits)
  ultimately show ?thesis by (auto split: option.splits)
qed

section \<open>The life of the view\<close>

definition energy_idle :: "energy_view \<Rightarrow> bool" where
  "energy_idle s = (iv_running (ev_intervals s) = [])"

definition energy_live :: "energy_view \<Rightarrow> bool" where
  "energy_live s = (\<forall>i\<in>set (iv_running (ev_intervals s)). ev_timer s = Some i)"

fun is_answer :: "energy_event \<Rightarrow> bool" where
  "is_answer (En_answer k res) = True"
| "is_answer e = False"

lemma energy_step_timers [simp]:
  "ev_intervals (energy_step z dt s e) = ev_intervals s" "ev_timer (energy_step z dt s e) = ev_timer s"
  by (cases e; simp add: click_mode_def start_energy_load_def energy_answer_def Let_def split: option.splits)+

interpretation energy_page: quiet_view "mount_energy z" "energy_step z dt" unmount_energy energy_idle energy_live is_answer
proof unfold_locales
  show "energy_live (mount_energy z i s)" if "energy_idle s" for i s
    using that by (cases i) (auto simp: energy_idle_def energy_live_def mount_energy_def start_energy_load_def set_interval_def Let_def)
  show "energy_idle (unmount_energy s)" if "energy_live s" for s
    using that by (cases "ev_timer s") (auto simp: energy_idle_def energy_live_def unmount_energy_def
        intro: removeAll_all)
qed (simp_all add: energy_idle_def energy_live_def)

text \<open>
  However often the energy page is visited, and whatever is clicked and answered (also after leaving it), no
  refresh interval is left running once it is unmounted.
\<close>

theorem energy_leaves_no_interval:
  assumes "\<forall>(i, es, fs)\<in>set visits. \<forall>e\<in>set fs. is_answer e"
  shows "iv_running (ev_intervals (foldl (\<lambda>s (i, es, fs).
           run (energy_step z dt) (unmount_energy (run (energy_step z dt) (mount_energy z i s) es)) fs) init_energy visits)) = []"
proof -
  have "energy_idle init_energy" by (simp add: energy_idle_def init_energy_def no_intervals_def)
  from energy_page.quiet_visits_idle[OF this assms] show ?thesis by (simp add: energy_idle_def)
qed

theorem energy_leaves_no_interval_witness:
  "iv_running (ev_intervals (foldl (\<lambda>s (i, es, fs).
     run (energy_step (shifted_zone 0) (\<lambda>s t. [])) (unmount_energy (run (energy_step (shifted_zone 0) (\<lambda>s t. []))
       (mount_energy (shifted_zone 0) i s) es)) fs) init_energy
     [((True, 5), [En_click M12 True 6], [En_answer 0 None]), ((True, 7), [], [])])) = []"
  by (rule energy_leaves_no_interval) simp

text \<open>
  An answer is labelled by the mode at its arrival: if "12 months" is clicked while the daily readings are
  still on their way, the page then shows the days of the earlier request under the heading of months (until the
  second answer replaces them, or for good if that one came first).
\<close>

theorem stale_days_shown_as_months:
  assumes "ev_page s" "map_of (ev_loads s) k = Some starts"
    and "s2 = run (energy_step z dt) s [En_click M12 True now, En_answer k (Some (vi, vo))]"
  shows "ev_shown s2 = Some (True, energy_rows dt True starts vi vo)"
  using assms by (simp add: click_mode_def start_energy_load_def energy_answer_def)

theorem stale_days_shown_as_months_witness:
  "ev_shown (run (energy_step (shifted_zone 0) (\<lambda>s t. [])) (mount_energy (shifted_zone 0) (True, 0) (init_energy\<lparr> ev_mode := D7 \<rparr>))
     [En_click M12 True 5, En_answer 0 (Some ([], []))]) =
   Some (True, energy_rows (\<lambda>s t. []) True (boundaries (shifted_zone 0) D7 0) [] [])"
  by (rule stale_days_shown_as_months)
    (simp_all add: mount_energy_def start_energy_load_def init_energy_def set_interval_def Let_def)

text \<open>
  A page that was mounted before the counters were known stays empty: \<open>mount\<close> returns without the frame, so once
  they are known a click on a mode sends a request whose answer has no element to be drawn into.
\<close>

theorem energy_page_stays_empty:
  "ev_shown (run (energy_step z dt) (mount_energy z (False, now) s) es) = None \<and>
   length (ev_loads (energy_step z dt (mount_energy z (False, now) s) (En_click m True later))) =
     Suc (length (ev_loads (mount_energy z (False, now) s)))"
proof -
  have "\<not> ev_page t \<Longrightarrow> ev_shown t = None \<Longrightarrow> ev_shown (run (energy_step z dt) t es) = None" for t
  proof (induction es arbitrary: t)
    case (Cons e es)
    have "\<not> ev_page (energy_step z dt t e) \<and> ev_shown (energy_step z dt t e) = None"
      using Cons.prems by (cases e) (auto simp: click_mode_def start_energy_load_def energy_answer_def Let_def split: option.split)
    then show ?case using Cons.IH by simp
  qed simp
  then show ?thesis by (simp add: mount_energy_def click_mode_def start_energy_load_def Let_def)
qed

end
