(* ===== verification/Timeline.thy ===== *)
theory Timeline
  imports Gaps
begin

text \<open>
  \<open>timeline\<close> of \<open>charts.js\<close>: the rows of coloured segments that show the state of a binary or enum
  entity over time. \<open>now\<close> is \<open>Date.now()\<close> in milliseconds; \<open>date_text\<close> and \<open>axis_text\<close> stand for the
  two \<open>toLocaleString\<close> calls, whose results depend on the locale and the time zone.
\<close>

section \<open>Segments\<close>

record segment =
  sg_state :: string
  sg_a :: jsnum
  sg_b :: jsnum

record tl_row =
  row_label :: string
  row_data :: series
  row_order :: "string list"
  row_hide :: "string list"

definition sample_state :: "string option list \<Rightarrow> nat \<Rightarrow> string" where
  "sample_state texts i = nullish (at_null texts i) endash"

definition add_segment ::
  "jsnum \<Rightarrow> jsnum \<Rightarrow> jsnum \<Rightarrow> jsnum list \<Rightarrow> string option list \<Rightarrow> segment list \<Rightarrow> nat \<Rightarrow> segment list" where
  "add_segment start stop now ts texts segs i =
     (let state = sample_state texts i;
          a = jmax start (ts ! i);
          b = jmin stop (if i + 1 < length ts then ts ! (i + 1) else jmin stop (now / Fin 1000))
      in if b \<le> a then segs
         else if segs \<noteq> [] \<and> sg_state (last segs) = state \<and> jabs (sg_b (last segs) - a) < Fin 1
         then butlast segs @ [(last segs)\<lparr> sg_b := b \<rparr>]
         else segs @ [\<lparr> sg_state = state, sg_a = a, sg_b = b \<rparr>])"

definition segments :: "jsnum \<Rightarrow> jsnum \<Rightarrow> jsnum \<Rightarrow> series \<Rightarrow> segment list" where
  "segments start stop now s =
     foldl (add_segment start stop now (sr_t s) (sr_text s)) [] [0..<length (sr_t s)]"

section \<open>Colours\<close>

definition SLOTS :: "string list" where
  "SLOTS = [''--s1'', ''--s2'', ''--s3'', ''--s4'', ''--s5'', ''--s6'', ''--s7'', ''--s8'']"

definition slot :: "nat \<Rightarrow> string" where
  "slot i = SLOTS ! (i mod length SLOTS)"

text \<open>\<open>new Set(...)\<close> keeps the first occurrences, in order.\<close>

definition first_occurrences :: "'a list \<Rightarrow> 'a list" where
  "first_occurrences xs = foldl (\<lambda>ys x. if x \<in> set ys then ys else ys @ [x]) [] xs"

definition order_colors :: "string list \<Rightarrow> (string, string) jsmap" where
  "order_colors order = foldl (\<lambda>m i. map_set (order ! i) (slot i) m) [] [0..<length order]"

definition segment_colors :: "string list \<Rightarrow> segment list \<Rightarrow> (string, string) jsmap" where
  "segment_colors order segs =
     foldl (\<lambda>m st. if map_get m st \<noteq> None then m else map_set st (slot (length m)) m)
       (order_colors order) (first_occurrences (map sg_state segs))"

section \<open>Markup\<close>

definition seg_left :: "jsnum \<Rightarrow> jsnum \<Rightarrow> segment \<Rightarrow> jsnum" where
  "seg_left start dur g = ((sg_a g - start) / dur) * Fin 100"

definition seg_width :: "jsnum \<Rightarrow> segment \<Rightarrow> jsnum" where
  "seg_width dur g = ((sg_b g - sg_a g) / dur) * Fin 100"

definition seg_html ::
  "(jsnum \<Rightarrow> string) \<Rightarrow> jsnum \<Rightarrow> jsnum \<Rightarrow> (string, string) jsmap \<Rightarrow> segment \<Rightarrow> string" where
  \<open>seg_html date_text start dur colors g =
     ''<div class="tl-seg" title="'' @
     esc (Some (sg_state g @ '' '' @ middot @ '' '' @ date_text (sg_a g) @ '' '' @ arrow @ '' '' @ date_text (sg_b g))) @
     ''" style="left:'' @ number_text (seg_left start dur g) @ ''%;width:'' @ number_text (seg_width dur g) @
     ''%;background:var('' @ nullish (map_get colors (sg_state g)) ''undefined'' @ '')"></div>''\<close>

definition legend_entry :: "string \<times> string \<Rightarrow> string" where
  \<open>legend_entry sc = ''<span><i style="background:var('' @ snd sc @ '')"></i>'' @ esc (Some (fst sc)) @ ''</span>''\<close>

definition row_html :: "(jsnum \<Rightarrow> string) \<Rightarrow> jsnum \<Rightarrow> jsnum \<Rightarrow> jsnum \<Rightarrow> tl_row \<Rightarrow> string" where
  \<open>row_html date_text start stop now row =
     (let segs = segments start stop now (row_data row);
          colors = segment_colors (row_order row) segs;
          visible = filter (\<lambda>g. sg_state g \<notin> set (row_hide row)) segs;
          shown = filter (\<lambda>(st, c). st \<in> set (map sg_state segs) \<and> st \<notin> set (row_hide row)) colors
      in ''<div class="tl-row"><div class="tl-name" title="'' @ esc (Some (row_label row)) @ ''">'' @
         esc (Some (row_label row)) @ ''</div><div><div class="tl-bar">'' @
         concat (map (seg_html date_text start (stop - start) colors) visible) @
         ''</div><div class="tl-legend">'' @ concat (map legend_entry shown) @ ''</div></div></div>'')\<close>

definition timeline ::
  "(jsnum \<Rightarrow> string) \<Rightarrow> (bool \<Rightarrow> jsnum \<Rightarrow> string) \<Rightarrow> jsnum \<Rightarrow> tl_row list \<Rightarrow> jsnum \<Rightarrow> jsnum \<Rightarrow> string" where
  \<open>timeline date_text axis_text now rows start stop =
     (let dur = stop - start; days = Fin (2 * 86400) < dur
      in ''<div class="timeline">'' @ concat (map (row_html date_text start stop now) rows) @
         ''<div class="tl-axis"><span></span><div>'' @
         concat (map (\<lambda>f. ''<span>'' @ axis_text days (start + Fin f * dur) @ ''</span>'') [0, 1/4, 1/2, 3/4, 1]) @
         ''</div></div></div>'')\<close>

section \<open>The segments of ordered samples\<close>

definition finite_times :: "jsnum list \<Rightarrow> bool" where
  "finite_times ts = (\<forall>t\<in>set ts. \<exists>a. t = Fin a)"

definition seg_end :: "jsnum \<Rightarrow> jsnum list \<Rightarrow> nat \<Rightarrow> jsnum" where
  "seg_end now ts i = (if i + 1 < length ts then ts ! (i + 1) else now / Fin 1000)"

text \<open>The state a sample stands for at a time of the window.\<close>

definition in_force :: "jsnum \<Rightarrow> jsnum \<Rightarrow> jsnum \<Rightarrow> jsnum list \<Rightarrow> nat \<Rightarrow> rat \<Rightarrow> bool" where
  "in_force start stop now ts i x \<longleftrightarrow>
     start \<le> Fin x \<and> ts ! i \<le> Fin x \<and> Fin x < stop \<and> Fin x < seg_end now ts i"

definition covers :: "segment list \<Rightarrow> rat \<Rightarrow> string \<Rightarrow> bool" where
  "covers segs x s = (\<exists>g\<in>set segs. sg_a g \<le> Fin x \<and> Fin x < sg_b g \<and> sg_state g = s)"

text \<open>
  Consecutive segments do not overlap, and where they touch their states differ (equal states
  would have been merged).
\<close>

definition tidy :: "jsnum \<Rightarrow> jsnum \<Rightarrow> segment list \<Rightarrow> bool" where
  "tidy start stop segs \<longleftrightarrow>
     (\<forall>g\<in>set segs. start \<le> sg_a g \<and> sg_a g < sg_b g \<and> sg_b g \<le> stop) \<and>
     successively (\<lambda>g k. sg_b g = sg_a k \<and> sg_state g \<noteq> sg_state k) segs"

lemma covers_append: "covers (gs @ ks) x s \<longleftrightarrow> covers gs x s \<or> covers ks x s"
  by (auto simp: covers_def)

lemma covers_single: "covers [g] x s \<longleftrightarrow> sg_a g \<le> Fin x \<and> Fin x < sg_b g \<and> sg_state g = s"
  by (auto simp: covers_def)

lemma tidy_snoc:
  "tidy p q (gs @ [g]) \<longleftrightarrow>
     tidy p q gs \<and> p \<le> sg_a g \<and> sg_a g < sg_b g \<and> sg_b g \<le> q \<and>
     (gs \<noteq> [] \<longrightarrow> sg_b (last gs) = sg_a g \<and> sg_state (last gs) \<noteq> sg_state g)"
  by (auto simp: tidy_def successively_append_iff)

text \<open>What the loop has built from the first \<open>n\<close> samples.\<close>

definition segs_inv :: "rat \<Rightarrow> rat \<Rightarrow> jsnum \<Rightarrow> jsnum list \<Rightarrow> string option list \<Rightarrow> nat \<Rightarrow> segment list \<Rightarrow> bool" where
  "segs_inv p q now ts texts n segs \<longleftrightarrow>
     tidy (Fin p) (Fin q) segs \<and>
     (n < length ts \<and> segs \<noteq> [] \<longrightarrow> sg_b (last segs) = jmin (Fin q) (ts ! n)) \<and>
     (\<forall>x s. covers segs x s \<longleftrightarrow> (\<exists>i<n. in_force (Fin p) (Fin q) now ts i x \<and> sample_state texts i = s))"

lemma segs_invI:
  assumes "tidy (Fin p) (Fin q) segs"
    and "Suc n < length ts \<Longrightarrow> segs \<noteq> [] \<Longrightarrow> sg_b (last segs) = jmin (Fin q) (ts ! Suc n)"
    and "\<And>x s. covers segs x s \<longleftrightarrow>
      covers segs0 x s \<or> in_force (Fin p) (Fin q) now ts n x \<and> sample_state texts n = s"
    and "segs_inv p q now ts texts n segs0"
  shows "segs_inv p q now ts texts (Suc n) segs"
  using assms by (auto simp: segs_inv_def less_Suc_eq)

lemma segs_inv_step:
  assumes inv: "segs_inv p q now ts texts n segs" and n: "n < length ts"
    and sorted_ts: "sorted_wrt (\<le>) ts" and fin: "finite_times ts" and w: "now / Fin 1000 = Fin w"
  shows "segs_inv p q now ts texts (Suc n) (add_segment (Fin p) (Fin q) now ts texts segs n)"
proof -
  define state where "state = sample_state texts n"
  obtain u where u: "ts ! n = Fin u" using fin n by (auto simp: finite_times_def dest: nth_mem)
  obtain e where e: "seg_end now ts n = Fin e"
    using fin w nth_mem[of "n + 1" ts] unfolding seg_end_def finite_times_def by (metis (full_types))
  have ue: "u \<le> e" if "Suc n < length ts"
    using sorted_wrt_nth_less[OF sorted_ts, of n "Suc n"] that u e by (simp add: seg_end_def)
  define a where "a = max p u"
  define b where "b = min q e"
  have force: "in_force (Fin p) (Fin q) now ts n x \<longleftrightarrow> a \<le> x \<and> x < b" for x
    by (auto simp: in_force_def u e a_def b_def)
  have next_end: "jmin (Fin q) (ts ! Suc n) = Fin b" if "Suc n < length ts"
    using that e by (simp add: seg_end_def b_def)
  have step: "add_segment (Fin p) (Fin q) now ts texts segs n =
     (if b \<le> a then segs
      else if segs \<noteq> [] \<and> sg_state (last segs) = state \<and> jabs (sg_b (last segs) - Fin a) < Fin 1
      then butlast segs @ [(last segs)\<lparr> sg_b := Fin b \<rparr>]
      else segs @ [\<lparr> sg_state = state, sg_a = Fin a, sg_b = Fin b \<rparr>])"
    using e w by (auto simp: add_segment_def Let_def state_def u a_def b_def seg_end_def min_def split: if_splits)
  have tidy: "tidy (Fin p) (Fin q) segs" using inv by (simp add: segs_inv_def)
  have last_end: "sg_b (last segs) = Fin (min q u)" if "segs \<noteq> []"
    using inv n that u by (simp add: segs_inv_def)
  have last_seg: "Fin p \<le> sg_a (last segs)" "sg_a (last segs) < sg_b (last segs)" if "segs \<noteq> []"
    using tidy that by (auto simp: tidy_def)
  have pu: "p < min q u" if "segs \<noteq> []"
    using last_seg[OF that] last_end[OF that] by (cases "sg_a (last segs)") auto
  show ?thesis
  proof (cases "b \<le> a")
    case True
    have "sg_b (last segs) = jmin (Fin q) (ts ! Suc n)" if "Suc n < length ts" "segs \<noteq> []"
      using next_end[OF that(1)] last_end[OF that(2)] pu[OF that(2)] ue[OF that(1)] True
      by (auto simp: a_def b_def min_def max_def split: if_splits)
    moreover have "covers segs x s \<longleftrightarrow> covers segs x s \<or> in_force (Fin p) (Fin q) now ts n x \<and> sample_state texts n = s" for x s
    proof -
      have "\<not> in_force (Fin p) (Fin q) now ts n x" using True by (simp add: force)
      then show ?thesis by blast
    qed
    ultimately have "segs_inv p q now ts texts (Suc n) segs"
      by (rule segs_invI[OF tidy _ _ inv])
    then show ?thesis by (simp add: step True)
  next
    case False
    then have ab: "a < b" by simp
    then have touch: "sg_b (last segs) = Fin a" if "segs \<noteq> []"
      using last_end[OF that] pu[OF that] by (auto simp: a_def b_def min_def max_def split: if_splits)
    have range: "p \<le> a" "b \<le> q" by (simp_all add: a_def b_def)
    show ?thesis
    proof (cases "segs \<noteq> [] \<and> sg_state (last segs) = state")
      case True
      then have "segs \<noteq> []" by simp
      then obtain gs g where gs: "segs = gs @ [g]" by (metis append_butlast_last_id)
      have g: "sg_state g = state" "sg_b g = Fin a" using True touch gs by auto
      have gt: "tidy (Fin p) (Fin q) gs" "Fin p \<le> sg_a g" "sg_a g < sg_b g"
        "gs \<noteq> [] \<longrightarrow> sg_b (last gs) = sg_a g \<and> sg_state (last gs) \<noteq> sg_state g"
        using tidy by (simp_all add: gs tidy_snoc)
      have S: "add_segment (Fin p) (Fin q) now ts texts segs n = gs @ [g\<lparr> sg_b := Fin b \<rparr>]"
        unfolding step using False g by (simp add: gs)
      obtain c where c: "sg_a g = Fin c" "c < a" using gt g by (cases "sg_a g") auto
      have "tidy (Fin p) (Fin q) (gs @ [g\<lparr> sg_b := Fin b \<rparr>])"
        using gt range ab c by (simp add: tidy_snoc)
      moreover have "covers (gs @ [g\<lparr> sg_b := Fin b \<rparr>]) x s \<longleftrightarrow>
          covers segs x s \<or> in_force (Fin p) (Fin q) now ts n x \<and> sample_state texts n = s" for x s
        using c ab g by (auto simp: gs covers_append covers_single force state_def)
      ultimately show ?thesis
        unfolding S using next_end by (intro segs_invI[OF _ _ _ inv]) simp_all
    next
      case differ: False
      let ?g = "\<lparr> sg_state = state, sg_a = Fin a, sg_b = Fin b \<rparr>"
      have S: "add_segment (Fin p) (Fin q) now ts texts segs n = segs @ [?g]"
        using False differ by (auto simp: step)
      have "tidy (Fin p) (Fin q) (segs @ [?g])"
        using tidy range ab touch differ by (auto simp: tidy_snoc)
      moreover have "covers (segs @ [?g]) x s \<longleftrightarrow>
          covers segs x s \<or> in_force (Fin p) (Fin q) now ts n x \<and> sample_state texts n = s" for x s
        by (auto simp: covers_append covers_single force state_def)
      ultimately show ?thesis
        unfolding S using next_end by (intro segs_invI[OF _ _ _ inv]) simp_all
    qed
  qed
qed

lemma segments_inv:
  assumes "sorted_wrt (\<le>) (sr_t s)" "finite_times (sr_t s)" "now / Fin 1000 = Fin w" "n \<le> length (sr_t s)"
  shows "segs_inv p q now (sr_t s) (sr_text s) n
    (foldl (add_segment (Fin p) (Fin q) now (sr_t s) (sr_text s)) [] [0..<n])"
  using assms(4)
proof (induction n)
  case 0
  show ?case by (simp add: segs_inv_def tidy_def covers_def)
next
  case (Suc n)
  then show ?case using assms(1-3) by (simp add: segs_inv_step)
qed

section \<open>Distinct colours\<close>

lemma first_occurrences_snoc:
  "first_occurrences (xs @ [x]) =
     (if x \<in> set (first_occurrences xs) then first_occurrences xs else first_occurrences xs @ [x])"
  by (simp add: first_occurrences_def)

lemma set_first_occurrences [simp]: "set (first_occurrences xs) = set xs"
  by (induction xs rule: rev_induct) (auto simp: first_occurrences_snoc, simp add: first_occurrences_def)

lemma distinct_first_occurrences [simp]: "distinct (first_occurrences xs)"
proof (induction xs rule: rev_induct)
  case (snoc x xs)
  then show ?case by (auto simp: first_occurrences_snoc)
qed (simp add: first_occurrences_def)

text \<open>The palette is handed out in order to the keys, in the order in which they come.\<close>

definition palette :: "string list \<Rightarrow> (string, string) jsmap" where
  "palette ks = zip ks (map slot [0..<length ks])"

lemma map_set_new: "k \<notin> fst ` set m \<Longrightarrow> map_set k v m = m @ [(k, v)]"
  by (induction m) auto

lemma map_get_None_iff: "map_get m k = None \<longleftrightarrow> k \<notin> fst ` set m"
  by (rule map_of_eq_None_iff)

lemma keys_palette [simp]: "fst ` set (palette ks) = set ks"
  by (simp add: palette_def flip: set_map)

lemma length_palette [simp]: "length (palette ks) = length ks"
  by (simp add: palette_def)

lemma palette_snoc: "palette (ks @ [k]) = palette ks @ [(k, slot (length ks))]"
  by (simp add: palette_def)

lemma order_colors_palette: "distinct order \<Longrightarrow> order_colors order = palette order"
proof -
  assume d: "distinct order"
  have "foldl (\<lambda>m i. map_set (order ! i) (slot i) m) [] [0..<n] = palette (take n order)" if "n \<le> length order" for n
    using that
  proof (induction n)
    case (Suc n)
    have "order ! n \<notin> set (take n order)" using d Suc.prems by (auto simp: in_set_conv_nth nth_eq_iff_index_eq)
    with Suc show ?case by (simp add: take_Suc_conv_app_nth palette_snoc map_set_new)
  qed (simp add: palette_def)
  from this[of "length order"] show ?thesis by (simp add: order_colors_def)
qed

lemma fold_colors_palette:
  assumes "distinct ks" "distinct xs"
  shows "foldl (\<lambda>m st. if map_get m st \<noteq> None then m else map_set st (slot (length m)) m) (palette ks) xs =
    palette (ks @ filter (\<lambda>x. x \<notin> set ks) xs)"
  using assms
proof (induction xs arbitrary: ks)
  case (Cons x xs)
  show ?case
  proof (cases "x \<in> set ks")
    case True
    then have "map_get (palette ks) x \<noteq> None" by (simp add: map_get_None_iff)
    with True Cons show ?thesis by simp
  next
    case False
    then have "map_get (palette ks) x = None" by (simp add: map_get_None_iff)
    moreover have "filter (\<lambda>y. y \<notin> set (ks @ [x])) xs = filter (\<lambda>y. y \<notin> set ks) xs"
      using Cons.prems by (intro filter_cong) auto
    ultimately show ?thesis
      using False Cons.IH[of "ks @ [x]"] Cons.prems by (simp add: map_set_new palette_snoc)
  qed
qed simp

definition color_keys :: "string list \<Rightarrow> segment list \<Rightarrow> string list" where
  "color_keys order segs = order @ filter (\<lambda>x. x \<notin> set order) (first_occurrences (map sg_state segs))"

lemma segment_colors_palette:
  "distinct order \<Longrightarrow> segment_colors order segs = palette (color_keys order segs)"
  unfolding segment_colors_def color_keys_def
  by (simp only: order_colors_palette fold_colors_palette[OF _ distinct_first_occurrences])

lemma slot_inj: "i < 8 \<Longrightarrow> j < 8 \<Longrightarrow> slot i = slot j \<Longrightarrow> i = j"
proof -
  assume ij: "i < 8" "j < 8" "slot i = slot j"
  then have "SLOTS ! i = SLOTS ! j" by (simp add: slot_def SLOTS_def)
  moreover have "distinct SLOTS" by (simp add: SLOTS_def)
  ultimately show "i = j" using ij by (simp add: nth_eq_iff_index_eq SLOTS_def)
qed

lemma palette_get:
  assumes "map_get (palette ks) k = Some c"
  obtains i where "i < length ks" "ks ! i = k" "c = slot i"
  using map_of_SomeD[OF assms] by (auto simp: palette_def set_zip)

section \<open>Properties\<close>

text \<open>
  C11: the timeline of samples in order of time shows, at every time of its window, the state of the
  last sample that is not later, until the present for the last sample: some segment with that
  state covers the time, and no segment covers a time in any other case.
\<close>

theorem timeline_shows_state:
  assumes "sorted_wrt (\<le>) (sr_t d)" "finite_times (sr_t d)" "now / Fin 1000 = Fin w"
  shows "covers (segments (Fin p) (Fin q) now d) x s \<longleftrightarrow>
    (\<exists>i<length (sr_t d). in_force (Fin p) (Fin q) now (sr_t d) i x \<and> sample_state (sr_text d) i = s)"
  using segments_inv[OF assms, of "length (sr_t d)"] by (simp add: segments_def segs_inv_def)

text \<open>
  C22: the segments lie within the window, have a positive duration, follow one another without gap
  or overlap, and neighbours have different states, so runs of equal samples are merged.
\<close>

theorem timeline_segments_tidy:
  assumes "sorted_wrt (\<le>) (sr_t d)" "finite_times (sr_t d)" "now / Fin 1000 = Fin w"
  shows "tidy (Fin p) (Fin q) (segments (Fin p) (Fin q) now d)"
  using segments_inv[OF assms, of "length (sr_t d)"] by (simp add: segments_def segs_inv_def)

text \<open>
  Two different states of a row never share a colour while no more than eight states are in
  play and the prescribed order names each state once; and every segment has a colour.
\<close>

theorem timeline_colours_distinct:
  assumes "distinct order" "length (color_keys order segs) \<le> 8"
  shows "(\<forall>g\<in>set segs. map_get (segment_colors order segs) (sg_state g) \<noteq> None)
    \<and> (\<forall>x y c. map_get (segment_colors order segs) x = Some c \<and> map_get (segment_colors order segs) y = Some c \<longrightarrow> x = y)"
proof -
  let ?ks = "color_keys order segs"
  have P: "segment_colors order segs = palette ?ks" using assms(1) by (rule segment_colors_palette)
  have A: "map_get (palette ?ks) (sg_state g) \<noteq> None" if "g \<in> set segs" for g
    using that by (auto simp: map_get_None_iff color_keys_def)
  have B: "x = y" if xc: "map_get (palette ?ks) x = Some c" and yc: "map_get (palette ?ks) y = Some c" for x y c
  proof -
    obtain i where i: "i < length ?ks" "?ks ! i = x" "c = slot i" using xc by (rule palette_get)
    obtain j where "j < length ?ks" "?ks ! j = y" "c = slot j" using yc by (rule palette_get)
    then have "slot i = slot j" "i < 8" "j < 8" using i assms(2) by simp_all
    then have "i = j" by (intro slot_inj)
    with i \<open>?ks ! j = y\<close> show "x = y" by simp
  qed
  have "\<forall>g\<in>set segs. map_get (palette ?ks) (sg_state g) \<noteq> None" using A by (rule ballI)
  moreover have "\<forall>x y c. map_get (palette ?ks) x = Some c \<and> map_get (palette ?ks) y = Some c \<longrightarrow> x = y"
    by (intro allI impI, erule conjE, rule B, assumption+)
  ultimately show ?thesis unfolding P by (rule conjI)
qed

text \<open>
  The drawn geometry stays inside the bar: left edge and width of every segment are
  percentages between 0 and 100.
\<close>

theorem timeline_geometry:
  assumes "tidy (Fin p) (Fin q) segs" "g \<in> set segs" "\<bar>p\<bar> \<le> 1000000000000" "\<bar>q\<bar> \<le> 1000000000000"
    and "rnd p = p" "rnd q = q"
  shows "Fin 0 \<le> seg_left (Fin p) (Fin q - Fin p) g \<and> seg_left (Fin p) (Fin q - Fin p) g \<le> Fin 100
    \<and> Fin 0 \<le> seg_width (Fin q - Fin p) g \<and> seg_width (Fin q - Fin p) g \<le> Fin 100"
proof -
  have "Fin p \<le> sg_a g" "sg_a g < sg_b g" "sg_b g \<le> Fin q" using assms(1,2) by (auto simp: tidy_def)
  then obtain a b where ab: "sg_a g = Fin a" "sg_b g = Fin b" "p \<le> a" "a < b" "b \<le> q"
    by (cases "sg_a g"; cases "sg_b g") auto
  have pos: "0 < rnd (q - p)" using ab assms by (intro rnd_diff_pos) auto
  have le: "0 \<le> rnd (a - p)" "rnd (a - p) \<le> rnd (q - p)" "0 \<le> rnd (b - a)" "rnd (b - a) \<le> rnd (q - p)"
    using ab by (auto intro: rnd_nonneg rnd_mono)
  then have quot: "0 \<le> rnd (a - p) / rnd (q - p)" "rnd (a - p) / rnd (q - p) \<le> 1"
    "0 \<le> rnd (b - a) / rnd (q - p)" "rnd (b - a) / rnd (q - p) \<le> 1"
    using pos by (simp_all add: pos_divide_le_eq)
  have percent: "Fin 0 \<le> fl (rnd y * 100) \<and> fl (rnd y * 100) \<le> Fin 100" if "0 \<le> y" "y \<le> 1" for y
  proof -
    have "0 \<le> rnd y" "rnd y \<le> 1" using that by (auto intro: dbl.r_ge_0 dbl.r_le_1)
    then have "Fin 0 \<le> fl (rnd y * 100)" "fl (rnd y * 100) \<le> fl 100" by (auto intro: fl_mono simp del: fl_numerals)
    then show ?thesis by simp
  qed
  have f: "fl (a - p) = Fin (rnd (a - p))" "fl (b - a) = Fin (rnd (b - a))" "fl (q - p) = Fin (rnd (q - p))"
    using ab assms by (intro fl_small; simp)+
  have d: "fl (rnd (a - p) / rnd (q - p)) = Fin (rnd (rnd (a - p) / rnd (q - p)))"
    "fl (rnd (b - a) / rnd (q - p)) = Fin (rnd (rnd (b - a) / rnd (q - p)))"
    using quot by (intro fl_small; simp)+
  show ?thesis
    using pos percent[of "rnd (a - p) / rnd (q - p)"] percent[of "rnd (b - a) / rnd (q - p)"] quot
    by (simp add: seg_left_def seg_width_def ab f d)
qed

section \<open>The properties at a sample row\<close>

definition sample_states :: series where
  "sample_states = \<lparr> sr_t = [Fin 0, Fin 60, Fin 120], sr_v = [], sr_min = [], sr_max = [],
     sr_text = [Some ''ON'', Some ''ON'', Some ''OFF''] \<rparr>"

lemma sample_now: "Fin 200000 / Fin 1000 = Fin 200"
  by simp

lemma sample_states_ordered: "sorted_wrt (\<le>) (sr_t sample_states)" "finite_times (sr_t sample_states)"
  by (simp_all add: sample_states_def finite_times_def)

theorem timeline_shows_state_witness: "covers (segments (Fin 30) (Fin 300) (Fin 200000) sample_states) 100 ''ON''"
  unfolding timeline_shows_state[OF sample_states_ordered sample_now]
  by (rule exI[of _ 1]) (simp add: sample_states_def in_force_def seg_end_def sample_state_def)

theorem timeline_segments_tidy_witness:
  "tidy (Fin 30) (Fin 300) (segments (Fin 30) (Fin 300) (Fin 200000) sample_states)"
  by (rule timeline_segments_tidy[OF sample_states_ordered sample_now])

theorem timeline_colours_distinct_witness:
  "map_get (segment_colors [''ON'', ''OFF''] [\<lparr> sg_state = ''X'', sg_a = Fin 0, sg_b = Fin 1 \<rparr>]) ''X'' \<noteq> None"
  using timeline_colours_distinct[of "[''ON'', ''OFF'']" "[\<lparr> sg_state = ''X'', sg_a = Fin 0, sg_b = Fin 1 \<rparr>]"]
  by (simp add: color_keys_def first_occurrences_def)

theorem timeline_geometry_witness:
  "seg_width (Fin 300 - Fin 30) \<lparr> sg_state = ''ON'', sg_a = Fin 30, sg_b = Fin 120 \<rparr> \<le> Fin 100"
  using timeline_geometry[of 30 300 "[\<lparr> sg_state = ''ON'', sg_a = Fin 30, sg_b = Fin 120 \<rparr>]"]
  by (simp add: tidy_def)

end
