(* ===== verification/LineChart.thy ===== *)
theory LineChart
  imports Gaps
begin

text \<open>
  \<open>lineChart\<close> of \<open>charts.js\<close>: the legend, the tooltip, the axis labels, and the life of a chart as
  a state machine. The plots themselves are made by the vendored uPlot library: \<open>uplot_join\<close> stands
  for \<open>uPlot.join\<close>, and a plot is the number under which it was created. What the model tracks is
  which plots are created and destroyed and which series they show.
\<close>

section \<open>Texts of a chart\<close>

record line_series =
  ls_label :: string
  ls_color :: string
  ls_unit :: "string option"
  ls_decimals :: "nat option"
  ls_format :: "(jsnum \<Rightarrow> string) option"

definition shown_value :: "locale_format \<Rightarrow> line_series \<Rightarrow> jsnum option \<Rightarrow> string" where
  "shown_value loc s v =
     (case v of
        None \<Rightarrow> endash
      | Some x \<Rightarrow>
          (case ls_format s of
             Some f \<Rightarrow> f x
           | None \<Rightarrow> num loc (Some x) (nullish (ls_decimals s) 1) @ '' '' @ esc (Some (nullish (ls_unit s) []))))"

text \<open>\<open>css\<close> gives the value of a custom property of the page.\<close>

definition tooltip_row :: "locale_format \<Rightarrow> (string \<Rightarrow> string) \<Rightarrow> line_series \<Rightarrow> jsnum option \<Rightarrow> string" where
  \<open>tooltip_row loc css s v =
     ''<div class="r"><span><i style="background:'' @ css (ls_color s) @ ''"></i>'' @ esc (Some (ls_label s)) @
     ''</span><b>'' @ shown_value loc s v @ ''</b></div>''\<close>

record tooltip =
  tip_hidden :: bool
  tip_html :: string
  tip_left :: jsnum
  tip_top :: jsnum
  tip_flipped :: bool

text \<open>
  \<open>setCursor\<close>: \<open>columns\<close> are the data columns of the plot after the times, \<open>shown\<close> the visibility of
  its series, \<open>w\<close> and \<open>hgt\<close> the size of the plotting area.
\<close>

definition set_cursor ::
  "locale_format \<Rightarrow> (string \<Rightarrow> string) \<Rightarrow> (jsnum \<Rightarrow> string) \<Rightarrow> line_series list \<Rightarrow> bool list
   \<Rightarrow> jsnum list \<Rightarrow> jsnum option list list \<Rightarrow> jsnum \<Rightarrow> jsnum \<Rightarrow> jsnum \<Rightarrow> jsnum \<Rightarrow> nat option \<Rightarrow> tooltip \<Rightarrow> tooltip" where
  \<open>set_cursor loc css fmt_time series shown stamps columns w hgt left y idx tip =
     (case idx of
        None \<Rightarrow> tip\<lparr> tip_hidden := True \<rparr>
      | Some i \<Rightarrow>
          if left < Fin 0 then tip\<lparr> tip_hidden := True \<rparr>
          else \<lparr> tip_hidden = False,
                 tip_html = ''<div class="t">'' @ fmt_time (stamps ! i) @ ''</div>'' @
                   concat (map (\<lambda>k. if shown ! k then tooltip_row loc css (series ! k) (at_null (columns ! k) i) else [])
                            [0..<length series]),
                 tip_left = left,
                 tip_top = jmax (Fin 30) (jmin y (hgt - Fin 30)),
                 tip_flipped = w * fl (62/100) < left \<rparr>)\<close>

definition legend_html :: "(string \<Rightarrow> string) \<Rightarrow> nat list \<Rightarrow> line_series list \<Rightarrow> string" where
  \<open>legend_html css hidden series =
     concat (map (\<lambda>i. ''<span data-i="'' @ number_text (Fin (of_nat i)) @ ''" class="'' @
                     (if i \<in> set hidden then ''off'' else []) @ ''"><i style="background:'' @
                     css (ls_color (series ! i)) @ ''"></i>'' @ esc (Some (ls_label (series ! i))) @ ''</span>'')
              [0..<length series])\<close>

definition axis_values :: "locale_format \<Rightarrow> string \<Rightarrow> jsnum list \<Rightarrow> string list" where
  "axis_values loc unit vals =
     (let step_size = (case vals of a # b # _ \<Rightarrow> jabs (b - a) | _ \<Rightarrow> Fin 1);
          d = (if Fin 1 \<le> step_size then 0 else if fl (1/10) \<le> step_size then 1 else 2)
      in map (\<lambda>v. num loc (Some v) d @ (if unit \<noteq> [] \<and> utf16_length unit \<le> 3 then '' '' @ unit else [])) vals)"

section \<open>State\<close>

text \<open>
  \<open>ch_data\<close> is the joined table (\<open>null\<close> before data arrive and when no series has a sample),
  \<open>ch_plot\<close> the variable \<open>u\<close>, \<open>ch_visible\<close> what that plot shows, \<open>ch_registered\<close> membership in the
  module's set \<open>charts\<close>, which forwards the theme changes.
\<close>

record 'd chart =
  ch_series :: nat
  ch_data :: "'d option"
  ch_hidden :: "nat list"
  ch_plot :: "nat option"
  ch_visible :: "bool list"
  ch_created :: nat
  ch_destroyed :: "nat list"
  ch_observed :: bool
  ch_registered :: bool

definition new_chart :: "nat \<Rightarrow> 'd chart" where
  "new_chart n = \<lparr> ch_series = n, ch_data = None, ch_hidden = [], ch_plot = None, ch_visible = [],
     ch_created = 0, ch_destroyed = [], ch_observed = True, ch_registered = True \<rparr>"

definition destroy_plot :: "'d chart \<Rightarrow> 'd chart" where
  "destroy_plot c = (case ch_plot c of None \<Rightarrow> c | Some u \<Rightarrow> c\<lparr> ch_destroyed := ch_destroyed c @ [u] \<rparr>)"

text \<open>\<open>points d\<close> is \<open>data[0].length\<close>.\<close>

definition build :: "('d \<Rightarrow> nat) \<Rightarrow> 'd chart \<Rightarrow> 'd chart" where
  "build points c =
     (let c = destroy_plot c in
      if (case ch_data c of None \<Rightarrow> True | Some d \<Rightarrow> points d = 0) then c\<lparr> ch_plot := None \<rparr>
      else c\<lparr> ch_plot := Some (ch_created c),
              ch_visible := map (\<lambda>i. i \<notin> set (ch_hidden c)) [0..<ch_series c],
              ch_created := Suc (ch_created c) \<rparr>)"

type_synonym data_table = "jsnum list \<times> jsnum option list"

definition prepare :: "data_table list \<Rightarrow> data_table list" where
  "prepare tables = map (\<lambda>(t, v). with_gaps t v (Fin (20 * 60))) tables"

definition set_data :: "(data_table list \<Rightarrow> 'd) \<Rightarrow> ('d \<Rightarrow> nat) \<Rightarrow> data_table list \<Rightarrow> 'd chart \<Rightarrow> 'd chart" where
  "set_data uplot_join points tables c =
     (let prepared = prepare tables;
          data = (if \<exists>p\<in>set prepared. fst p \<noteq> [] then Some (uplot_join prepared) else None)
      in build points (c\<lparr> ch_data := data \<rparr>))"

definition rebuild :: "('d \<Rightarrow> nat) \<Rightarrow> 'd chart \<Rightarrow> 'd chart" where
  "rebuild points c = build points c"

definition theme_change :: "('d \<Rightarrow> nat) \<Rightarrow> 'd chart \<Rightarrow> 'd chart" where
  "theme_change points c = (if ch_registered c then rebuild points c else c)"

text \<open>A click on an entry of the legend.\<close>

definition toggle_series :: "nat \<Rightarrow> 'd chart \<Rightarrow> 'd chart" where
  "toggle_series i c =
     (let hidden = (if i \<in> set (ch_hidden c) then filter (\<lambda>k. k \<noteq> i) (ch_hidden c) else ch_hidden c @ [i])
      in c\<lparr> ch_hidden := hidden,
            ch_visible := (case ch_plot c of None \<Rightarrow> ch_visible c | Some u \<Rightarrow> (ch_visible c)[i := i \<notin> set hidden]) \<rparr>)"

definition destroy_chart :: "'d chart \<Rightarrow> 'd chart" where
  "destroy_chart c = (destroy_plot c)\<lparr> ch_observed := False, ch_registered := False \<rparr>"

datatype chart_event = Ch_data "data_table list" | Ch_theme | Ch_toggle nat

fun chart_step :: "(data_table list \<Rightarrow> 'd) \<Rightarrow> ('d \<Rightarrow> nat) \<Rightarrow> 'd chart \<Rightarrow> chart_event \<Rightarrow> 'd chart" where
  "chart_step uplot_join points c (Ch_data ts) = set_data uplot_join points ts c"
| "chart_step uplot_join points c Ch_theme = theme_change points c"
| "chart_step uplot_join points c (Ch_toggle i) = toggle_series i c"

fun chart_enabled :: "'d chart \<Rightarrow> chart_event \<Rightarrow> bool" where
  "chart_enabled c (Ch_toggle i) = (i < ch_series c)"
| "chart_enabled c e = True"

section \<open>The invariant\<close>

text \<open>
  Every plot created before the live one has been destroyed, once; the live plot shows the series
  that are not hidden; and there is a live plot exactly when there are data points.
\<close>

definition chart_ok :: "('d \<Rightarrow> nat) \<Rightarrow> nat \<Rightarrow> 'd chart \<Rightarrow> bool" where
  "chart_ok points n c \<longleftrightarrow>
     ch_series c = n \<and> ch_registered c \<and>
     (case ch_plot c of
        None \<Rightarrow> ch_destroyed c = [0..<ch_created c]
      | Some u \<Rightarrow> ch_created c = Suc u \<and> ch_destroyed c = [0..<u] \<and>
                  ch_visible c = map (\<lambda>i. i \<notin> set (ch_hidden c)) [0..<n]) \<and>
     (ch_plot c = None \<longleftrightarrow> (case ch_data c of None \<Rightarrow> True | Some d \<Rightarrow> points d = 0))"

lemma build_ok:
  assumes "ch_series c = n" "ch_registered c"
    and "case ch_plot c of None \<Rightarrow> ch_destroyed c = [0..<ch_created c]
         | Some u \<Rightarrow> ch_created c = Suc u \<and> ch_destroyed c = [0..<u]"
  shows "chart_ok points n (build points c)"
  using assms by (auto simp: chart_ok_def build_def destroy_plot_def Let_def split: option.splits)

lemma map_upt_update:
  assumes "i < n" "\<And>k. k \<noteq> i \<Longrightarrow> f k = g k"
  shows "(map f [0..<n])[i := g i] = map g [0..<n]"
proof (rule nth_equalityI)
  fix k assume "k < length ((map f [0..<n])[i := g i])"
  then show "(map f [0..<n])[i := g i] ! k = map g [0..<n] ! k" using assms by (cases "k = i") auto
qed simp

lemma hidden_toggle:
  "k \<in> set (ch_hidden (toggle_series i c)) \<longleftrightarrow> (k \<in> set (ch_hidden c)) \<noteq> (k = i)"
  by (simp add: toggle_series_def Let_def) blast

lemma visible_toggle:
  assumes "ch_plot c = Some u" "ch_visible c = map (\<lambda>k. k \<notin> set (ch_hidden c)) [0..<n]" "i < n"
  shows "ch_visible (toggle_series i c) = map (\<lambda>k. k \<notin> set (ch_hidden (toggle_series i c))) [0..<n]"
proof -
  have "ch_visible (toggle_series i c) = (ch_visible c)[i := i \<notin> set (ch_hidden (toggle_series i c))]"
    using assms(1) by (simp add: toggle_series_def Let_def)
  also have "\<dots> = map (\<lambda>k. k \<notin> set (ch_hidden (toggle_series i c))) [0..<n]"
    unfolding assms(2) using assms(3) by (rule map_upt_update) (simp add: hidden_toggle)
  finally show ?thesis .
qed

lemma toggle_others [simp]:
  "ch_series (toggle_series i c) = ch_series c" "ch_registered (toggle_series i c) = ch_registered c"
  "ch_plot (toggle_series i c) = ch_plot c" "ch_created (toggle_series i c) = ch_created c"
  "ch_destroyed (toggle_series i c) = ch_destroyed c" "ch_data (toggle_series i c) = ch_data c"
  by (simp_all add: toggle_series_def Let_def)

lemma toggle_ok: "chart_ok points n c \<Longrightarrow> i < n \<Longrightarrow> chart_ok points n (toggle_series i c)"
  unfolding chart_ok_def by (cases "ch_plot c") (auto simp: visible_toggle)

lemma chart_ok_step:
  "chart_ok points n c \<Longrightarrow> chart_enabled c e \<Longrightarrow> chart_ok points n (chart_step uplot_join points c e)"
proof (cases e)
  case (Ch_data ts)
  assume "chart_ok points n c"
  then show ?thesis unfolding Ch_data chart_step.simps set_data_def Let_def
    by (intro build_ok) (auto simp: chart_ok_def split: option.splits)
next
  case Ch_theme
  assume "chart_ok points n c"
  then show ?thesis
    by (auto simp: Ch_theme theme_change_def rebuild_def chart_ok_def[of _ _ c] split: option.splits intro!: build_ok)
next
  case (Ch_toggle i)
  assume "chart_ok points n c" "chart_enabled c e"
  then have "i < n" by (simp add: Ch_toggle chart_ok_def)
  then show ?thesis using \<open>chart_ok points n c\<close> by (simp add: Ch_toggle toggle_ok)
qed

interpretation chart_run: machine "chart_step uplot_join points" chart_enabled "chart_ok points n"
  for uplot_join points n
  by unfold_locales (rule chart_ok_step)

lemma new_chart_ok: "chart_ok points n (new_chart n)"
  by (simp add: chart_ok_def new_chart_def)

text \<open>How often the legend entry of a series was clicked.\<close>

definition clicks_on :: "nat \<Rightarrow> chart_event list \<Rightarrow> nat" where
  "clicks_on i es = length (filter (\<lambda>e. e = Ch_toggle i) es)"

lemma hidden_unless_toggled:
  "i \<in> set (ch_hidden (chart_step uplot_join points c e)) \<longleftrightarrow> (i \<in> set (ch_hidden c)) \<noteq> (e = Ch_toggle i)"
  by (cases e) (auto simp: hidden_toggle set_data_def theme_change_def rebuild_def build_def destroy_plot_def
      Let_def split: option.splits)

lemma hidden_parity:
  "i \<in> set (ch_hidden (run (chart_step uplot_join points) c es)) \<longleftrightarrow> (i \<in> set (ch_hidden c)) \<noteq> odd (clicks_on i es)"
  by (induction es arbitrary: c) (auto simp: clicks_on_def hidden_unless_toggled simp del: chart_step.simps)

section \<open>Properties\<close>

text \<open>
  C24: plots are never leaked and never destroyed twice: after any run of data, theme changes and
  legend clicks, destroying the chart leaves every plot it ever created destroyed exactly once, and
  the chart no longer hears theme changes.
\<close>

theorem plots_destroyed_once:
  assumes "enabled_run chart_enabled (chart_step uplot_join points) (new_chart n) es"
    and "c = destroy_chart (run (chart_step uplot_join points) (new_chart n) es)"
  shows "ch_destroyed c = [0..<ch_created c] \<and> theme_change points c = c"
proof -
  have "chart_ok points n (run (chart_step uplot_join points) (new_chart n) es)"
    using chart_run.inv_run[OF new_chart_ok assms(1)] .
  then show ?thesis
    by (auto simp: assms(2) chart_ok_def destroy_chart_def destroy_plot_def theme_change_def split: option.splits)
qed

text \<open>
  What the user hides stays hidden: whatever data and theme changes come in between, the live plot
  shows a series exactly when its legend entry was clicked an even number of times, and there is a
  live plot exactly when the last data had points.
\<close>

theorem legend_survives_rebuilds:
  assumes "enabled_run chart_enabled (chart_step uplot_join points) (new_chart n) es"
    and "c = run (chart_step uplot_join points) (new_chart n) es"
  shows "(ch_plot c = None \<longleftrightarrow> (case ch_data c of None \<Rightarrow> True | Some d \<Rightarrow> points d = 0))
    \<and> (ch_plot c \<noteq> None \<longrightarrow> ch_visible c = map (\<lambda>i. even (clicks_on i es)) [0..<n])"
proof -
  have "chart_ok points n c" unfolding assms(2) using chart_run.inv_run[OF new_chart_ok assms(1)] .
  moreover have "i \<in> set (ch_hidden c) \<longleftrightarrow> odd (clicks_on i es)" for i
    unfolding assms(2) hidden_parity by (simp add: new_chart_def)
  ultimately show ?thesis by (auto simp: chart_ok_def split: option.splits)
qed

section \<open>The properties at a sample run\<close>

definition sample_run :: "chart_event list" where
  "sample_run = [Ch_data [([Fin 0], [Some (Fin 1)])], Ch_toggle 0, Ch_theme]"

lemma sample_run_enabled:
  "enabled_run chart_enabled (chart_step (\<lambda>ts. ts) length) (new_chart 1) sample_run"
  by (simp add: sample_run_def new_chart_def set_data_def build_def destroy_plot_def prepare_def with_gaps_def Let_def)

theorem plots_destroyed_once_witness:
  "ch_destroyed (destroy_chart (run (chart_step (\<lambda>ts. ts) length) (new_chart 1) sample_run)) = [0, 1]"
  using plots_destroyed_once[OF sample_run_enabled refl]
  by (simp add: sample_run_def new_chart_def set_data_def build_def destroy_plot_def prepare_def with_gaps_def
      destroy_chart_def toggle_series_def theme_change_def rebuild_def Let_def upt_rec)

theorem legend_survives_rebuilds_witness:
  "ch_visible (run (chart_step (\<lambda>ts. ts) length) (new_chart 1) sample_run) = [False]"
  using legend_survives_rebuilds[OF sample_run_enabled refl]
  by (simp add: sample_run_def new_chart_def set_data_def build_def destroy_plot_def prepare_def with_gaps_def
      toggle_series_def theme_change_def rebuild_def clicks_on_def Let_def)

end
