(* ===== verification/Controls.thy ===== *)
theory Controls
  imports Store
begin

text \<open>
  \<open>controls.js\<close>: the widgets of writable entities (switch, segmented choice, number stepper) and
  their listeners. The stepper is debounced with \<open>setTimeout\<close>, so the model has a clock, the
  pending timers in creation order, the commands in flight, and \<open>pendingNumbers\<close>. What the
  listeners do to the page is recorded as a list of effects, the commands they post as \<open>k_sent\<close>.
\<close>

section \<open>Markup of a widget\<close>

definition disabled_attr :: "store \<Rightarrow> entity \<Rightarrow> string" where
  "disabled_attr st e =
     (if \<not> e_writable e \<or> s_read_only (st_status st) = Some True then ''disabled'' else [])"

definition switch_widget :: "store \<Rightarrow> entity \<Rightarrow> string" where
  \<open>switch_widget st e =
     ''<label class="switch"><input type="checkbox" data-ctl="'' @ esc (Some (e_id e)) @ ''" '' @
     (if opt_truthy (e_value e) then ''checked'' else []) @ '' '' @ disabled_attr st e @
     '' aria-label="'' @ esc (Some (e_name e)) @ ''"><span></span></label>''\<close>

definition option_button :: "store \<Rightarrow> entity \<Rightarrow> string \<Rightarrow> string" where
  \<open>option_button st e opt =
     ''<button data-ctl="'' @ esc (Some (e_id e)) @ ''" data-opt="'' @ esc (Some opt) @ ''" class="'' @
     (if e_text e = Some opt then ''active'' else []) @ ''" '' @ disabled_attr st e @ ''>'' @
     esc (Some opt) @ ''</button>''\<close>

definition choice_widget :: "store \<Rightarrow> entity \<Rightarrow> string" where
  \<open>choice_widget st e =
     ''<div class="segmented" role="radiogroup" aria-label="'' @ esc (Some (e_name e)) @ ''">'' @
     concat (map (option_button st e) (e_options e)) @ ''</div>''\<close>

text \<open>\<open>pend\<close> is the entry of \<open>pendingNumbers\<close>; a comparison coerces a \<open>null\<close> value to 0.\<close>

definition stepper_widget :: "locale_format \<Rightarrow> store \<Rightarrow> jsnum option \<Rightarrow> entity \<Rightarrow> string" where
  \<open>stepper_widget loc st pend e =
     (let v = (case pend of Some p \<Rightarrow> Some p | None \<Rightarrow> e_value e);
          step = num_or (e_step e) 1;
          decimals = max (decimals_for (e_unit e) v) (if num_truthy (mod_one step) then 1 else 0);
          dis = disabled_attr st e;
          at_min = (case e_min e of Some m \<Rightarrow> nz v \<le> m | None \<Rightarrow> False);
          at_max = (case e_max e of Some m \<Rightarrow> m \<le> nz v | None \<Rightarrow> False)
      in ''<div class="stepper '' @ (if pend \<noteq> None then ''pending'' else []) @ ''" data-stepper="'' @
         esc (Some (e_id e)) @ ''">'' @ [CHR 0x0A] @
         ''    <button data-ctl="'' @ esc (Some (e_id e)) @ ''" data-step="-1" '' @
         (if dis \<noteq> [] then dis else if at_min then ''disabled'' else []) @
         '' aria-label="Decrease">'' @ minus_sign @ ''</button>'' @ [CHR 0x0A] @
         ''    <output>'' @ num loc v decimals @ ''<small>'' @ esc (Some (nullish (e_unit e) [])) @
         ''</small></output>'' @ [CHR 0x0A] @
         ''    <button data-ctl="'' @ esc (Some (e_id e)) @ ''" data-step="1" '' @
         (if dis \<noteq> [] then dis else if at_max then ''disabled'' else []) @
         '' aria-label="Increase">+</button>'' @ [CHR 0x0A] @ ''  </div>'')\<close>

definition widget :: "locale_format \<Rightarrow> store \<Rightarrow> (string \<Rightarrow> jsnum option) \<Rightarrow> entity option \<Rightarrow> string" where
  "widget loc st pending oe =
     (case oe of
        None \<Rightarrow> []
      | Some e \<Rightarrow>
          (case e_kind e of
             Binary \<Rightarrow> switch_widget st e
           | Enum \<Rightarrow> choice_widget st e
           | Numeric \<Rightarrow> stepper_widget loc st (pending (e_id e)) e))"

section \<open>State of the listeners\<close>

text \<open>
  The two \<open>setTimeout\<close> callbacks of the stepper: the debounced command (700 ms) and the end of
  the wait for a confirmation (15 s).
\<close>

datatype task = Send_task entity jsnum | Expire_task entity nat

record timer =
  t_id :: nat
  t_delay :: nat
  t_due :: nat
  t_task :: task

datatype command_value = Text_value string | Number_value jsnum

datatype request = Check_request entity | Option_request entity | Number_request entity nat

datatype effect =
    Toast string string
  | Rerender string
  | Revert_checkbox string
  | Mark_active string string

record ctl =
  k_now :: nat
  k_pending :: "(string, jsnum \<times> nat) jsmap"
  k_timers :: "timer list"
  k_next_timer :: nat
  k_requests :: "(nat \<times> request \<times> command_value) list"
  k_next_request :: nat
  k_sent :: "(string \<times> command_value) list"
  k_effects :: "effect list"

definition init_ctl :: ctl where
  "init_ctl = \<lparr> k_now = 0, k_pending = [], k_timers = [], k_next_timer = 0, k_requests = [],
     k_next_request = 0, k_sent = [], k_effects = [] \<rparr>"

definition pending_value :: "ctl \<Rightarrow> string \<Rightarrow> jsnum option" where
  "pending_value c i = map_option fst (map_get (k_pending c) i)"

definition effect :: "effect \<Rightarrow> ctl \<Rightarrow> ctl" where
  "effect f c = c\<lparr> k_effects := k_effects c @ [f] \<rparr>"

definition set_timeout :: "nat \<Rightarrow> task \<Rightarrow> ctl \<Rightarrow> ctl" where
  "set_timeout d tk c =
     c\<lparr> k_timers := k_timers c @ [\<lparr> t_id = k_next_timer c, t_delay = d, t_due = k_now c + d, t_task = tk \<rparr>],
        k_next_timer := Suc (k_next_timer c) \<rparr>"

definition clear_timeout :: "nat \<Rightarrow> ctl \<Rightarrow> ctl" where
  "clear_timeout t c = c\<lparr> k_timers := filter (\<lambda>x. t_id x \<noteq> t) (k_timers c) \<rparr>"

section \<open>Sending a command\<close>

definition entity_of_request :: "request \<Rightarrow> entity" where
  "entity_of_request r = (case r of Check_request e \<Rightarrow> e | Option_request e \<Rightarrow> e | Number_request e t \<Rightarrow> e)"

text \<open>\<open>await api.command(e.id, value)\<close>: the request is posted, its answer is a later event.\<close>

definition post_command :: "request \<Rightarrow> command_value \<Rightarrow> ctl \<Rightarrow> ctl" where
  "post_command r v c =
     c\<lparr> k_sent := k_sent c @ [(e_id (entity_of_request r), v)],
        k_requests := k_requests c @ [(k_next_request c, r, v)],
        k_next_request := Suc (k_next_request c) \<rparr>"

definition sent_text :: "locale_format \<Rightarrow> entity \<Rightarrow> command_value \<Rightarrow> string" where
  "sent_text loc e v =
     e_name e @ '' '' @ arrow @ '' '' @
     (case v of
        Number_value x \<Rightarrow>
          num loc (Some x) (if num_truthy (mod_one (nz (e_step e))) then 1 else 0) @
          (if nullish (e_unit e) [] \<noteq> [] then '' '' @ nullish (e_unit e) [] else [])
      | Text_value s \<Rightarrow> s)"

text \<open>The rest of \<open>send\<close> and of its caller, when the answer arrives: \<open>None\<close> is success.\<close>

definition on_reply :: "locale_format \<Rightarrow> request \<Rightarrow> command_value \<Rightarrow> string option \<Rightarrow> ctl \<Rightarrow> ctl" where
  "on_reply loc r v err c =
     (let e = entity_of_request r;
          c' = (case err of
                  None \<Rightarrow> effect (Toast (sent_text loc e v) ''ok'') c
                | Some m \<Rightarrow> effect (Toast (e_name e @ '': '' @ m) ''err'') c)
      in case r of
           Check_request e \<Rightarrow> if err = None then c' else effect (Revert_checkbox (e_id e)) c'
         | Option_request e \<Rightarrow> if err = None then c' else effect (Rerender (e_id e)) c'
         | Number_request e t \<Rightarrow> set_timeout 15000 (Expire_task e t) c')"

section \<open>The listeners\<close>

definition on_change :: "store \<Rightarrow> string \<Rightarrow> bool \<Rightarrow> ctl \<Rightarrow> ctl" where
  "on_change st i checked c =
     (case entity_by_id st i of
        None \<Rightarrow> c
      | Some e \<Rightarrow> post_command (Check_request e) (Text_value (if checked then ''ON'' else ''OFF'')) c)"

definition click_option :: "entity \<Rightarrow> string \<Rightarrow> ctl \<Rightarrow> ctl" where
  "click_option e opt c = post_command (Option_request e) (Text_value opt) (effect (Mark_active (e_id e) opt) c)"

definition round_cents :: "jsnum \<Rightarrow> jsnum" where
  "round_cents x = jround (x * Fin 100) / Fin 100"

definition clamp_to :: "entity \<Rightarrow> jsnum \<Rightarrow> jsnum" where
  "clamp_to e x =
     (let y = (case e_min e of Some m \<Rightarrow> jmax m x | None \<Rightarrow> x)
      in case e_max e of Some m \<Rightarrow> jmin m y | None \<Rightarrow> y)"

definition next_value :: "entity \<Rightarrow> jsnum option \<Rightarrow> jsnum \<Rightarrow> jsnum" where
  "next_value e pend dir =
     (let step = num_or (e_step e) 1 * dir;
          current = nullish (nullish_opt pend (nullish_opt (e_value e) (e_min e))) 0
      in clamp_to e (round_cents (current + step)))"

definition click_step :: "entity \<Rightarrow> jsnum \<Rightarrow> ctl \<Rightarrow> ctl" where
  "click_step e dir c =
     (let v = next_value e (pending_value c (e_id e)) dir;
          c1 = (case map_get (k_pending c) (e_id e) of Some (p, t) \<Rightarrow> clear_timeout t c | None \<Rightarrow> c);
          t = k_next_timer c1;
          c2 = set_timeout 700 (Send_task e v) c1
      in effect (Rerender (e_id e)) (c2\<lparr> k_pending := map_set (e_id e) (v, t) (k_pending c2) \<rparr>))"

text \<open>A button of a widget: its \<open>data-ctl\<close>, \<open>data-opt\<close> and \<open>data-step\<close>, and whether it is disabled.\<close>

record button =
  b_ctl :: string
  b_opt :: "string option"
  b_step :: jsnum
  b_disabled :: bool

definition on_click :: "store \<Rightarrow> button \<Rightarrow> ctl \<Rightarrow> ctl" where
  "on_click st b c =
     (if b_disabled b then c
      else case entity_by_id st (b_ctl b) of
             None \<Rightarrow> c
           | Some e \<Rightarrow>
               (case b_opt b of
                  Some opt \<Rightarrow> click_option e opt c
                | None \<Rightarrow> click_step e (b_step b) c))"

definition run_task :: "timer \<Rightarrow> ctl \<Rightarrow> ctl" where
  "run_task x c =
     (case t_task x of
        Send_task e v \<Rightarrow> post_command (Number_request e (t_id x)) (Number_value v) c
      | Expire_task e t \<Rightarrow>
          if map_option snd (map_get (k_pending c) (e_id e)) = Some t
          then effect (Rerender (e_id e)) (c\<lparr> k_pending := map_delete (e_id e) (k_pending c) \<rparr>)
          else c)"

text \<open>\<open>confirmState\<close>: a state message near the pending value ends the wait.\<close>

definition confirm_state :: "entity \<Rightarrow> ctl \<Rightarrow> ctl" where
  "confirm_state e c =
     (case (pending_value c (e_id e), e_value e) of
        (Some p, Some v) \<Rightarrow>
          if jabs (v - p) < fl (1 / 1000000) then c\<lparr> k_pending := map_delete (e_id e) (k_pending c) \<rparr> else c
      | _ \<Rightarrow> c)"

section \<open>Runs\<close>

text \<open>
  A user event carries the entity it found in the store. The browser fires a timer once it is
  due and every timer set before it with at most its delay has fired.
\<close>

datatype ctl_event =
    Ev_check entity bool
  | Ev_option entity string
  | Ev_step entity jsnum
  | Ev_fire nat
  | Ev_reply nat "string option"
  | Ev_confirm entity
  | Ev_elapse nat

definition without :: "nat \<Rightarrow> 'a list \<Rightarrow> 'a list" where
  "without i xs = take i xs @ drop (Suc i) xs"

fun ctl_step :: "locale_format \<Rightarrow> ctl \<Rightarrow> ctl_event \<Rightarrow> ctl" where
  "ctl_step loc c (Ev_check e b) =
     post_command (Check_request e) (Text_value (if b then ''ON'' else ''OFF'')) c"
| "ctl_step loc c (Ev_option e opt) = click_option e opt c"
| "ctl_step loc c (Ev_step e d) = click_step e d c"
| "ctl_step loc c (Ev_fire i) = run_task (k_timers c ! i) (c\<lparr> k_timers := without i (k_timers c) \<rparr>)"
| "ctl_step loc c (Ev_reply i err) =
     (case k_requests c ! i of (n, r, v) \<Rightarrow> on_reply loc r v err (c\<lparr> k_requests := without i (k_requests c) \<rparr>))"
| "ctl_step loc c (Ev_confirm e) = confirm_state e c"
| "ctl_step loc c (Ev_elapse n) = c\<lparr> k_now := k_now c + n \<rparr>"

fun ctl_enabled :: "ctl \<Rightarrow> ctl_event \<Rightarrow> bool" where
  "ctl_enabled c (Ev_fire i) =
     (i < length (k_timers c) \<and> t_due (k_timers c ! i) \<le> k_now c \<and>
      (\<forall>x\<in>set (take i (k_timers c)). t_delay (k_timers c ! i) < t_delay x))"
| "ctl_enabled c (Ev_reply i err) = (i < length (k_requests c))"
| "ctl_enabled c (Ev_step e d) = (d = Fin 1 \<or> d = Fin (- 1))"
| "ctl_enabled c e = True"

section \<open>Limits\<close>

text \<open>An entity whose limits and value are finite.\<close>

fun finite_num :: "jsnum \<Rightarrow> bool" where
  "finite_num (Fin a) = True"
| "finite_num x = False"

fun finite_opt :: "jsnum option \<Rightarrow> bool" where
  "finite_opt None = True"
| "finite_opt (Some x) = finite_num x"

definition sane :: "(string \<Rightarrow> rat \<times> rat) \<Rightarrow> entity \<Rightarrow> bool" where
  "sane bnd e \<longleftrightarrow> (case bnd (e_id e) of (lo, hi) \<Rightarrow>
     lo \<le> hi \<and> e_min e = Some (Fin lo) \<and> e_max e = Some (Fin hi) \<and> finite_opt (e_value e)
     \<and> (case e_step e of None \<Rightarrow> True | Some s \<Rightarrow> is_double s \<and> finite_num s))"

fun in_limits :: "rat \<times> rat \<Rightarrow> jsnum \<Rightarrow> bool" where
  "in_limits (lo, hi) (Fin a) = (lo \<le> a \<and> a \<le> hi)"
| "in_limits l x = False"

lemma round_cents_not_NaN: "x \<noteq> NaN \<Longrightarrow> round_cents x \<noteq> NaN"
proof -
  assume "x \<noteq> NaN"
  then have "x * Fin 100 \<noteq> NaN" by (cases x) auto
  then show ?thesis unfolding round_cents_def by (cases "x * Fin 100") auto
qed

lemma clamp_in_limits: "sane bnd e \<Longrightarrow> x \<noteq> NaN \<Longrightarrow> in_limits (bnd (e_id e)) (clamp_to e x)"
  by (cases x) (auto simp: sane_def clamp_to_def Let_def jmax_def jmin_def split: prod.splits)

lemma step_finite:
  assumes "sane bnd e" "d = Fin 1 \<or> d = Fin (- 1)"
  shows "finite_num (num_or (e_step e) 1 * d)"
proof -
  have "is_double (num_or (e_step e) 1) \<and> finite_num (num_or (e_step e) 1)"
    using assms(1) by (auto simp: sane_def num_or_def one_jsnum_def overflow_def split: prod.splits option.splits)
  then obtain s where s: "num_or (e_step e) 1 = Fin s" "rnd s = s" "\<bar>s\<bar> < overflow"
    by (cases "num_or (e_step e) 1") auto
  then have "fl s = Fin s" "fl (- s) = Fin (- s)"
    by (auto simp: fl_def Let_def rnd_uminus abs_less_iff)
  with s assms(2) show ?thesis by auto
qed

lemma next_value_in_limits:
  assumes "sane bnd e" "d = Fin 1 \<or> d = Fin (- 1)"
    and "\<And>v. p = Some v \<Longrightarrow> in_limits (bnd (e_id e)) v"
  shows "in_limits (bnd (e_id e)) (next_value e p d)"
proof -
  let ?cur = "nullish (nullish_opt p (nullish_opt (e_value e) (e_min e))) 0"
  have "finite_num ?cur"
  proof (cases p)
    case None
    then show ?thesis using assms(1) by (cases "e_value e") (auto simp: sane_def split: prod.splits)
  next
    case (Some v)
    with assms(3)[of v] show ?thesis by (cases v; cases "bnd (e_id e)") auto
  qed
  then obtain a where a: "?cur = Fin a" by (cases ?cur) auto
  from step_finite[OF assms(1,2)] obtain b where b: "num_or (e_step e) 1 * d = Fin b"
    by (cases "num_or (e_step e) 1 * d") auto
  have "?cur + num_or (e_step e) 1 * d \<noteq> NaN" by (simp add: a b)
  then show ?thesis unfolding next_value_def Let_def
    by (intro clamp_in_limits[OF assms(1)] round_cents_not_NaN)
qed

text \<open>What is pending, scheduled or sent stays within the limits.\<close>

definition limits_ok :: "(string \<Rightarrow> rat \<times> rat) \<Rightarrow> ctl \<Rightarrow> bool" where
  "limits_ok bnd c \<longleftrightarrow>
     (\<forall>i v t. map_get (k_pending c) i = Some (v, t) \<longrightarrow> in_limits (bnd i) v) \<and>
     (\<forall>x e v. x \<in> set (k_timers c) \<longrightarrow> t_task x = Send_task e v \<longrightarrow> in_limits (bnd (e_id e)) v) \<and>
     (\<forall>i v. (i, Number_value v) \<in> set (k_sent c) \<longrightarrow> in_limits (bnd i) v)"

fun sane_event :: "(string \<Rightarrow> rat \<times> rat) \<Rightarrow> ctl_event \<Rightarrow> bool" where
  "sane_event bnd (Ev_step e d) = sane bnd e"
| "sane_event bnd e = True"

lemmas listener_defs = effect_def set_timeout_def clear_timeout_def post_command_def on_reply_def
  click_option_def run_task_def confirm_state_def entity_of_request_def Let_def

lemma set_without: "set (without i xs) \<subseteq> set xs"
  by (auto simp: without_def dest: in_set_takeD in_set_dropD)

lemma set_without_cover: "i < length xs \<Longrightarrow> set xs \<subseteq> insert (xs ! i) (set (without i xs))"
  by (subst id_take_nth_drop[of i xs]) (auto simp: without_def)

lemma limits_step:
  assumes "limits_ok bnd c" "ctl_enabled c ev" "sane_event bnd ev"
  shows "limits_ok bnd (ctl_step loc c ev)"
proof (cases ev)
  case (Ev_step e d)
  have "in_limits (bnd (e_id e)) (next_value e (pending_value c (e_id e)) d)"
    using assms by (intro next_value_in_limits) (auto simp: Ev_step limits_ok_def pending_value_def)
  then show ?thesis using assms(1)
    by (auto simp: Ev_step click_step_def listener_defs limits_ok_def js_map split: option.splits)
next
  case (Ev_fire i)
  with assms(2) have "i < length (k_timers c)" by simp
  then have "k_timers c ! i \<in> set (k_timers c)" by simp
  then show ?thesis using assms(1) set_without[of i "k_timers c"]
    by (auto simp: Ev_fire listener_defs limits_ok_def js_map split: task.splits)
next
  case (Ev_reply i err)
  then show ?thesis using assms(1)
    by (auto simp: listener_defs limits_ok_def split: prod.splits request.splits option.splits)
qed (use assms in \<open>auto simp: listener_defs limits_ok_def js_map split: option.splits\<close>)

section \<open>Every pending value is on its way\<close>

text \<open>
  The command for a pending value is still scheduled, or it has been posted and either its
  answer or the end of the wait is outstanding; so the pending mark never outlives its cause.
\<close>

definition scheduled :: "ctl \<Rightarrow> string \<Rightarrow> jsnum \<Rightarrow> nat \<Rightarrow> bool" where
  "scheduled c i v t = (\<exists>x e. x \<in> set (k_timers c) \<and> t_id x = t \<and> t_task x = Send_task e v \<and> e_id e = i)"

definition awaiting :: "ctl \<Rightarrow> string \<Rightarrow> jsnum \<Rightarrow> nat \<Rightarrow> bool" where
  "awaiting c i v t \<longleftrightarrow> (i, Number_value v) \<in> set (k_sent c) \<and>
     ((\<exists>n e. (n, Number_request e t, Number_value v) \<in> set (k_requests c) \<and> e_id e = i)
      \<or> (\<exists>x e. x \<in> set (k_timers c) \<and> t_task x = Expire_task e t \<and> e_id e = i))"

definition ctl_ok :: "ctl \<Rightarrow> bool" where
  "ctl_ok c \<longleftrightarrow>
     distinct (map t_id (k_timers c)) \<and> (\<forall>x\<in>set (k_timers c). t_id x < k_next_timer c) \<and>
     (\<forall>i v t. map_get (k_pending c) i = Some (v, t) \<longrightarrow>
        t < k_next_timer c \<and> (scheduled c i v t \<or> awaiting c i v t) \<and>
        (\<forall>x\<in>set (k_timers c). t_id x = t \<longrightarrow> (\<exists>e. t_task x = Send_task e v \<and> e_id e = i)) \<and>
        (\<forall>j w. map_get (k_pending c) j = Some (w, t) \<longrightarrow> j = i))"

lemma ctl_okD:
  assumes "ctl_ok c" "map_get (k_pending c) i = Some (v, t)"
  shows "t < k_next_timer c" "scheduled c i v t \<or> awaiting c i v t"
    and "x \<in> set (k_timers c) \<Longrightarrow> t_id x = t \<Longrightarrow> \<exists>e. t_task x = Send_task e v \<and> e_id e = i"
    and "map_get (k_pending c) j = Some (w, t) \<Longrightarrow> j = i"
  using assms by (auto simp: ctl_ok_def)

lemma distinct_without: "distinct (map f xs) \<Longrightarrow> distinct (map f (without i xs))"
  by (auto simp: without_def take_map drop_map distinct_append set_take_disj_set_drop_if_distinct
      simp flip: take_map drop_map)

lemma init_ctl_ok: "ctl_ok init_ctl"
  by (simp add: ctl_ok_def init_ctl_def)

text \<open>Steps that only add timers, requests or sent commands keep what is on its way.\<close>

lemma on_its_way_mono:
  assumes "scheduled c i v t \<or> awaiting c i v t"
    and "set (k_timers c) \<subseteq> set (k_timers c')" "set (k_requests c) \<subseteq> set (k_requests c')"
    and "set (k_sent c) \<subseteq> set (k_sent c')"
  shows "scheduled c' i v t \<or> awaiting c' i v t"
  using assms unfolding scheduled_def awaiting_def by blast

lemma ctl_ok_mono:
  assumes "ctl_ok c" "k_timers c' = k_timers c" "k_next_timer c' = k_next_timer c"
    and "set (k_requests c) \<subseteq> set (k_requests c')" "set (k_sent c) \<subseteq> set (k_sent c')"
    and "\<And>i p. map_get (k_pending c') i = Some p \<Longrightarrow> map_get (k_pending c) i = Some p"
  shows "ctl_ok c'"
proof -
  have "scheduled c' i v t \<or> awaiting c' i v t" if "map_get (k_pending c) i = Some (v, t)" for i v t
    by (rule on_its_way_mono[OF ctl_okD(2)[OF assms(1) that]]) (use assms in auto)
  with assms(1) show ?thesis unfolding ctl_ok_def assms(2,3)
    by (intro conjI allI impI) (auto dest!: assms(6) dest: ctl_okD[OF assms(1)] simp: ctl_ok_def)
qed

lemma ctl_ok_post: "ctl_ok c \<Longrightarrow> ctl_ok (post_command r v c)"
  by (rule ctl_ok_mono) (auto simp: post_command_def)

lemma ctl_ok_effect: "ctl_ok c \<Longrightarrow> ctl_ok (effect f c)"
  by (rule ctl_ok_mono) (auto simp: effect_def)

lemma ctl_ok_drop_pending: "ctl_ok c \<Longrightarrow> ctl_ok (c\<lparr> k_pending := map_delete i (k_pending c) \<rparr>)"
  by (rule ctl_ok_mono) (auto simp: js_map split: if_splits)

lemma ctl_ok_confirm: "ctl_ok c \<Longrightarrow> ctl_ok (confirm_state e c)"
  by (auto simp: confirm_state_def ctl_ok_drop_pending split: option.splits)

lemma ctl_okI:
  assumes "distinct (map t_id (k_timers c))" and "\<And>x. x \<in> set (k_timers c) \<Longrightarrow> t_id x < k_next_timer c"
    and "\<And>i v t. map_get (k_pending c) i = Some (v, t) \<Longrightarrow> t < k_next_timer c"
    and "\<And>i v t. map_get (k_pending c) i = Some (v, t) \<Longrightarrow> scheduled c i v t \<or> awaiting c i v t"
    and "\<And>i v t x. map_get (k_pending c) i = Some (v, t) \<Longrightarrow> x \<in> set (k_timers c) \<Longrightarrow> t_id x = t
      \<Longrightarrow> \<exists>e. t_task x = Send_task e v \<and> e_id e = i"
    and "\<And>i v t j w. map_get (k_pending c) i = Some (v, t) \<Longrightarrow> map_get (k_pending c) j = Some (w, t) \<Longrightarrow> j = i"
  shows "ctl_ok c"
  unfolding ctl_ok_def using assms by blast

lemma on_its_way_cases:
  assumes "scheduled c i v t \<or> awaiting c i v t"
  obtains (send) x e where "x \<in> set (k_timers c)" "t_id x = t" "t_task x = Send_task e v" "e_id e = i"
    | (reply) n e where "(i, Number_value v) \<in> set (k_sent c)"
        "(n, Number_request e t, Number_value v) \<in> set (k_requests c)" "e_id e = i"
    | (expire) x e where "(i, Number_value v) \<in> set (k_sent c)"
        "x \<in> set (k_timers c)" "t_task x = Expire_task e t" "e_id e = i"
  using assms unfolding scheduled_def awaiting_def by blast

text \<open>A new timer has a fresh identifier.\<close>

lemma ctl_ok_set_timeout:
  assumes "ctl_ok c"
  shows "ctl_ok (set_timeout d tk c)"
proof (rule ctl_okI)
  let ?c = "set_timeout d tk c"
  have T: "k_timers ?c = k_timers c @ [\<lparr> t_id = k_next_timer c, t_delay = d, t_due = k_now c + d, t_task = tk \<rparr>]"
    "k_next_timer ?c = Suc (k_next_timer c)" "k_pending ?c = k_pending c" "k_requests ?c = k_requests c" "k_sent ?c = k_sent c"
    by (simp_all add: set_timeout_def)
  have ids: "\<forall>x\<in>set (k_timers c). t_id x < k_next_timer c" using assms by (simp add: ctl_ok_def)
  show "distinct (map t_id (k_timers ?c))" using assms ids by (auto simp: T ctl_ok_def)
  show "t_id x < k_next_timer ?c" if "x \<in> set (k_timers ?c)" for x using that ids by (auto simp: T)
  fix i v t assume p: "map_get (k_pending ?c) i = Some (v, t)"
  then have p': "map_get (k_pending c) i = Some (v, t)" by (simp add: T)
  note D = ctl_okD[OF assms p']
  show "t < k_next_timer ?c" using D(1) by (simp add: T)
  show "scheduled ?c i v t \<or> awaiting ?c i v t" by (rule on_its_way_mono[OF D(2)]) (auto simp: T)
  show "\<exists>e. t_task x = Send_task e v \<and> e_id e = i" if "x \<in> set (k_timers ?c)" "t_id x = t" for x
    using that D(1,3) by (auto simp: T)
  show "j = i" if "map_get (k_pending ?c) j = Some (w, t)" for j w using that D(4) by (simp add: T)
qed

text \<open>Clearing a timer, or taking one off to run it, leaves the other pending values on their way.\<close>

lemma ctl_ok_fewer_timers:
  assumes ok: "ctl_ok c" and sub: "set ts \<subseteq> set (k_timers c)" "distinct (map t_id ts)"
    and pend: "\<And>i v t. map_get pm i = Some (v, t) \<Longrightarrow> map_get (k_pending c) i = Some (v, t)"
    and keep: "\<And>i v t. map_get pm i = Some (v, t) \<Longrightarrow>
      scheduled (c\<lparr> k_timers := ts, k_pending := pm \<rparr>) i v t \<or> awaiting (c\<lparr> k_timers := ts, k_pending := pm \<rparr>) i v t"
  shows "ctl_ok (c\<lparr> k_timers := ts, k_pending := pm \<rparr>)"
proof (rule ctl_okI)
  let ?c = "c\<lparr> k_timers := ts, k_pending := pm \<rparr>"
  show "distinct (map t_id (k_timers ?c))" using sub by simp
  show "t_id x < k_next_timer ?c" if "x \<in> set (k_timers ?c)" for x
    using that ok sub by (auto simp: ctl_ok_def)
  fix i v t assume "map_get (k_pending ?c) i = Some (v, t)"
  then have p: "map_get pm i = Some (v, t)" by simp
  note D = ctl_okD[OF ok pend[OF p]]
  show "t < k_next_timer ?c" using D(1) by simp
  show "scheduled ?c i v t \<or> awaiting ?c i v t" by (rule keep[OF p])
  show "\<exists>e. t_task x = Send_task e v \<and> e_id e = i" if "x \<in> set (k_timers ?c)" "t_id x = t" for x
    using that D(3) sub by auto
  show "j = i" if "map_get (k_pending ?c) j = Some (w, t)" for j w
    using that D(4) pend by fastforce
qed

lemma same_id_same_timer:
  "distinct (map t_id ts) \<Longrightarrow> x \<in> set ts \<Longrightarrow> y \<in> set ts \<Longrightarrow> t_id x = t_id y \<Longrightarrow> x = y"
  by (metis (full_types) distinct_map inj_onD)

lemma ctl_ok_clear:
  assumes ok: "ctl_ok c" and p: "map_get (k_pending c) i = Some (v, t)"
  shows "ctl_ok ((clear_timeout t c)\<lparr> k_pending := map_delete i (k_pending c) \<rparr>)"
proof -
  let ?ts = "filter (\<lambda>x. t_id x \<noteq> t) (k_timers c)" and ?pm = "map_delete i (k_pending c)"
  have "ctl_ok (c\<lparr> k_timers := ?ts, k_pending := ?pm \<rparr>)"
  proof (rule ctl_ok_fewer_timers[OF ok])
    show "distinct (map t_id ?ts)" using ok by (auto simp: ctl_ok_def intro: distinct_map_filter)
    fix j w s assume j: "map_get ?pm j = Some (w, s)"
    then show q: "map_get (k_pending c) j = Some (w, s)" by (simp add: js_map split: if_splits)
    have "s \<noteq> t" using j ctl_okD(4)[OF ok p, of j w] q by (auto simp: js_map split: if_splits)
    moreover have "t_id x \<noteq> t" if "x \<in> set (k_timers c)" "t_task x = Expire_task e s'" for x e s'
      using ctl_okD(3)[OF ok p that(1)] that(2) by auto
    ultimately show "scheduled (c\<lparr> k_timers := ?ts, k_pending := ?pm \<rparr>) j w s
        \<or> awaiting (c\<lparr> k_timers := ?ts, k_pending := ?pm \<rparr>) j w s"
      using ctl_okD(2)[OF ok q] unfolding scheduled_def awaiting_def by simp blast
  qed auto
  then show ?thesis by (simp add: clear_timeout_def)
qed

lemma ctl_ok_click_step:
  assumes "ctl_ok c"
  shows "ctl_ok (click_step e d c)"
proof -
  let ?i = "e_id e" and ?v = "next_value e (pending_value c (e_id e)) d"
  define c0 where "c0 = (case map_get (k_pending c) ?i of Some (p, t) \<Rightarrow> clear_timeout t c | None \<Rightarrow> c)
      \<lparr> k_pending := map_delete ?i (k_pending c) \<rparr>"
  have "ctl_ok c0"
    using assms ctl_ok_clear[OF assms, of ?i] ctl_ok_drop_pending[OF assms, of ?i]
    by (auto simp: c0_def split: option.splits)
  then have ok: "ctl_ok (set_timeout 700 (Send_task e ?v) c0)" by (rule ctl_ok_set_timeout)
  define c2 where "c2 = set_timeout 700 (Send_task e ?v) c0"
  define c3 where "c3 = c2\<lparr> k_pending := map_set ?i (?v, k_next_timer c0) (k_pending c) \<rparr>"
  have get: "map_get (k_pending c3) j = (if j = ?i then Some (?v, k_next_timer c0) else map_get (k_pending c0) j)" for j
    by (simp add: c3_def c2_def c0_def set_timeout_def js_map)
  have old: "t < k_next_timer c0" if "map_get (k_pending c0) j = Some (w, t)" for j w t
    using ctl_okD(1)[OF \<open>ctl_ok c0\<close> that] .
  have timers: "k_timers c3 = k_timers c0 @ [\<lparr> t_id = k_next_timer c0, t_delay = 700, t_due = k_now c0 + 700, t_task = Send_task e ?v \<rparr>]"
    "k_next_timer c3 = Suc (k_next_timer c0)" by (simp_all add: c3_def c2_def set_timeout_def)
  have fresh: "t_id x < k_next_timer c0" if "x \<in> set (k_timers c0)" for x
    using \<open>ctl_ok c0\<close> that by (simp add: ctl_ok_def)
  have "ctl_ok c3"
  proof (rule ctl_okI)
    have "distinct (map t_id (k_timers c0))" using \<open>ctl_ok c0\<close> by (simp add: ctl_ok_def)
    then show "distinct (map t_id (k_timers c3))" using fresh by (force simp: timers)
    show "t_id x < k_next_timer c3" if "x \<in> set (k_timers c3)" for x using that fresh by (auto simp: timers less_SucI)
    fix i v t assume p: "map_get (k_pending c3) i = Some (v, t)"
    show "t < k_next_timer c3" using p old by (auto simp: get timers less_SucI split: if_splits)
    show "j = i" if "map_get (k_pending c3) j = Some (w, t)" for j w
      using p that old ctl_okD(4)[OF \<open>ctl_ok c0\<close>] by (fastforce simp: get split: if_splits)
    show "\<exists>e. t_task x = Send_task e v \<and> e_id e = i" if "x \<in> set (k_timers c3)" "t_id x = t" for x
    proof (cases "x \<in> set (k_timers c0)")
      case True
      with that fresh have "t \<noteq> k_next_timer c0" by force
      with p have "map_get (k_pending c0) i = Some (v, t)" by (auto simp: get split: if_splits)
      from ctl_okD(3)[OF \<open>ctl_ok c0\<close> this True that(2)] show ?thesis .
    next
      case False
      with that(1) have x: "x = \<lparr> t_id = k_next_timer c0, t_delay = 700, t_due = k_now c0 + 700, t_task = Send_task e ?v \<rparr>"
        by (simp add: timers)
      with that(2) p old show ?thesis by (fastforce simp: get split: if_splits)
    qed
    show "scheduled c3 i v t \<or> awaiting c3 i v t"
    proof (cases "i = ?i")
      case True
      then show ?thesis using p by (auto simp: get scheduled_def timers)
    next
      case False
      then have "map_get (k_pending c0) i = Some (v, t)" using p by (simp add: get)
      from ctl_okD(2)[OF \<open>ctl_ok c0\<close> this] show ?thesis
        by (rule on_its_way_mono) (auto simp: timers, auto simp: c3_def c2_def set_timeout_def)
    qed
  qed
  moreover have "click_step e d c = effect (Rerender ?i) c3"
    by (auto simp: click_step_def c3_def c2_def c0_def set_timeout_def clear_timeout_def Let_def
        split: option.splits)
  ultimately show ?thesis by (simp add: ctl_ok_effect)
qed

lemma ctl_ok_fire:
  assumes ok: "ctl_ok c" and i: "i < length (k_timers c)"
  shows "ctl_ok (run_task (k_timers c ! i) (c\<lparr> k_timers := without i (k_timers c) \<rparr>))"
proof -
  let ?x = "k_timers c ! i" and ?ts = "without i (k_timers c)"
  have x: "?x \<in> set (k_timers c)" using i by simp
  have cover: "y \<in> set ?ts \<or> y = ?x" if "y \<in> set (k_timers c)" for y
    using set_without_cover[OF i] that by auto
  have dist: "distinct (map t_id ?ts)" using ok by (auto simp: ctl_ok_def intro: distinct_without)
  show ?thesis
  proof (cases "t_task ?x")
    case (Send_task e v)
    define c' where "c' = post_command (Number_request e (t_id ?x)) (Number_value v) c"
    have "ctl_ok (c'\<lparr> k_timers := ?ts, k_pending := k_pending c \<rparr>)"
    proof (rule ctl_ok_fewer_timers)
      show "ctl_ok c'" using ok by (simp add: c'_def ctl_ok_post)
      show "set ?ts \<subseteq> set (k_timers c')" using set_without[of i "k_timers c"] by (simp add: c'_def post_command_def)
      fix j w s assume p: "map_get (k_pending c) j = Some (w, s)"
      then show "map_get (k_pending c') j = Some (w, s)" by (simp add: c'_def post_command_def)
      show "scheduled (c'\<lparr> k_timers := ?ts, k_pending := k_pending c \<rparr>) j w s
          \<or> awaiting (c'\<lparr> k_timers := ?ts, k_pending := k_pending c \<rparr>) j w s"
        using ctl_okD(2)[OF ok p]
      proof (cases rule: on_its_way_cases)
        case (send y e')
        show ?thesis
        proof (cases "y = ?x")
          case True
          with send Send_task show ?thesis
            by (auto simp: awaiting_def c'_def post_command_def entity_of_request_def)
        next
          case False
          with send cover[of y] have "y \<in> set ?ts" by auto
          with send show ?thesis by (auto simp: scheduled_def)
        qed
      next
        case (expire y e')
        then have "y \<in> set ?ts" using cover[of y] Send_task by auto
        with expire show ?thesis by (auto simp: awaiting_def c'_def post_command_def)
      qed (auto simp: awaiting_def c'_def post_command_def)
    qed (rule dist)
    moreover have "run_task ?x (c\<lparr> k_timers := ?ts \<rparr>) = c'\<lparr> k_timers := ?ts, k_pending := k_pending c \<rparr>"
      by (simp add: run_task_def Send_task c'_def post_command_def)
    ultimately show ?thesis by simp
  next
    case (Expire_task e t)
    let ?hit = "map_option snd (map_get (k_pending c) (e_id e)) = Some t"
    let ?pm = "if ?hit then map_delete (e_id e) (k_pending c) else k_pending c"
    have "ctl_ok (c\<lparr> k_timers := ?ts, k_pending := ?pm \<rparr>)"
    proof (rule ctl_ok_fewer_timers[OF ok set_without dist])
      fix j w s assume pm: "map_get ?pm j = Some (w, s)"
      then show p: "map_get (k_pending c) j = Some (w, s)" by (auto simp: js_map split: if_splits)
      have other: "\<not> (e_id e = j \<and> s = t)" using pm p by (auto simp: js_map split: if_splits)
      show "scheduled (c\<lparr> k_timers := ?ts, k_pending := ?pm \<rparr>) j w s
          \<or> awaiting (c\<lparr> k_timers := ?ts, k_pending := ?pm \<rparr>) j w s"
        using ctl_okD(2)[OF ok p]
      proof (cases rule: on_its_way_cases)
        case (send y e')
        then have "y \<in> set ?ts" using cover[of y] Expire_task by auto
        with send show ?thesis by (auto simp: scheduled_def)
      next
        case (expire y e')
        then have "y \<in> set ?ts" using cover[of y] Expire_task other by auto
        with expire show ?thesis by (auto simp: awaiting_def)
      qed (auto simp: awaiting_def)
    qed
    then show ?thesis
      by (auto simp: run_task_def Expire_task ctl_ok_effect split: if_splits)
  qed
qed

lemma ctl_ok_reply:
  assumes ok: "ctl_ok c" and i: "i < length (k_requests c)" "k_requests c ! i = (n, r, v)"
  shows "ctl_ok (on_reply loc r v err (c\<lparr> k_requests := without i (k_requests c) \<rparr>))"
proof -
  let ?c = "c\<lparr> k_requests := without i (k_requests c) \<rparr>"
  have cover: "set (k_requests c) \<subseteq> insert (n, r, v) (set (without i (k_requests c)))"
    using set_without_cover[OF i(1)] i(2) by simp
  define toast where "toast = (case err of None \<Rightarrow> Toast (sent_text loc (entity_of_request r) v) ''ok''
      | Some m \<Rightarrow> Toast (e_name (entity_of_request r) @ '': '' @ m) ''err'')"
  have kept: "ctl_ok ?c" if "\<And>e t. r \<noteq> Number_request e t"
  proof (rule ctl_okI)
    fix j w s assume p: "map_get (k_pending ?c) j = Some (w, s)"
    then have p': "map_get (k_pending c) j = Some (w, s)" by simp
    from ctl_okD(2)[OF ok p'] show "scheduled ?c j w s \<or> awaiting ?c j w s"
    proof (cases rule: on_its_way_cases)
      case (reply m e)
      with cover that have "(m, Number_request e s, Number_value w) \<in> set (k_requests ?c)" by auto
      with reply show ?thesis by (auto simp: awaiting_def)
    qed (auto simp: scheduled_def awaiting_def)
  qed (use ok in \<open>auto simp: ctl_ok_def\<close>)
  show ?thesis
  proof (cases r)
    case (Number_request e t)
    define c1 where "c1 = set_timeout 15000 (Expire_task e t) (effect toast c)"
    have ok1: "ctl_ok c1" unfolding c1_def by (intro ctl_ok_set_timeout ctl_ok_effect ok)
    have "ctl_ok (c1\<lparr> k_requests := without i (k_requests c) \<rparr>)" (is "ctl_ok ?c1")
    proof (rule ctl_okI)
      fix j w s assume p: "map_get (k_pending ?c1) j = Some (w, s)"
      then have p': "map_get (k_pending c1) j = Some (w, s)" by simp
      from ctl_okD(2)[OF ok1 p'] show "scheduled ?c1 j w s \<or> awaiting ?c1 j w s"
      proof (cases rule: on_its_way_cases)
        case (reply m e')
        then have m: "(m, Number_request e' s, Number_value w) \<in> set (k_requests c)"
          by (simp add: c1_def set_timeout_def effect_def)
        show ?thesis
        proof (cases "(m, Number_request e' s, Number_value w) = (n, r, v)")
          case True
          with reply Number_request show ?thesis
            by (auto simp: awaiting_def c1_def set_timeout_def effect_def)
        next
          case False
          with m cover have "(m, Number_request e' s, Number_value w) \<in> set (k_requests ?c1)" by auto
          with reply show ?thesis by (auto simp: awaiting_def)
        qed
      qed (auto simp: scheduled_def awaiting_def)
    qed (use ok1 in \<open>auto simp: ctl_ok_def\<close>)
    moreover have "on_reply loc r v err ?c = ?c1"
      by (auto simp: on_reply_def Number_request c1_def toast_def set_timeout_def effect_def Let_def split: option.splits)
    ultimately show ?thesis by simp
  qed (use kept in \<open>auto simp: on_reply_def Let_def ctl_ok_effect split: option.splits\<close>)
qed

lemma ctl_ok_elapse: "ctl_ok c \<Longrightarrow> ctl_ok (c\<lparr> k_now := n \<rparr>)"
  by (rule ctl_ok_mono) auto

lemma ctl_ok_step: "ctl_ok c \<Longrightarrow> ctl_enabled c ev \<Longrightarrow> ctl_ok (ctl_step loc c ev)"
  by (cases ev) (auto simp: click_option_def ctl_ok_post ctl_ok_effect ctl_ok_click_step ctl_ok_fire
      ctl_ok_confirm ctl_ok_elapse ctl_ok_reply split: prod.splits)

interpretation ctl_run: machine "ctl_step loc" ctl_enabled ctl_ok
  by unfold_locales (rule ctl_ok_step)

interpretation limits_run: machine "ctl_step loc" "\<lambda>c ev. ctl_enabled c ev \<and> sane_event bnd ev" "limits_ok bnd"
  by unfold_locales (auto intro: limits_step)

lemma enabled_run_and:
  "enabled_run (\<lambda>s e. en s e \<and> p e) step s es \<longleftrightarrow> enabled_run en step s es \<and> (\<forall>e\<in>set es. p e)"
  by (induction es arbitrary: s) auto

text \<open>
  A timer that fired is not live any more: its identifier, kept by the outstanding request and
  by the 15 s timer, is not one of the live timers'.
\<close>

definition fired :: "ctl \<Rightarrow> nat \<Rightarrow> bool" where
  "fired c t \<longleftrightarrow> (\<exists>n e v. (n, Number_request e t, v) \<in> set (k_requests c)) \<or> (\<exists>x e. x \<in> set (k_timers c) \<and> t_task x = Expire_task e t)"

definition fired_ok :: "ctl \<Rightarrow> bool" where
  "fired_ok c \<longleftrightarrow> (\<forall>t. fired c t \<longrightarrow> t < k_next_timer c \<and> t \<notin> t_id ` set (k_timers c))"

lemma init_fired_ok: "fired_ok init_ctl"
  by (simp add: fired_ok_def fired_def init_ctl_def)

lemma fired_okI:
  assumes "fired_ok c" and "\<And>t. fired c' t \<Longrightarrow> fired c t" and "k_next_timer c \<le> k_next_timer c'"
    and "\<And>x. x \<in> set (k_timers c') \<Longrightarrow> x \<in> set (k_timers c) \<or> k_next_timer c \<le> t_id x"
  shows "fired_ok c'"
  unfolding fired_ok_def
proof (intro allI impI conjI notI)
  fix t assume "fired c' t"
  then have t: "t < k_next_timer c" "t \<notin> t_id ` set (k_timers c)"
    using assms(1,2) by (auto simp: fired_ok_def)
  then show "t < k_next_timer c'" using assms(3) by simp
  assume "t \<in> t_id ` set (k_timers c')"
  then show False using t assms(4) by fastforce
qed

lemma fired_ok_post:
  assumes "fired_ok c" "\<forall>e t. r \<noteq> Number_request e t"
  shows "fired_ok (post_command r v c)"
  by (rule fired_okI[OF assms(1)]) (use assms(2) in \<open>auto simp: fired_def post_command_def\<close>)

lemma fired_ok_fire:
  assumes ok: "ctl_ok c" "fired_ok c" and i: "i < length (k_timers c)"
  shows "fired_ok (run_task (k_timers c ! i) (c\<lparr> k_timers := without i (k_timers c) \<rparr>))"
proof (cases "t_task (k_timers c ! i)")
  case (Expire_task e t)
  show ?thesis
    by (rule fired_okI[OF ok(2)])
      (use set_without[of i "k_timers c"] Expire_task in \<open>auto simp: fired_def run_task_def effect_def split: if_splits\<close>)
next
  case (Send_task e v)
  let ?x = "k_timers c ! i"
  have d: "distinct (map t_id (k_timers c))" using ok(1) by (simp add: ctl_ok_def)
  have split: "k_timers c = take i (k_timers c) @ ?x # drop (Suc i) (k_timers c)" using i by (rule id_take_nth_drop)
  have "t_id ?x \<notin> t_id ` set (without i (k_timers c))"
    using d by (subst (asm) split) (auto simp: without_def)
  moreover have "t_id ?x < k_next_timer c" using ok(1) i by (simp add: ctl_ok_def)
  moreover have "t = t_id ?x \<or> fired c t"
    if "fired (run_task ?x (c\<lparr> k_timers := without i (k_timers c) \<rparr>)) t" for t
    using that set_without[of i "k_timers c"] Send_task
    by (auto simp: fired_def run_task_def post_command_def)
  moreover have "t < k_next_timer c" "t \<notin> t_id ` set (without i (k_timers c))" if "fired c t" for t
    using ok(2) that set_without[of i "k_timers c"] by (auto simp: fired_ok_def)
  moreover have "k_next_timer (run_task ?x (c\<lparr> k_timers := without i (k_timers c) \<rparr>)) = k_next_timer c"
    "k_timers (run_task ?x (c\<lparr> k_timers := without i (k_timers c) \<rparr>)) = without i (k_timers c)"
    using Send_task by (simp_all add: run_task_def post_command_def)
  ultimately show ?thesis unfolding fired_ok_def by metis
qed

lemma fired_ok_click_step:
  assumes "ctl_ok c" "fired_ok c" shows "fired_ok (click_step e d c)"
  by (rule fired_okI[OF assms(2)])
    (auto simp: fired_def click_step_def listener_defs split: option.splits)

lemma fired_ok_reply:
  assumes ok: "ctl_ok c" "fired_ok c" and i: "i < length (k_requests c)" "k_requests c ! i = (n, r, v)"
  shows "fired_ok (on_reply loc r v err (c\<lparr> k_requests := without i (k_requests c) \<rparr>))"
proof -
  have r: "(n, r, v) \<in> set (k_requests c)" using i by (metis nth_mem)
  show ?thesis
    by (rule fired_okI[OF ok(2)])
      (use r set_without[of i "k_requests c"] in \<open>auto 0 4 simp: fired_def on_reply_def listener_defs Let_def split: request.splits option.splits if_splits\<close>)
qed

lemma fired_ok_step:
  "ctl_ok c \<and> fired_ok c \<Longrightarrow> ctl_enabled c ev \<Longrightarrow> ctl_ok (ctl_step loc c ev) \<and> fired_ok (ctl_step loc c ev)"
proof (rule conjI)
  assume a: "ctl_ok c \<and> fired_ok c" "ctl_enabled c ev"
  show "ctl_ok (ctl_step loc c ev)" using a by (simp add: ctl_ok_step)
  show "fired_ok (ctl_step loc c ev)"
  proof (cases ev)
    case (Ev_option e opt)
    have "fired_ok (effect (Mark_active (e_id e) opt) c)"
      by (rule fired_okI[of c]) (use a in \<open>auto simp: fired_def effect_def\<close>)
    then show ?thesis by (simp add: Ev_option click_option_def fired_ok_post)
  next
    case (Ev_confirm e)
    show ?thesis
      by (rule fired_okI[of c])
        (use a in \<open>auto simp: Ev_confirm fired_def confirm_state_def split: option.splits if_splits\<close>)
  next
    case (Ev_elapse n)
    show ?thesis by (rule fired_okI[of c]) (use a in \<open>auto simp: Ev_elapse fired_def\<close>)
  qed (use a in \<open>auto simp: fired_ok_post fired_ok_click_step fired_ok_fire fired_ok_reply split: prod.splits\<close>)
qed

interpretation fired_run: machine "ctl_step loc" ctl_enabled "\<lambda>c. ctl_ok c \<and> fired_ok c"
  by unfold_locales (rule fired_ok_step)


section \<open>Properties\<close>

text \<open>
  C9: in every run of clicks, timers, answers and state messages, a value the stepper shows as
  pending is scheduled to be sent or has been sent for that very entity, and then its answer or
  the 15 s timer that clears the mark is outstanding.
\<close>

theorem pending_on_its_way:
  assumes "enabled_run ctl_enabled (ctl_step loc) init_ctl es" and "c = run (ctl_step loc) init_ctl es"
    and "map_get (k_pending c) i = Some (v, t)"
  shows "scheduled c i v t \<or> awaiting c i v t"
  using ctl_okD(2)[OF ctl_run.inv_run[OF init_ctl_ok assms(1)]] assms(2,3) by simp

text \<open>
  C7: when every entity that is stepped has finite limits (and a finite value), no run posts a
  number outside the limits of its entity.
\<close>

theorem commands_in_limits:
  assumes "enabled_run ctl_enabled (ctl_step loc) init_ctl es" and "\<forall>ev\<in>set es. sane_event bnd ev"
    and "(i, Number_value v) \<in> set (k_sent (run (ctl_step loc) init_ctl es))"
  shows "in_limits (bnd i) v"
proof -
  have "limits_ok bnd init_ctl" by (simp add: limits_ok_def init_ctl_def)
  then have "limits_ok bnd (run (ctl_step loc) init_ctl es)"
    using assms(1,2) by (intro limits_run.inv_run) (auto simp: enabled_run_and)
  with assms(3) show ?thesis by (simp add: limits_ok_def)
qed

text \<open>The timer sends a value for the entity.\<close>

fun sends :: "string \<Rightarrow> timer \<Rightarrow> bool" where
  "sends i x = (case t_task x of Send_task e v \<Rightarrow> e_id e = i | Expire_task e t \<Rightarrow> False)"

text \<open>Numeric commands posted for an entity.\<close>

fun number_for :: "string \<Rightarrow> string \<times> command_value \<Rightarrow> bool" where
  "number_for i (j, Number_value v) = (j = i)"
| "number_for i (j, Text_value s) = False"

definition numbers_sent :: "string \<Rightarrow> ctl \<Rightarrow> (string \<times> command_value) list" where
  "numbers_sent i c = filter (number_for i) (k_sent c)"

text \<open>
  Milliseconds left of an entity's debounce window of \<open>k\<close> after a series of events: a click
  opens a new window of 700, and \<open>None\<close> means that the window ran out or that a state
  message for the entity came in (it could confirm the value and so orphan the timer).
\<close>

fun debounce :: "string \<Rightarrow> nat \<Rightarrow> ctl_event list \<Rightarrow> nat option" where
  "debounce i k [] = Some k"
| "debounce i k (Ev_step e d # es) = debounce i (if e_id e = i then 700 else k) es"
| "debounce i k (Ev_elapse n # es) = (if n < k then debounce i (k - n) es else None)"
| "debounce i k (Ev_confirm e # es) = (if e_id e = i then None else debounce i k es)"
| "debounce i k (ev # es) = debounce i k es"

text \<open>The value the clicks on an entity arrive at.\<close>

fun clicked_value :: "string \<Rightarrow> jsnum option \<Rightarrow> ctl_event list \<Rightarrow> jsnum option" where
  "clicked_value i p [] = p"
| "clicked_value i p (Ev_step e d # es) = clicked_value i (if e_id e = i then Some (next_value e p d) else p) es"
| "clicked_value i p (ev # es) = clicked_value i p es"

text \<open>Inside a window: one timer to send the pending value, due when the window closes.\<close>

definition bursting :: "string \<Rightarrow> nat \<Rightarrow> jsnum \<Rightarrow> ctl \<Rightarrow> bool" where
  "bursting i k v c \<longleftrightarrow> (\<exists>x e. filter (sends i) (k_timers c) = [x] \<and> t_task x = Send_task e v \<and> t_delay x = 700 \<and>
     t_due x = k_now c + k \<and> 0 < k \<and> map_get (k_pending c) i = Some (v, t_id x))"

lemma filter_without: "i < length xs \<Longrightarrow> \<not> P (xs ! i) \<Longrightarrow> filter P (without i xs) = filter P xs"
  by (subst (2) id_take_nth_drop, assumption) (simp add: without_def)

lemma filter_swap: "filter P (filter Q xs) = filter Q (filter P xs)"
  by (induction xs) auto

lemma bursting_click:
  assumes ok: "ctl_ok c" and one: "filter (sends (e_id e)) (k_timers c) = [] \<or> bursting (e_id e) k v c"
  shows "bursting (e_id e) 700 (next_value e (pending_value c (e_id e)) d) (click_step e d c)"
    and "numbers_sent (e_id e) (click_step e d c) = numbers_sent (e_id e) c"
proof -
  show "numbers_sent (e_id e) (click_step e d c) = numbers_sent (e_id e) c"
    by (auto simp: numbers_sent_def click_step_def listener_defs split: option.splits)
  have "filter (sends (e_id e)) (filter (\<lambda>y. t_id y \<noteq> t) (k_timers c)) = []"
    if "map_get (k_pending c) (e_id e) = Some (p, t)" for p t
  proof -
    have "filter (\<lambda>y. t_id y \<noteq> t) (filter (sends (e_id e)) (k_timers c)) = []"
      using one that by (auto simp: bursting_def simp del: filter_filter sends.simps)
    then show ?thesis by (subst filter_swap)
  qed
  moreover have "filter (sends (e_id e)) (k_timers c) = []" if "map_get (k_pending c) (e_id e) = None"
    using one that by (auto simp: bursting_def)
  ultimately show "bursting (e_id e) 700 (next_value e (pending_value c (e_id e)) d) (click_step e d c)"
    by (auto simp: bursting_def click_step_def listener_defs js_map simp del: filter_filter split: option.splits)
qed

lemma bursting_other_click:
  assumes ok: "ctl_ok c" and b: "bursting i k v c" and e: "e_id e \<noteq> i"
  shows "bursting i k v (click_step e d c)" "numbers_sent i (click_step e d c) = numbers_sent i c"
proof -
  show "numbers_sent i (click_step e d c) = numbers_sent i c"
    by (auto simp: numbers_sent_def click_step_def listener_defs split: option.splits)
  have "filter (sends i) (filter (\<lambda>y. t_id y \<noteq> t) (k_timers c)) = filter (sends i) (k_timers c)"
    if "map_get (k_pending c) (e_id e) = Some (p, t)" for p t
  proof -
    have "t_id y \<noteq> t" if y: "y \<in> set (k_timers c)" "sends i y" for y
      using ctl_okD(3)[OF ok \<open>map_get (k_pending c) (e_id e) = Some (p, t)\<close> y(1)] y(2) e by auto
    then have "filter (\<lambda>y. t_id y \<noteq> t) (filter (sends i) (k_timers c)) = filter (sends i) (k_timers c)"
      by (intro filter_True) simp
    then show ?thesis by (subst filter_swap)
  qed
  then show "bursting i k v (click_step e d c)"
    using b e by (auto simp: bursting_def click_step_def listener_defs js_map simp del: filter_filter split: option.splits)
qed

lemma bursting_kept:
  assumes "bursting i k v c" "filter (sends i) (k_timers c') = filter (sends i) (k_timers c)" "k_now c' = k_now c"
    and "map_get (k_pending c') i = map_get (k_pending c) i"
  shows "bursting i k v c'"
  using assms by (simp add: bursting_def)

lemma bursting_fire:
  assumes ok: "fired_ok c" and b: "bursting i k v c" and en: "ctl_enabled c (Ev_fire j)"
  shows "bursting i k v (ctl_step loc c (Ev_fire j))" "numbers_sent i (ctl_step loc c (Ev_fire j)) = numbers_sent i c"
proof -
  let ?y = "k_timers c ! j"
  obtain x where x: "filter (sends i) (k_timers c) = [x]" "t_due x = k_now c + k" "0 < k"
    "map_get (k_pending c) i = Some (v, t_id x)" using b by (auto simp: bursting_def)
  have j: "j < length (k_timers c)" "t_due ?y \<le> k_now c" using en by auto
  have mem: "x \<in> set (k_timers c)" proof -
    have "x \<in> set (filter (sends i) (k_timers c))" unfolding x(1) by simp
    then show ?thesis by simp
  qed
  have no: "\<not> sends i ?y"
  proof
    assume "sends i ?y"
    then have "?y \<in> set (filter (sends i) (k_timers c))" using j(1) by (simp del: sends.simps)
    then have "?y = x" using x(1) by (simp del: sends.simps)
    then show False using x(2,3) j(2) by simp
  qed
  have f: "filter (sends i) (without j (k_timers c)) = filter (sends i) (k_timers c)"
    using filter_without[of j "k_timers c" "sends i"] j(1) no by blast
  have old: "t \<noteq> t_id x" if "t_task ?y = Expire_task e t" for e t
  proof -
    have "fired c t" using that j(1) unfolding fired_def by (metis nth_mem)
    then show ?thesis using ok mem unfolding fired_ok_def by blast
  qed
  show "numbers_sent i (ctl_step loc c (Ev_fire j)) = numbers_sent i c"
    using no by (auto simp: numbers_sent_def run_task_def listener_defs split: task.splits)
  show "bursting i k v (ctl_step loc c (Ev_fire j))"
    by (rule bursting_kept[OF b])
      (use f x(4) no old in \<open>auto simp: run_task_def listener_defs js_map simp del: sends.simps split: task.splits if_splits\<close>)
qed

lemma bursting_reply:
  assumes "bursting i k v c"
  shows "bursting i k v (ctl_step loc c (Ev_reply j err))" "numbers_sent i (ctl_step loc c (Ev_reply j err)) = numbers_sent i c"
proof -
  show "numbers_sent i (ctl_step loc c (Ev_reply j err)) = numbers_sent i c"
    by (auto simp: numbers_sent_def on_reply_def effect_def set_timeout_def Let_def split: prod.splits request.splits option.splits)
  show "bursting i k v (ctl_step loc c (Ev_reply j err))"
    by (rule bursting_kept[OF assms])
      (auto simp: on_reply_def effect_def set_timeout_def Let_def split: prod.splits request.splits option.splits)
qed

lemma bursting_step:
  assumes ok: "ctl_ok c \<and> fired_ok c" and b: "bursting i k v c" and en: "ctl_enabled c ev"
    and d: "debounce i k (ev # es) = Some m"
  shows "\<exists>k' v'. debounce i k' es = Some m \<and> bursting i k' v' (ctl_step loc c ev) \<and>
    clicked_value i (Some v) (ev # es) = clicked_value i (Some v') es \<and>
    numbers_sent i (ctl_step loc c ev) = numbers_sent i c"
proof (cases ev)
  case (Ev_step e d)
  have p: "pending_value c i = Some v" using b by (auto simp: bursting_def pending_value_def)
  show ?thesis
  proof (cases "e_id e = i")
    case True
    then show ?thesis using bursting_click[of c e k v d] ok b p d Ev_step by fastforce
  next
    case False
    then show ?thesis using bursting_other_click[of c i k v e d] ok b d Ev_step by auto
  qed
next
  case (Ev_confirm e)
  have "bursting i k v (confirm_state e c)"
    by (rule bursting_kept[OF b]) (use d Ev_confirm in \<open>auto simp: confirm_state_def js_map split: option.splits if_splits\<close>)
  moreover have "numbers_sent i (confirm_state e c) = numbers_sent i c"
    by (auto simp: numbers_sent_def confirm_state_def split: option.splits)
  ultimately show ?thesis using d Ev_confirm by (auto split: if_splits)
next
  case (Ev_elapse n)
  have "bursting i (k - n) v (c\<lparr> k_now := k_now c + n \<rparr>)"
    using b d Ev_elapse by (auto simp: bursting_def split: if_splits)
  then show ?thesis using d Ev_elapse by (auto simp: numbers_sent_def split: if_splits)
next
  case (Ev_fire j)
  then show ?thesis using bursting_fire[of c i k v j loc] ok b en d by auto
next
  case (Ev_reply j err)
  then show ?thesis using bursting_reply[of i k v c loc j err] b d by auto
next
  case (Ev_check e on)
  have "bursting i k v (ctl_step loc c ev)"
    by (rule bursting_kept[OF b]) (simp_all add: Ev_check post_command_def)
  moreover have "numbers_sent i (ctl_step loc c ev) = numbers_sent i c"
    by (simp add: Ev_check numbers_sent_def post_command_def)
  moreover have "debounce i k es = Some m" "clicked_value i (Some v) (ev # es) = clicked_value i (Some v) es"
    using d Ev_check by simp_all
  ultimately show ?thesis by blast
next
  case (Ev_option e opt)
  have "bursting i k v (ctl_step loc c ev)"
    by (rule bursting_kept[OF b]) (simp_all add: Ev_option click_option_def post_command_def effect_def)
  moreover have "numbers_sent i (ctl_step loc c ev) = numbers_sent i c"
    by (simp add: Ev_option numbers_sent_def click_option_def post_command_def effect_def)
  moreover have "debounce i k es = Some m" "clicked_value i (Some v) (ev # es) = clicked_value i (Some v) es"
    using d Ev_option by simp_all
  ultimately show ?thesis by blast
qed

lemma bursting_run:
  "ctl_ok c \<and> fired_ok c \<Longrightarrow> bursting i k v c \<Longrightarrow> enabled_run ctl_enabled (ctl_step loc) c es \<Longrightarrow>
   debounce i k es = Some m \<Longrightarrow>
   \<exists>v'. bursting i m v' (run (ctl_step loc) c es) \<and> clicked_value i (Some v) es = Some v' \<and>
     numbers_sent i (run (ctl_step loc) c es) = numbers_sent i c"
proof (induction es arbitrary: c k v)
  case Nil
  then show ?case by simp
next
  case (Cons ev es)
  have en: "ctl_enabled c ev" "enabled_run ctl_enabled (ctl_step loc) (ctl_step loc c ev) es" using Cons.prems(3) by auto
  obtain k' v' where s: "debounce i k' es = Some m" "bursting i k' v' (ctl_step loc c ev)"
    "clicked_value i (Some v) (ev # es) = clicked_value i (Some v') es"
    "numbers_sent i (ctl_step loc c ev) = numbers_sent i c"
    using bursting_step[OF Cons.prems(1,2) en(1) Cons.prems(4), of loc] by blast
  show ?case
    using Cons.IH[OF fired_ok_step[OF Cons.prems(1) en(1)] s(2) en(2) s(1)] s(3,4) by simp
qed

lemma sent_by_timer:
  assumes "bursting i k v c" "filter (sends i) (k_timers c) = [x]" "j < length (k_timers c)" "k_timers c ! j = x"
  shows "numbers_sent i (ctl_step loc c (Ev_fire j)) = numbers_sent i c @ [(i, Number_value v)]"
proof -
  have "x \<in> set (filter (sends i) (k_timers c))" unfolding assms(2) by simp
  moreover obtain e where "t_task x = Send_task e v" using assms(1,2) by (auto simp: bursting_def simp del: sends.simps)
  ultimately show ?thesis using assms(3,4) by (simp add: numbers_sent_def run_task_def listener_defs)
qed

text \<open>
  C8: debounce. From any reachable state in which no timer is scheduled to send a value for the
  entity, take a click on its stepper followed by any events of the page (clicks here and on other
  steppers, switches, choices, timers that fire, answers, time passing), as long as fewer than
  700 ms pass after the last click on it and no state message for it comes in. Then no number was
  sent for it, exactly one timer is scheduled to send one, due 700 ms after the last click, the
  value it sends is the one all its clicks add up to, which the stepper shows as pending, and when
  that timer fires that one value is sent. (A state message that confirms the value in between
  breaks the debounce: \<open>debounce_bypassed\<close>.)
\<close>

theorem clicks_debounced:
  assumes "enabled_run ctl_enabled (ctl_step loc) init_ctl es" and "c = run (ctl_step loc) init_ctl es"
    and idle: "\<forall>x\<in>set (k_timers c). \<not> sends (e_id e) x"
    and burst: "enabled_run ctl_enabled (ctl_step loc) c (Ev_step e d # evs)"
    and quiet: "debounce (e_id e) 700 evs = Some left"
    and c': "c' = run (ctl_step loc) c (Ev_step e d # evs)"
  shows "\<exists>x e' v. filter (sends (e_id e)) (k_timers c') = [x] \<and> t_task x = Send_task e' v \<and> t_due x = k_now c' + left \<and> 0 < left
    \<and> clicked_value (e_id e) (pending_value c (e_id e)) (Ev_step e d # evs) = Some v
    \<and> pending_value c' (e_id e) = Some v \<and> numbers_sent (e_id e) c' = numbers_sent (e_id e) c
    \<and> (\<forall>j < length (k_timers c'). k_timers c' ! j = x \<longrightarrow>
         numbers_sent (e_id e) (ctl_step loc c' (Ev_fire j)) = numbers_sent (e_id e) c @ [(e_id e, Number_value v)])"
proof -
  have inv: "ctl_ok c \<and> fired_ok c"
    unfolding assms(2) by (rule fired_run.inv_run[OF _ assms(1)]) (simp add: init_ctl_ok init_fired_ok)
  have one: "filter (sends (e_id e)) (k_timers c) = []" using idle by (simp del: sends.simps)
  note click = bursting_click[OF conjunct1[OF inv] disjI1[OF one], of d]
  have "ctl_ok (click_step e d c) \<and> fired_ok (click_step e d c)"
    using fired_ok_step[OF inv, of "Ev_step e d" loc] burst by simp
  from bursting_run[OF this click(1), of loc evs left] burst quiet click(2)
  obtain v where v: "bursting (e_id e) left v c'" "numbers_sent (e_id e) c' = numbers_sent (e_id e) c"
    "clicked_value (e_id e) (pending_value c (e_id e)) (Ev_step e d # evs) = Some v"
    unfolding c' by (auto simp del: sends.simps)
  then show ?thesis using sent_by_timer[OF v(1)] by (auto simp: bursting_def pending_value_def simp del: sends.simps)
qed


text \<open>A set point and three clicks on its stepper, with a state message between them.\<close>

definition sample_setpoint :: entity where
  "sample_setpoint = \<lparr> e_id = ''t'', e_name = ''T'', e_platform = ''number'', e_category = ''control'',
     e_kind = Numeric, e_device_class = None, e_unit = None, e_state_class = None, e_options = [],
     e_min = Some (Fin 5), e_max = Some (Fin 30), e_step = Some (Fin 1), e_writable = True,
     e_value = Some (Fin 20), e_text = None, e_updated = None \<rparr>"

definition bypass_events :: "ctl_event list" where
  "bypass_events = [Ev_step sample_setpoint (Fin 1), Ev_step sample_setpoint (Fin (- 1)),
     Ev_confirm sample_setpoint, Ev_step sample_setpoint (Fin 1), Ev_elapse 700, Ev_fire 0, Ev_fire 0]"

lemma sample_steps:
  "next_value sample_setpoint None (Fin 1) = Fin 21"
  "next_value sample_setpoint (Some (Fin 21)) (Fin (- 1)) = Fin 20"
  by (simp_all add: next_value_def sample_setpoint_def num_or_def num_truthy_def clamp_to_def round_cents_def)

lemma fl_micro_pos: "Fin 0 < fl (1 / 1000000)"
proof -
  have "rnd (1 / 2 ^ 20) \<le> rnd (1 / 1000000)" by (intro rnd_mono) simp
  moreover have "rnd (1 / 2 ^ 20) = (1 / 2 ^ 20 :: rat)" by (rule rnd_dyadic[of _ 20 1]) auto
  moreover have "fl (1 / 1000000) = Fin (rnd (1 / 1000000))" by (rule fl_small) simp
  ultimately show ?thesis by simp
qed

lemma debounce_commands:
  "enabled_run ctl_enabled (ctl_step loc) init_ctl bypass_events \<and>
   k_sent (run (ctl_step loc) init_ctl bypass_events) = [(''t'', Number_value (Fin 20)), (''t'', Number_value (Fin 21))]"
proof -
  let ?e = sample_setpoint
  have f: "e_id ?e = ''t''" "e_value ?e = Some (Fin 20)" by (simp_all add: sample_setpoint_def)
  show ?thesis
    using fl_micro_pos
    by (simp add: bypass_events_def init_ctl_def click_step_def pending_value_def listener_defs
        sample_steps f without_def)
qed

text \<open>
  The debounce can be bypassed. A set point of 20 is stepped up and back down, a state message
  repeats the value 20 and so confirms the pending 20 (the entry goes, its timer stays), and a
  third click finds no timer to clear: two commands are posted for three clicks in one window.
\<close>

theorem debounce_bypassed:
  "enabled_run ctl_enabled (ctl_step loc) init_ctl bypass_events \<and>
   filter (\<lambda>ev. \<exists>n. ev = Ev_elapse n) (take 4 bypass_events) = [] \<and>
   k_sent (run (ctl_step loc) init_ctl bypass_events) = [(''t'', Number_value (Fin 20)), (''t'', Number_value (Fin 21))]"
  using debounce_commands[of loc] by (simp add: bypass_events_def)

lemma skeleton_disabled [simp]: "skeleton (disabled_attr st e) = []"
  by (simp add: disabled_attr_def skeleton_eval)

lemma skeleton_button:
  \<open>skeleton (option_button st e opt) = ''<""""""><>''\<close>
  by (simp add: option_button_def skeleton_eval)

lemma skeleton_choice:
  "skeleton (choice_widget st e) = skeleton (choice_widget st' e')"
  if "length (e_options e) = length (e_options e')"
proof -
  have "map (\<lambda>x. skeleton (option_button st e x)) (e_options e) = map (\<lambda>x. skeleton (option_button st' e' x)) (e_options e')"
    using that unfolding skeleton_button by (simp add: list_eq_iff_nth_eq)
  then show ?thesis by (simp add: choice_widget_def skeleton_concat comp_def skeleton_eval)
qed

lemma skeleton_switch: "skeleton (switch_widget st e) = skeleton (switch_widget st' e')"
  by (simp add: switch_widget_def skeleton_eval)

lemma skeleton_stepper:
  assumes "\<And>x d. markup_free (loc x d)"
  shows "skeleton (stepper_widget loc st p e) = skeleton (stepper_widget loc st' p' e')"
proof -
  have "skeleton (num loc v n) = []" for v n using assms by (simp add: markup_free_num)
  then show ?thesis by (simp add: stepper_widget_def Let_def skeleton_eval)
qed

text \<open>
  The markup of a widget is fixed by the kind of the entity and the number of its options:
  no identifier, name, unit, option, text or value adds or removes a character that opens or
  closes a tag or an attribute value.
\<close>

theorem widget_markup_fixed:
  assumes "e_kind e = e_kind e'" and "length (e_options e) = length (e_options e')"
    and "\<And>x d. markup_free (loc x d)"
  shows "skeleton (widget loc st pending (Some e)) = skeleton (widget loc st' pending' (Some e'))"
  using assms skeleton_switch skeleton_choice skeleton_stepper[OF assms(3)]
  by (auto simp: widget_def split: kind.split)

section \<open>The properties at a sample set point\<close>

theorem pending_on_its_way_witness:
  "scheduled (run (ctl_step plain_format) init_ctl [Ev_step sample_setpoint (Fin 1)]) ''t'' (Fin 21) 0
   \<or> awaiting (run (ctl_step plain_format) init_ctl [Ev_step sample_setpoint (Fin 1)]) ''t'' (Fin 21) 0"
proof (rule pending_on_its_way[OF _ refl])
  show "map_get (k_pending (run (ctl_step plain_format) init_ctl [Ev_step sample_setpoint (Fin 1)])) ''t'' = Some (Fin 21, 0)"
    using sample_steps(1)
    by (simp add: click_step_def listener_defs init_ctl_def pending_value_def) (simp add: sample_setpoint_def)
qed simp

theorem commands_in_limits_witness: "in_limits (5, 30) (Fin 21)"
proof -
  have "sane (\<lambda>_. (5, 30)) sample_setpoint"
    by (simp add: sane_def sample_setpoint_def overflow_def)
  then have "\<forall>ev\<in>set bypass_events. sane_event (\<lambda>_. (5, 30)) ev" by (simp add: bypass_events_def)
  from commands_in_limits[OF _ this, of plain_format "''t''" "Fin 21"] debounce_commands[of plain_format]
  show ?thesis by simp
qed

definition sample_burst :: "ctl_event list" where
  "sample_burst = [Ev_elapse 500, Ev_step sample_setpoint (Fin (- 1)), Ev_elapse 600]"

theorem clicks_debounced_witness:
  "pending_value (run (ctl_step plain_format) init_ctl (Ev_step sample_setpoint (Fin 1) # sample_burst)) ''t'' = Some (Fin 20) \<and>
   numbers_sent ''t'' (run (ctl_step plain_format) init_ctl (Ev_step sample_setpoint (Fin 1) # sample_burst)) = []"
proof -
  let ?c = "run (ctl_step plain_format) init_ctl []"
  have e: "e_id sample_setpoint = ''t''" by (simp add: sample_setpoint_def)
  have idle: "\<forall>x\<in>set (k_timers ?c). \<not> sends (e_id sample_setpoint) x" by (simp add: init_ctl_def)
  have en: "enabled_run ctl_enabled (ctl_step plain_format) ?c (Ev_step sample_setpoint (Fin 1) # sample_burst)"
    by (simp add: sample_burst_def)
  have q: "debounce (e_id sample_setpoint) 700 sample_burst = Some 100" by (simp add: sample_burst_def)
  have v: "clicked_value ''t'' None (Ev_step sample_setpoint (Fin 1) # sample_burst) = Some (Fin 20)"
    by (simp add: sample_burst_def sample_steps e)
  have n: "pending_value ?c ''t'' = None" "numbers_sent ''t'' ?c = []"
    by (simp_all add: init_ctl_def pending_value_def numbers_sent_def)
  show ?thesis using clicks_debounced[OF _ refl idle en q refl] v n by (auto simp: e)
qed

theorem widget_markup_fixed_witness:
  \<open>skeleton (widget plain_format init_store (\<lambda>_. None) (Some sample_setpoint)) =
   skeleton (widget plain_format init_store (\<lambda>_. None)
     (Some (sample_setpoint\<lparr> e_id := ''"><script>'', e_name := ''<b>'', e_unit := Some ''">'' \<rparr>)))\<close>
  by (rule widget_markup_fixed) (simp_all add: plain_format_def)

end
