(* ===== verification/Api.thy ===== *)
theory Api
  imports Controls
begin

text \<open>
  \<open>api.js\<close>: the URLs, bodies and answers of the HTTP requests. Strings are UTF-8 byte lists, so
  \<open>encodeURIComponent\<close> works byte by byte. \<open>url_decode\<close>, \<open>split_on\<close> and \<open>query_get\<close> are what the
  receiving side of the protocol does with a URL (the URL standard), \<open>json_unquote\<close> what it does
  with a JSON string (RFC 8259): the lemmas say that it gets back what the dashboard meant.
\<close>

section \<open>encodeURIComponent\<close>

definition uri_unreserved :: "char \<Rightarrow> bool" where
  "uri_unreserved c =
     (let n = of_char c :: nat in
      48 \<le> n \<and> n \<le> 57 \<or> 65 \<le> n \<and> n \<le> 90 \<or> 97 \<le> n \<and> n \<le> 122
      \<or> n \<in> {45, 95, 46, 33, 126, 42, 39, 40, 41})"

definition hex_digit :: "nat \<Rightarrow> char" where
  "hex_digit d = char_of (if d < 10 then 48 + d else 55 + d)"

definition percent :: "char \<Rightarrow> string" where
  "percent c = [CHR ''%'', hex_digit (of_char c div 16), hex_digit (of_char c mod 16)]"

definition encode_uri_component :: "string \<Rightarrow> string" where
  "encode_uri_component s = concat (map (\<lambda>c. if uri_unreserved c then [c] else percent c) s)"

section \<open>The requests\<close>

definition ids_text :: "string list \<Rightarrow> string" where
  "ids_text ids = encode_uri_component (join '','' ids)"

definition history_path :: "string list \<Rightarrow> jsnum \<Rightarrow> jsnum \<Rightarrow> jsnum \<Rightarrow> string" where
  "history_path ids start stop points =
     ''api/history?ids='' @ ids_text ids @ ''&start='' @ number_text (jfloor start) @
     ''&end='' @ number_text (jfloor stop) @ ''&points='' @ number_text points"

definition values_at_path :: "string list \<Rightarrow> jsnum list \<Rightarrow> string" where
  "values_at_path ids ts =
     ''api/values_at?ids='' @ ids_text ids @ ''&ts='' @ join '','' (map (\<lambda>t. number_text (jfloor t)) ts)"

definition command_path :: "string \<Rightarrow> string" where
  "command_path i = ''api/entities/'' @ encode_uri_component i @ ''/command''"

text \<open>\<open>JSON.stringify({ value })\<close>: a Number that is not finite becomes \<open>null\<close>.\<close>

definition json_char :: "char \<Rightarrow> string" where
  "json_char c =
     (let n = of_char c :: nat in
      if n = 34 then [CHR 0x5C, CHR 0x22]
      else if n = 92 then [CHR 0x5C, CHR 0x5C]
      else if n = 8 then [CHR 0x5C, CHR ''b'']
      else if n = 9 then [CHR 0x5C, CHR ''t'']
      else if n = 10 then [CHR 0x5C, CHR ''n'']
      else if n = 12 then [CHR 0x5C, CHR ''f'']
      else if n = 13 then [CHR 0x5C, CHR ''r'']
      else if n < 32 then CHR 0x5C # ''u00'' @ [lower_char (hex_digit (n div 16)), lower_char (hex_digit (n mod 16))]
      else [c])"

definition json_string :: "string \<Rightarrow> string" where
  "json_string s = CHR 0x22 # concat (map json_char s) @ [CHR 0x22]"

definition json_value :: "command_value \<Rightarrow> string" where
  "json_value v =
     (case v of
        Text_value s \<Rightarrow> json_string s
      | Number_value x \<Rightarrow> if x = NaN \<or> x = PInf \<or> x = NInf then ''null'' else number_text x)"

definition command_body :: "command_value \<Rightarrow> string" where
  "command_body v = ''{'' @ json_string ''value'' @ '':'' @ json_value v @ ''}''"

section \<open>The answers\<close>

text \<open>
  An answer has a body that is JSON or not. \<open>detail\<close> gives the text of its member of that name,
  \<open>None\<close> where that is missing (or the body is \<open>null\<close>, which makes the access throw).
\<close>

datatype 'j body = Not_json | Json 'j

record 'j response =
  r_ok :: bool
  r_status_text :: string
  r_body :: "'j body"

datatype request_error = Network_error string | Http_error string | Syntax_error

definition text_or :: "string option \<Rightarrow> string \<Rightarrow> string" where
  "text_or a b = (case a of Some s \<Rightarrow> if s = [] then b else s | None \<Rightarrow> b)"

text \<open>\<open>fetched\<close> is what \<open>await fetch(...)\<close> gives: an answer, or the message of its rejection.\<close>

definition request_result :: "('j \<Rightarrow> string option) \<Rightarrow> string + 'j response \<Rightarrow> request_error + 'j" where
  "request_result detail fetched =
     (case fetched of
        Inl m \<Rightarrow> Inl (Network_error m)
      | Inr res \<Rightarrow>
          if \<not> r_ok res then
            Inl (Http_error (case r_body res of
                               Not_json \<Rightarrow> r_status_text res
                             | Json j \<Rightarrow> text_or (detail j) (r_status_text res)))
          else (case r_body res of Json j \<Rightarrow> Inr j | Not_json \<Rightarrow> Inl Syntax_error))"

section \<open>The other end\<close>

definition hex_value :: "char \<Rightarrow> nat option" where
  "hex_value c =
     (let n = of_char c :: nat in
      if 48 \<le> n \<and> n \<le> 57 then Some (n - 48)
      else if 65 \<le> n \<and> n \<le> 70 then Some (n - 55)
      else if 97 \<le> n \<and> n \<le> 102 then Some (n - 87) else None)"

fun url_decode :: "string \<Rightarrow> string" where
  "url_decode [] = []"
| "url_decode [a] = [a]"
| "url_decode [a, b] = [a, b]"
| "url_decode (a # b # c # s) =
     (if a = CHR ''%'' \<and> hex_value b \<noteq> None \<and> hex_value c \<noteq> None
      then char_of (16 * the (hex_value b) + the (hex_value c)) # url_decode s
      else a # url_decode (b # c # s))"

fun split_on :: "char \<Rightarrow> string \<Rightarrow> string list" where
  "split_on c [] = [[]]"
| "split_on c (x # s) =
     (if x = c then [] # split_on c s
      else (case split_on c s of [] \<Rightarrow> [[x]] | w # ws \<Rightarrow> (x # w) # ws))"

text \<open>The decoded value of a parameter in the query part of a URL.\<close>

definition query_get :: "string \<Rightarrow> string \<Rightarrow> string option" where
  "query_get name url =
     (case split_on CHR ''?'' url of
        [path, query] \<Rightarrow>
          map_option (\<lambda>kv. url_decode (concat (tl kv)))
            (find (\<lambda>kv. hd kv = name) (map (split_on CHR ''='') (split_on CHR ''&'' query)))
      | _ \<Rightarrow> None)"

text \<open>\<open>_split_ids\<close> of \<open>app.py\<close> with its limit on the number of identifiers.\<close>

definition split_ids :: "nat \<Rightarrow> string \<Rightarrow> string list" where
  "split_ids max_ids ids = take max_ids (filter (\<lambda>i. i \<noteq> []) (split_on CHR '','' ids))"

text \<open>The string that a JSON string literal denotes, read after its opening quote, and the rest of the text (of the
  escapes by number only those of ASCII are read, which the page writes).\<close>

fun json_literal :: "string \<Rightarrow> (string \<times> string) option" where
  "json_literal [] = None"
| "json_literal (c # s) =
     (if of_char c = (34::nat) then Some ([], s)
      else if of_char c = (92::nat) then
        (case s of
           x # t \<Rightarrow>
             (let n = of_char x :: nat in
              if n = 34 \<or> n = 92 \<or> n = 47 then map_option (apfst (Cons x)) (json_literal t)
              else if n = 98 then map_option (apfst (Cons (CHR 0x08))) (json_literal t)
              else if n = 116 then map_option (apfst (Cons (CHR 0x09))) (json_literal t)
              else if n = 110 then map_option (apfst (Cons (CHR 0x0A))) (json_literal t)
              else if n = 102 then map_option (apfst (Cons (CHR 0x0C))) (json_literal t)
              else if n = 114 then map_option (apfst (Cons (CHR 0x0D))) (json_literal t)
              else if n = 117 then
                (case t of
                   z1 # z2 # h1 # h2 # u \<Rightarrow>
                     if z1 = CHR ''0'' \<and> z2 = CHR ''0'' \<and> hex_value h1 \<noteq> None \<and> hex_value h2 \<noteq> None \<and> the (hex_value h1) < 8
                     then map_option (apfst (Cons (char_of (16 * the (hex_value h1) + the (hex_value h2))))) (json_literal u)
                     else None
                 | _ \<Rightarrow> None)
              else None)
         | [] \<Rightarrow> None)
      else map_option (apfst (Cons c)) (json_literal s))"

definition json_unquote :: "string \<Rightarrow> string option" where
  "json_unquote s =
     (case s of
        c # t \<Rightarrow> if of_char c = (34::nat) then (case json_literal t of Some (v, []) \<Rightarrow> Some v | _ \<Rightarrow> None) else None
      | [] \<Rightarrow> None)"

section \<open>Lemmas\<close>

lemma of_char_halves [simp]: "(of_char c :: nat) div 16 < 16" "(of_char c :: nat) mod 16 < 16"
proof -
  have "(of_char c :: nat) < 16 * 16" using nat_of_char_less_256[of c] by simp
  then show "(of_char c :: nat) div 16 < 16" by (simp add: less_mult_imp_div_less)
qed simp

lemma of_char_hex_digit: "d < 16 \<Longrightarrow> (of_char (hex_digit d) :: nat) = (if d < 10 then 48 + d else 55 + d)"
  by (simp add: hex_digit_def)

lemma hex_value_digit [simp]: "d < 16 \<Longrightarrow> hex_value (hex_digit d) = Some d"
  by (simp add: hex_value_def Let_def of_char_hex_digit)

lemma hex_value_lower_digit [simp]: "d < 16 \<Longrightarrow> hex_value (lower_char (hex_digit d)) = Some d"
  by (simp add: hex_value_def lower_char_def Let_def of_char_hex_digit)

lemma hex_digit_unreserved [simp]: "d < 16 \<Longrightarrow> uri_unreserved (hex_digit d)"
  by (auto simp: uri_unreserved_def Let_def of_char_hex_digit)

lemma hex_pair [simp]: "char_of (16 * ((of_char c :: nat) div 16) + of_char c mod 16) = c"
  by (simp add: mult.commute[of 16])

lemma url_decode_percent [simp]: "url_decode (percent c @ s) = c # url_decode s"
  by (simp add: percent_def)

lemma url_decode_plain: "c \<noteq> CHR ''%'' \<Longrightarrow> url_decode (c # s) = c # url_decode s"
  by (cases s rule: url_decode.cases) auto

lemma unreserved_not_percent: "uri_unreserved c \<Longrightarrow> c \<noteq> CHR ''%''"
  by (auto simp: uri_unreserved_def Let_def)

lemma url_decode_encode [simp]: "url_decode (encode_uri_component s) = s"
proof (induction s)
  case (Cons c s)
  then show ?case
    by (simp add: encode_uri_component_def url_decode_plain unreserved_not_percent)
qed (simp add: encode_uri_component_def)

lemma encode_chars: "c \<in> set (encode_uri_component s) \<Longrightarrow> uri_unreserved c \<or> c = CHR ''%''"
  by (auto simp: encode_uri_component_def percent_def split: if_splits)

lemma encode_delimiters [simp]:
  "CHR ''/'' \<notin> set (encode_uri_component s)" "CHR ''?'' \<notin> set (encode_uri_component s)"
  "CHR ''&'' \<notin> set (encode_uri_component s)" "CHR ''='' \<notin> set (encode_uri_component s)"
  using encode_chars[of "CHR ''/''" s] encode_chars[of "CHR ''?''" s] encode_chars[of "CHR ''&''" s]
    encode_chars[of "CHR ''=''" s]
  by (auto simp: uri_unreserved_def Let_def)

lemma number_text_delimiters [simp]:
  "CHR ''?'' \<notin> set (number_text v)" "CHR ''&'' \<notin> set (number_text v)" "CHR ''='' \<notin> set (number_text v)"
  "CHR ''%'' \<notin> set (number_text v)"
  using number_text_chars[of "CHR ''?''" v] number_text_chars[of "CHR ''&''" v]
    number_text_chars[of "CHR ''=''" v] number_text_chars[of "CHR ''%''" v]
  by (auto simp: number_char_def is_digit_def)

lemma url_decode_plain_text: "CHR ''%'' \<notin> set s \<Longrightarrow> url_decode s = s"
  by (induction s) (auto simp: url_decode_plain)

lemma split_on_not_Nil [simp]: "split_on c s \<noteq> []"
  by (induction s) (auto split: list.splits)

lemma split_on_none: "c \<notin> set s \<Longrightarrow> split_on c s = [s]"
  by (induction s) auto

lemma split_on_append: "c \<notin> set s \<Longrightarrow> split_on c (s @ c # t) = s # split_on c t"
  by (induction s) auto

lemma split_on_append_free:
  "c \<notin> set s \<Longrightarrow> split_on c (s @ t) = (s @ hd (split_on c t)) # tl (split_on c t)"
proof (induction s)
  case Nil
  then show ?case using split_on_not_Nil[of c t] by (cases "split_on c t") auto
qed auto

lemma split_on_join:
  "xs \<noteq> [] \<Longrightarrow> (\<And>x. x \<in> set xs \<Longrightarrow> c \<notin> set x) \<Longrightarrow> split_on c (join [c] xs) = xs"
  by (induction "[c]" xs rule: join.induct) (auto simp: split_on_none split_on_append)

lemma split_ids_join:
  assumes "ids \<noteq> []" "length ids \<le> n" "\<And>i. i \<in> set ids \<Longrightarrow> i \<noteq> [] \<and> CHR '','' \<notin> set i"
  shows "split_ids n (join '','' ids) = ids"
proof -
  have "split_on CHR '','' (join '','' ids) = ids" using assms by (intro split_on_join) auto
  moreover have "filter (\<lambda>i. i \<noteq> []) ids = ids" using assms(3) by (simp add: filter_id_conv)
  ultimately show ?thesis using assms(2) by (simp add: split_ids_def)
qed

lemma json_literal_char: "json_literal (json_char c @ s) = map_option (apfst (Cons c)) (json_literal s)"
proof -
  have "(of_char c = (34::nat)) = (c = CHR 0x22)" "(of_char c = (92::nat)) = (c = CHR 0x5C)"
    "(of_char c = (8::nat)) = (c = CHR 0x08)" "(of_char c = (9::nat)) = (c = CHR 0x09)"
    "(of_char c = (10::nat)) = (c = CHR 0x0A)" "(of_char c = (12::nat)) = (c = CHR 0x0C)"
    "(of_char c = (13::nat)) = (c = CHR 0x0D)"
    using of_char_eq_iff[of c "CHR 0x22", where 'a = nat] of_char_eq_iff[of c "CHR 0x5C", where 'a = nat]
      of_char_eq_iff[of c "CHR 0x08", where 'a = nat] of_char_eq_iff[of c "CHR 0x09", where 'a = nat]
      of_char_eq_iff[of c "CHR 0x0A", where 'a = nat] of_char_eq_iff[of c "CHR 0x0C", where 'a = nat]
      of_char_eq_iff[of c "CHR 0x0D", where 'a = nat]
    by simp_all
  then show ?thesis by (auto simp: json_char_def Let_def simp del: json_literal.simps(1))
qed

lemma json_literal_text: "json_literal (concat (map json_char s) @ CHR 0x22 # t) = Some (s, t)"
  by (induction s) (auto simp: json_literal_char)

lemma json_unquote_string [simp]: "json_unquote (json_string s) = Some s"
  by (simp add: json_unquote_def json_string_def json_literal_text)

section \<open>Properties\<close>

text \<open>
  The URL of a command names exactly its entity: split at the slashes and decoded, it is the
  four expected segments with the identifier unchanged in third place, whatever characters the
  identifier has.
\<close>

theorem command_path_segments:
  "map url_decode (split_on CHR ''/'' (command_path i)) = [''api'', ''entities'', i, ''command'']"
proof -
  have "split_on CHR ''/'' (encode_uri_component i @ CHR ''/'' # ''command'')
      = [encode_uri_component i, ''command'']"
    by (subst split_on_append) simp_all
  then show ?thesis by (simp add: command_path_def url_decode_plain_text)
qed

lemma query_history_path:
  "query_get ''ids'' (history_path ids a b p) = Some (join '','' ids)
    \<and> query_get ''start'' (history_path ids a b p) = Some (number_text (jfloor a))
    \<and> query_get ''end'' (history_path ids a b p) = Some (number_text (jfloor b))
    \<and> query_get ''points'' (history_path ids a b p) = Some (number_text p)"
proof -
  define kv :: "string \<Rightarrow> string \<Rightarrow> string" where "kv k v = k @ CHR ''='' # v" for k v
  define Q where "Q = [kv ''ids'' (ids_text ids), kv ''start'' (number_text (jfloor a)),
    kv ''end'' (number_text (jfloor b)), kv ''points'' (number_text p)]"
  have path: "history_path ids a b p = ''api/history'' @ CHR ''?'' # join ''&'' Q"
    by (simp add: history_path_def Q_def kv_def)
  have "CHR ''?'' \<notin> set (join ''&'' Q)" by (simp add: Q_def kv_def ids_text_def)
  then have url: "split_on CHR ''?'' (history_path ids a b p) = [''api/history'', join ''&'' Q]"
    unfolding path by (subst split_on_append) (simp_all add: split_on_none)
  have query: "split_on CHR ''&'' (join ''&'' Q) = Q"
    by (rule split_on_join) (auto simp: Q_def kv_def ids_text_def)
  have "split_on CHR ''='' (kv k v) = [k, v]" if "CHR ''='' \<notin> set k" "CHR ''='' \<notin> set v" for k v
    using that by (simp add: kv_def split_on_append split_on_none)
  then have "map (split_on CHR ''='') Q = [[''ids'', ids_text ids], [''start'', number_text (jfloor a)],
    [''end'', number_text (jfloor b)], [''points'', number_text p]]"
    by (simp add: Q_def ids_text_def)
  then show ?thesis
    by (simp add: query_get_def url query ids_text_def url_decode_plain_text)
qed

text \<open>
  C34: the server reads back from the URL of a history request the very list of identifiers, for up
  to its limit of identifiers without comma, and the bounds and the number of points asked for.
\<close>

theorem history_path_parameters:
  assumes "ids \<noteq> []" "length ids \<le> n" "\<And>i. i \<in> set ids \<Longrightarrow> i \<noteq> [] \<and> CHR '','' \<notin> set i"
  shows "map_option (split_ids n) (query_get ''ids'' (history_path ids a b p)) = Some ids
    \<and> query_get ''start'' (history_path ids a b p) = Some (number_text (jfloor a))
    \<and> query_get ''end'' (history_path ids a b p) = Some (number_text (jfloor b))
    \<and> query_get ''points'' (history_path ids a b p) = Some (number_text p)"
  using split_ids_join[OF assms] query_history_path[of ids a b p] by simp

text \<open>
  The body of a command is a JSON object with the single member \<open>value\<close>; for a text it is a
  string literal that denotes that text, whatever quotes, backslashes or control characters it has.
\<close>

theorem command_body_value:
  "\<exists>lit. command_body (Text_value s) = ''{'' @ json_string ''value'' @ '':'' @ lit @ ''}''
     \<and> json_unquote lit = Some s"
  by (simp add: command_body_def json_value_def)

section \<open>The properties at a sample request\<close>

theorem history_path_parameters_witness:
  "map_option (split_ids 32) (query_get ''ids'' (history_path [''sensor/a b'', ''x&y=1''] (Fin 10) (Fin 20) (Fin 600)))
   = Some [''sensor/a b'', ''x&y=1'']"
  by (rule history_path_parameters[THEN conjunct1]) auto

end
