(* ===== verification/Overview.thy ===== *)
theory Overview
  imports Schematic Energy Timeline LineChart Api
begin

text \<open>
  \<open>views/overview.js\<close> apart from the schematic: the tiles, the panel of controls that is patched in
  place, the 24 hour history, the day so far, and the state of the view (chart, intervals,
  animation frame, requests in flight). White space between tags is left out of the texts.
\<close>

section \<open>Tiles\<close>

record kpi =
  kp_key :: name_key
  kp_label :: string
  kp_icon :: string
  kp_cls :: string
  kp_color :: string

definition ICONS :: "(string \<times> string) list" where
  \<open>ICONS = map (\<lambda>(k, d). (k, ''<svg viewBox="0 0 24 24"><path d="'' @ d @ ''"/></svg>''))
     [(''temp'', ''M14 14.8V5a2 2 0 1 0-4 0v9.8a4 4 0 1 0 4 0z''),
      (''drop'', ''M12 2s7 7.6 7 13a7 7 0 0 1-14 0c0-5.4 7-13 7-13z''),
      (''bolt'', ''M13 2L4 14h7l-1 8 9-12h-7z''),
      (''home'', ''M3 11l9-8 9 8v10h-6v-6H9v6H3z''),
      (''flame'', ''M12 2c1 4 6 6 6 12a6 6 0 0 1-12 0c0-3 2-5 3-6 0 2 1 3 2 3 0-4-1-6 1-9z''),
      (''leaf'', ''M20 4C9 4 4 9 4 16c0 1 0 2 .3 3C6 13 10 10 15 9c-4 2-7 5-9 11h2c3-8 12-6 12-16z'')]\<close>

definition icon :: "string \<Rightarrow> string" where
  "icon k = nullish (map_of ICONS k) ''undefined''"

definition KPIS :: "kpi list" where
  "KPIS =
     [\<lparr> kp_key = K_outdoor, kp_label = ''Outdoor'', kp_icon = ''temp'', kp_cls = ''cool'', kp_color = ''--s1'' \<rparr>,
      \<lparr> kp_key = K_waterOut, kp_label = ''Flow temp'', kp_icon = ''flame'', kp_cls = ''heat'', kp_color = ''--s2'' \<rparr>,
      \<lparr> kp_key = K_tank, kp_label = ''Hot water'', kp_icon = ''drop'', kp_cls = ''heat'', kp_color = ''--s5'' \<rparr>,
      \<lparr> kp_key = K_outlet1, kp_label = ''Outlet zone 1'', kp_icon = ''home'', kp_cls = ''accent'', kp_color = ''--s7'' \<rparr>,
      \<lparr> kp_key = K_outlet2, kp_label = ''Outlet zone 2'', kp_icon = ''home'', kp_cls = ''accent'', kp_color = ''--s4'' \<rparr>,
      \<lparr> kp_key = K_power, kp_label = ''Power'', kp_icon = ''bolt'', kp_cls = ''good'', kp_color = ''--s3'' \<rparr>]"

text \<open>The line below the value: the range of the day, or the target of the tank.\<close>

definition kpi_meta :: "locale_format \<Rightarrow> store \<Rightarrow> jsnum option list option \<Rightarrow> kpi \<Rightarrow> entity \<Rightarrow> string" where
  "kpi_meta loc st series k e =
     (if kp_key k = K_tank \<and> val st (N K_dhwTarget) \<noteq> None
      then ''Target '' @ num loc (val st (N K_dhwTarget)) 0 @ '' '' @ degree @ ''C''
      else let vals = List.map_filter id (nullish series []); d = (if e_unit e = Some ''W'' then 0 else 1)
           in if vals = [] then []
              else ''24h '' @ num loc (Some (jmins vals)) d @ '' '' @ endash @ '' '' @ num loc (Some (jmaxs vals)) d @ '' '' @ esc (e_unit e))"

definition kpi_tile :: "locale_format \<Rightarrow> (string \<Rightarrow> string) \<Rightarrow> store \<Rightarrow> (string, jsnum option list) jsmap \<Rightarrow> kpi \<Rightarrow> string" where
  \<open>kpi_tile loc uid st spark k =
     (case ent st (N (kp_key k)) of
        None \<Rightarrow> []
      | Some e \<Rightarrow>
          let vu = (if e_unit e = Some ''W'' then power loc (e_value e) else (entity_value loc (Some e), nullish (e_unit e) []));
              series = map_get spark (e_id e)
          in ''<div class="card kpi '' @ kp_cls k @ ''" data-entity="'' @ esc (Some (e_id e)) @ ''"><div class="label"><i>'' @
             icon (kp_icon k) @ ''</i>'' @ esc (Some (kp_label k)) @ ''</div><div class="value">'' @ fst vu @ ''<small>'' @
             esc (Some (snd vu)) @ ''</small></div><div class="meta">'' @ kpi_meta loc st series k e @ ''</div><div class="spark">'' @
             (case series of None \<Rightarrow> [] | Some s \<Rightarrow> sparkline (uid (e_id e)) (Fin 200) (Fin 42) (kp_color k) True s) @ ''</div></div>'')\<close>

definition cop_tile :: "locale_format \<Rightarrow> store \<Rightarrow> string" where
  \<open>cop_tile loc st =
     (let cop = live_cop st; hq = power loc (heat_output st); p = power loc (val st (N K_power))
      in ''<div class="card kpi good" style="cursor:default"><div class="label"><i>'' @ icon ''leaf'' @ ''</i>Live COP</div><div class="value">'' @
         (if cop = None then endash else num loc cop 2) @ ''</div><div class="meta">'' @
         (if cop = None then ''Compressor idle'' else fst hq @ '' '' @ snd hq @ '' heat from '' @ fst p @ '' '' @ snd p) @ ''</div></div>'')\<close>

definition render_kpis :: "locale_format \<Rightarrow> (string \<Rightarrow> string) \<Rightarrow> store \<Rightarrow> (string, jsnum option list) jsmap \<Rightarrow> string" where
  "render_kpis loc uid st spark = concat (map (kpi_tile loc uid st spark) KPIS) @ cop_tile loc st"

section \<open>The panel of controls\<close>

definition CONTROL_ORDER :: "string list" where
  "CONTROL_ORDER = map N [K_mode, K_zone1, K_zone1Target, K_zone2, K_zone2Target, K_dhw, K_dhwMode, K_dhwTarget]"

text \<open>\<open>indexOf\<close>, with 99 for -1.\<close>

definition control_rank :: "entity \<Rightarrow> nat" where
  "control_rank e =
     (let i = length (takeWhile (\<lambda>n. n \<noteq> e_name e) CONTROL_ORDER) in if i < length CONTROL_ORDER then i else 99)"

text \<open>\<open>collate a b\<close>: \<open>a.localeCompare(b) <= 0\<close>.\<close>

definition control_before :: "(string \<Rightarrow> string \<Rightarrow> bool) \<Rightarrow> entity \<Rightarrow> entity \<Rightarrow> bool" where
  "control_before collate a b =
     (control_rank a < control_rank b \<or> control_rank a = control_rank b \<and> collate (e_name a) (e_name b))"

definition controls :: "(string \<Rightarrow> string \<Rightarrow> bool) \<Rightarrow> store \<Rightarrow> entity list" where
  "controls collate st = sort_by (control_before collate) (filter (\<lambda>e. e_category e = ''control'') (all_entities st))"

text \<open>
  A row of the panel: its \<open>data-row\<close>, its head, the \<open>_html\<close> of its slot (the markup last assigned), and
  the option that a click has marked active in the slot since.
\<close>

record control_row =
  cr_id :: string
  cr_head :: string
  cr_html :: "string option"
  cr_marked :: "string option"

record panel =
  pn_key :: "string option"
  pn_rows :: "control_row list"

definition empty_panel :: panel where
  "empty_panel = \<lparr> pn_key = None, pn_rows = [] \<rparr>"

definition bool_text :: "bool option \<Rightarrow> string" where
  "bool_text b = (case b of None \<Rightarrow> ''undefined'' | Some True \<Rightarrow> ''true'' | Some False \<Rightarrow> ''false'')"

definition panel_key :: "store \<Rightarrow> entity list \<Rightarrow> string" where
  "panel_key st es = join '','' (map e_id es) @ bool_text (s_read_only (st_status st))"

definition opt_num_text :: "jsnum option \<Rightarrow> string" where
  "opt_num_text v = (case v of None \<Rightarrow> ''null'' | Some x \<Rightarrow> number_text x)"

definition control_head :: "entity \<Rightarrow> string" where
  \<open>control_head e =
     ''<div><div class="name">'' @ esc (Some (e_name e)) @ ''</div><div class="hint">'' @
     (if e_kind e = Numeric \<and> e_min e \<noteq> None
      then opt_num_text (e_min e) @ endash @ opt_num_text (e_max e) @ '' '' @ esc (e_unit e) else []) @ ''</div></div>''\<close>

definition new_row :: "entity \<Rightarrow> control_row" where
  "new_row e = \<lparr> cr_id = e_id e, cr_head = control_head e, cr_html = None, cr_marked = None \<rparr>"

text \<open>\<open>querySelector\<close> finds the first row of an identifier.\<close>

fun patch_row :: "string \<Rightarrow> string \<Rightarrow> control_row list \<Rightarrow> control_row list" where
  "patch_row i html [] = []"
| "patch_row i html (r # rs) =
     (if cr_id r = i then (if cr_html r \<noteq> Some html then r\<lparr> cr_html := Some html, cr_marked := None \<rparr> else r) # rs
      else r # patch_row i html rs)"

definition render_controls ::
  "locale_format \<Rightarrow> (string \<Rightarrow> string \<Rightarrow> bool) \<Rightarrow> store \<Rightarrow> (string \<Rightarrow> jsnum option) \<Rightarrow> panel \<Rightarrow> panel" where
  "render_controls loc collate st pending p =
     (let es = controls collate st in
      if es = [] then \<lparr> pn_key = Some [], pn_rows = [] \<rparr>
      else
        let p = (if pn_key p \<noteq> Some (panel_key st es) then \<lparr> pn_key = Some (panel_key st es), pn_rows = map new_row es \<rparr> else p)
        in p\<lparr> pn_rows := fold (\<lambda>e. patch_row (e_id e) (widget loc st pending (Some e))) es (pn_rows p) \<rparr>)"

text \<open>The click on an option marks its button in the row (\<open>Mark_active\<close> of the control listeners).\<close>

definition mark_active :: "string \<Rightarrow> string \<Rightarrow> panel \<Rightarrow> panel" where
  "mark_active i opt p = p\<lparr> pn_rows := map (\<lambda>r. if cr_id r = i then r\<lparr> cr_marked := Some opt \<rparr> else r) (pn_rows p) \<rparr>"

section \<open>The history of the day\<close>

definition history_keys :: "name_key list" where
  "history_keys = [K_outdoor, K_waterOut, K_waterIn, K_tank, K_outlet1, K_outlet2]"

definition history_states :: "(name_key \<times> string) list" where
  "history_states = [(K_valve, ''3-way valve''), (K_opMode, ''Compressor''), (K_zone1, ''Zone 1''), (K_zone2, ''Zone 2''), (K_defrost, ''Defrost'')]"

definition ent_id :: "store \<Rightarrow> name_key \<Rightarrow> string option" where
  "ent_id st k = map_option e_id (ent st (N k))"

definition history_ids :: "store \<Rightarrow> string list" where
  "history_ids st =
     first_occurrences (filter (\<lambda>i. i \<noteq> []) (List.map_filter (ent_id st) (history_keys @ [K_power] @ map fst history_states)))"

definition series_of :: "(string \<Rightarrow> series option) \<Rightarrow> store \<Rightarrow> name_key \<Rightarrow> series option" where
  "series_of res st k = Option.bind (ent_id st k) res"

definition chart_tables :: "(string \<Rightarrow> series option) \<Rightarrow> store \<Rightarrow> data_table list" where
  "chart_tables res st =
     map (\<lambda>k. case series_of res st k of Some s \<Rightarrow> (sr_t s, sr_v s) | None \<Rightarrow> ([], [])) history_keys"

definition state_row_order :: "entity \<Rightarrow> string list" where
  "state_row_order e = (if e_kind e = Binary then [''ON'', ''OFF''] else e_options e)"

definition activity_rows :: "(string \<Rightarrow> series option) \<Rightarrow> store \<Rightarrow> tl_row list" where
  "activity_rows res st =
     List.map_filter (\<lambda>(k, label). case (series_of res st k, ent st (N k)) of
        (Some s, Some e) \<Rightarrow> Some \<lparr> row_label = label, row_data = s, row_order = state_row_order e, row_hide = [] \<rparr>
      | _ \<Rightarrow> None) history_states"

definition spark_data :: "(string \<Rightarrow> series option) \<Rightarrow> store \<Rightarrow> jsnum \<Rightarrow> jsnum \<Rightarrow> (string, jsnum option list) jsmap" where
  "spark_data res st start stop =
     fold (\<lambda>k m. case (ent_id st (kp_key k), series_of res st (kp_key k)) of
        (Some i, Some s) \<Rightarrow> map_set i (resample s start stop 60) m
      | _ \<Rightarrow> m) KPIS []"

section \<open>The day so far\<close>

record today =
  td_used :: "jsnum option"
  td_made :: "jsnum option"
  td_cop :: "jsnum option"
  td_pct :: jsnum

definition since_midnight :: "jsnum option list \<Rightarrow> jsnum option" where
  "since_midnight arr =
     (case (at_null arr 0, at_null arr 1) of (Some a, Some b) \<Rightarrow> Some (jmax 0 (b - a)) | _ \<Rightarrow> None)"

definition today_values :: "jsnum option list \<Rightarrow> jsnum option list \<Rightarrow> today" where
  "today_values vi vo =
     (let used = since_midnight vi; made = since_midnight vo;
          cop = (case (used, made) of (Some u, Some m) \<Rightarrow> if num_truthy u then Some (m / u) else None | _ \<Rightarrow> None)
      in \<lparr> td_used = used, td_made = made, td_cop = cop,
           td_pct = (case cop of None \<Rightarrow> 0 | Some c \<Rightarrow> jmin 1 (c / Fin 6)) \<rparr>)"

definition pi_number :: jsnum where
  "pi_number = Fin (884279719003555 / 281474976710656)"

definition ring_length :: jsnum where
  "ring_length = Fin 2 * pi_number * Fin 46"

definition today_html :: "locale_format \<Rightarrow> today \<Rightarrow> string" where
  \<open>today_html loc td =
     (let u = Format.energy loc (td_used td); m = Format.energy loc (td_made td)
      in ''<div class="card-head"><div><h2>Today</h2><div class="sub">Since midnight</div></div>'' @
         ''<a class="btn" href="#energy">Energy<svg viewBox="0 0 24 24"><path d="M5 12h14M13 6l6 6-6 6"/></svg></a></div>'' @
         ''<div style="display:flex;align-items:center;gap:20px;flex-wrap:wrap">'' @
         ''<svg class="cop-ring" viewBox="0 0 120 120" role="img" aria-label="COP today">'' @
         ''<circle cx="60" cy="60" r="46" fill="none" stroke="var(--surface-3)" stroke-width="10"/>'' @
         ''<circle cx="60" cy="60" r="46" fill="none" stroke="var(--good)" stroke-width="10" stroke-linecap="round" stroke-dasharray="'' @
         number_text (ring_length * td_pct td) @ '' '' @ number_text ring_length @
         ''" transform="rotate(-90 60 60)" style="transition:stroke-dasharray .8s"/>'' @
         ''<text x="60" y="62" text-anchor="middle" font-size="26" font-weight="700" fill="var(--text)">'' @
         (if td_cop td = None then endash else num loc (td_cop td) 1) @ ''</text>'' @
         ''<text x="60" y="82" text-anchor="middle" font-size="10" font-weight="600" fill="var(--text-3)" letter-spacing=".08em">COP</text></svg>'' @
         ''<div style="display:flex;flex-direction:column;gap:14px;flex:1;min-width:140px">'' @
         ''<div><div class="faint" style="font-size:12px;font-weight:600">HEAT PRODUCED</div>'' @
         ''<div class="big-number" style="font-size:26px;color:var(--text)">'' @ fst m @ ''<small>'' @ snd m @ ''</small></div></div>'' @
         ''<div><div class="faint" style="font-size:12px;font-weight:600">ELECTRICITY USED</div>'' @
         ''<div class="big-number" style="font-size:26px">'' @ fst u @ ''<small>'' @ snd u @ ''</small></div></div></div></div>'' @
         ''<p class="faint" style="font-size:12px;margin-top:14px">'' @
         (case (td_made td, td_used td) of
            (Some mm, Some uu) \<Rightarrow>
              let f = Format.energy loc (Some (jmax 0 (mm - uu)))
              in ''Free ambient energy today: <b style="color:var(--text)">'' @ fst f @ '' '' @ snd f @ ''</b>''
          | _ \<Rightarrow> []) @ ''</p>'')\<close>

definition no_counters_html :: string where
  \<open>no_counters_html = ''<div class="card-head"><h2>Today</h2></div><div class="empty-state">No energy counters discovered</div>''\<close>

text \<open>The request of \<open>loadToday\<close>: identifiers and times in seconds; \<open>None\<close> when the counters are unknown.\<close>

definition today_request :: "zone \<Rightarrow> store \<Rightarrow> int \<Rightarrow> (string list \<times> jsnum list) option" where
  "today_request z st now =
     (case (ent_id st K_energyIn, ent_id st K_energyOut) of
        (Some i, Some j) \<Rightarrow> Some ([i, j], [Fin (of_int (set_midnight z now)) / Fin 1000, Fin (of_int now) / Fin 1000])
      | _ \<Rightarrow> None)"

section \<open>The page\<close>

definition div_el :: "string \<Rightarrow> (string \<times> string) list \<Rightarrow> dom list \<Rightarrow> dom" where
  "div_el cls attrs cs = El ''div'' ((if cls = [] then [] else [(''class'', cls)]) @ attrs) cs"

definition sub_el :: "string \<Rightarrow> dom" where
  "sub_el s = div_el ''sub'' [] [Tx s]"

definition overview_dom :: "store \<Rightarrow> dom" where
  "overview_dom st =
     div_el ''grid overview-grid'' []
       [El ''section'' [(''class'', ''span-12 kpis''), (''id'', ''ov-kpis'')] [],
        div_el ''col span-8'' []
          [El ''section'' [(''class'', ''card flow-card'')]
             [div_el ''card-head'' []
                [div_el [] [] [El ''h2'' [] [Tx ''System''], div_el ''sub'' [(''id'', ''ov-flow-sub'')] []],
                 div_el ''pills'' [(''id'', ''ov-pills'')] []],
              div_el ''flow-wrap'' [] [flow_svg st],
              div_el ''flow-stats'' [(''id'', ''ov-flow-stats'')] []],
           El ''section'' [(''class'', ''card chart-card'')]
             [div_el ''card-head'' []
                [div_el [] [] [El ''h2'' [] [Tx ''Temperatures''], sub_el ''Last 24 hours''],
                 El ''a'' [(''class'', ''btn''), (''href'', ''#history'')]
                   [Tx ''Open history'', El ''svg'' [(''viewBox'', ''0 0 24 24'')] [path_el ''M5 12h14M13 6l6 6-6 6'' []]]],
              div_el [] [(''id'', ''ov-chart'')] []],
           El ''section'' [(''class'', ''card'')]
             [div_el ''card-head'' [] [div_el [] [] [El ''h2'' [] [Tx ''Activity''], sub_el ''Last 24 hours'']],
              div_el [] [(''id'', ''ov-activity'')] []]],
        div_el ''col span-4'' []
          [El ''section'' [(''class'', ''card''), (''id'', ''ov-today'')] [],
           El ''section'' [(''class'', ''card'')]
             [div_el ''card-head'' [] [El ''h2'' [] [Tx ''Controls''], El ''span'' [(''class'', ''sub''), (''id'', ''ov-ro'')] []],
              div_el ''controls'' [(''id'', ''ov-controls'')] []]]]"

definition overview_series :: "line_series list" where
  "overview_series = map (\<lambda>(l, c). \<lparr> ls_label = l, ls_color = c, ls_unit = Some (degree @ ''C''), ls_decimals = None, ls_format = None \<rparr>)
     [(''Outdoor'', ''--s1''), (''Flow out'', ''--s2''), (''Return'', ''--s3''), (''DHW tank'', ''--s5''),
      (''Outlet zone 1'', ''--s7''), (''Outlet zone 2'', ''--s4'')]"

section \<open>The view\<close>

text \<open>
  Charts, intervals and animation frames are numbered. \<open>ov_frames\<close> holds the frames the browser
  still has to run; \<open>ov_drawn\<close> is what the last history answer put into the live chart.
\<close>

record overview_view =
  ov_panel :: panel
  ov_spark :: "(string, jsnum option list) jsmap"
  ov_chart :: "nat option"
  ov_created :: nat
  ov_destroyed :: "nat list"
  ov_drawn :: "data_table list"
  ov_activity :: "tl_row list"
  ov_intervals :: intervals
  ov_timers :: "nat list"
  ov_raf :: nat
  ov_frames :: "nat list"
  ov_next_frame :: nat
  ov_loads :: "(nat \<times> string list \<times> jsnum \<times> jsnum) list"
  ov_requests :: nat

definition init_overview :: overview_view where
  "init_overview = \<lparr> ov_panel = empty_panel, ov_spark = [], ov_chart = None, ov_created = 0, ov_destroyed = [],
     ov_drawn = [], ov_activity = [], ov_intervals = no_intervals, ov_timers = [], ov_raf = 0, ov_frames = [],
     ov_next_frame = 1, ov_loads = [], ov_requests = 0 \<rparr>"

text \<open>\<open>loadHistory\<close> up to its \<open>await\<close>, and after it.\<close>

definition load_history :: "store \<Rightarrow> int \<Rightarrow> overview_view \<Rightarrow> overview_view" where
  "load_history st now v =
     (let ids = history_ids st; stop = Fin (of_int now) / Fin 1000 in
      if ids = [] then v
      else v\<lparr> ov_loads := ov_loads v @ [(ov_requests v, ids, stop - Fin 86400, stop)], ov_requests := Suc (ov_requests v) \<rparr>)"

definition history_answer :: "nat \<Rightarrow> (string \<Rightarrow> series option) option \<Rightarrow> store \<Rightarrow> overview_view \<Rightarrow> overview_view" where
  "history_answer k res st v =
     (case map_of (ov_loads v) k of
        None \<Rightarrow> v
      | Some (ids, start, stop) \<Rightarrow>
          let v = v\<lparr> ov_loads := filter (\<lambda>(j, _). j \<noteq> k) (ov_loads v) \<rparr> in
          (case (res, ov_chart v) of
             (Some r, Some c) \<Rightarrow>
               v\<lparr> ov_drawn := chart_tables r st, ov_activity := activity_rows r st, ov_spark := spark_data r st start stop \<rparr>
           | _ \<Rightarrow> v))"

definition cancel_frame :: "nat \<Rightarrow> overview_view \<Rightarrow> overview_view" where
  "cancel_frame f v = v\<lparr> ov_frames := removeAll f (ov_frames v) \<rparr>"

definition request_frame :: "overview_view \<Rightarrow> overview_view" where
  "request_frame v = v\<lparr> ov_raf := ov_next_frame v, ov_frames := ov_frames v @ [ov_next_frame v], ov_next_frame := Suc (ov_next_frame v) \<rparr>"

text \<open>
  \<open>update\<close>: a state message (\<open>Some\<close> its entity) first confirms the pending value in the state
  of the control listeners, which the views share.
\<close>

definition update_overview :: "entity option \<Rightarrow> overview_view \<times> ctl \<Rightarrow> overview_view \<times> ctl" where
  "update_overview ev vc =
     (let (v, c) = vc;
          c = (case ev of Some e \<Rightarrow> confirm_state e c | None \<Rightarrow> c)
      in (request_frame (cancel_frame (ov_raf v) v), c))"

definition run_frame ::
  "locale_format \<Rightarrow> (string \<Rightarrow> string \<Rightarrow> bool) \<Rightarrow> nat \<Rightarrow> store \<Rightarrow> (string \<Rightarrow> jsnum option) \<Rightarrow> overview_view \<Rightarrow> overview_view" where
  "run_frame loc collate f st pending v =
     (if f \<in> set (ov_frames v)
      then cancel_frame f (v\<lparr> ov_panel := render_controls loc collate st pending (ov_panel v) \<rparr>) else v)"

definition mount_overview ::
  "locale_format \<Rightarrow> (string \<Rightarrow> string \<Rightarrow> bool) \<Rightarrow> store \<times> int \<Rightarrow> overview_view \<times> ctl \<Rightarrow> overview_view \<times> ctl" where
  "mount_overview loc collate arg vc =
     (let (st, now) = arg; (v, c) = vc;
          v = v\<lparr> ov_chart := Some (ov_created v), ov_created := Suc (ov_created v), ov_drawn := [], ov_activity := [],
                ov_panel := render_controls loc collate st (pending_value c) empty_panel \<rparr>;
          v = load_history st now v;
          (iv, ts) = new_intervals 3 (ov_intervals v)
      in (v\<lparr> ov_intervals := iv, ov_timers := ts \<rparr>, c))"

definition unmount_overview :: "overview_view \<Rightarrow> overview_view" where
  "unmount_overview v =
     (let v = v\<lparr> ov_intervals := fold clear_interval (ov_timers v) (ov_intervals v) \<rparr>;
          v = (case ov_chart v of None \<Rightarrow> v | Some c \<Rightarrow> v\<lparr> ov_destroyed := ov_destroyed v @ [c], ov_chart := None \<rparr>)
      in cancel_frame (ov_raf v) v)"

text \<open>
  The events of the view, on its state and the state of the control listeners. \<open>Ov_render\<close> is the rendering
  that the listeners ask for (\<open>bindControls\<close> in \<open>mount\<close>).
\<close>

datatype overview_event =
    Ov_update "entity option"
  | Ov_frame nat store
  | Ov_render store
  | Ov_mark string string
  | Ov_tick store int
  | Ov_answer nat "(string \<Rightarrow> series option) option" store

fun overview_step ::
  "locale_format \<Rightarrow> (string \<Rightarrow> string \<Rightarrow> bool) \<Rightarrow> overview_view \<times> ctl \<Rightarrow> overview_event \<Rightarrow> overview_view \<times> ctl" where
  "overview_step loc collate (v, c) (Ov_update ev) = update_overview ev (v, c)"
| "overview_step loc collate (v, c) (Ov_frame f st) = (run_frame loc collate f st (pending_value c) v, c)"
| "overview_step loc collate (v, c) (Ov_render st) =
     (v\<lparr> ov_panel := render_controls loc collate st (pending_value c) (ov_panel v) \<rparr>, c)"
| "overview_step loc collate (v, c) (Ov_mark i opt) = (v\<lparr> ov_panel := mark_active i opt (ov_panel v) \<rparr>, c)"
| "overview_step loc collate (v, c) (Ov_tick st now) = (load_history st now v, c)"
| "overview_step loc collate (v, c) (Ov_answer k res st) = (history_answer k res st v, c)"

section \<open>The elements of the page\<close>

text \<open>
  Every element of the schematic that a rendering writes to is in the page that \<open>mount\<close> draws, identifiers are not
  used twice, and the chart gets as many series as tables.
\<close>

theorem overview_elements_exist:
  "set (flow_selects (render_flow loc st)) \<subseteq> set (dom_ids (overview_dom st')) \<and>
   distinct (dom_ids (overview_dom st')) \<and> length (chart_tables res st) = length overview_series"
  by (simp add: overview_dom_def div_el_def sub_el_def flow_svg_ids flow_selects_eq chart_tables_def
      history_keys_def overview_series_def)

section \<open>The life of the view\<close>

definition overview_idle :: "overview_view \<Rightarrow> bool" where
  "overview_idle v \<longleftrightarrow> iv_running (ov_intervals v) = [] \<and> ov_frames v = [] \<and> ov_chart v = None \<and> ov_destroyed v = [0..<ov_created v]"

definition overview_live :: "overview_view \<Rightarrow> bool" where
  "overview_live v \<longleftrightarrow> set (iv_running (ov_intervals v)) \<subseteq> set (ov_timers v) \<and> set (ov_frames v) \<subseteq> {ov_raf v} \<and>
     (case ov_chart v of None \<Rightarrow> ov_destroyed v = [0..<ov_created v]
      | Some c \<Rightarrow> ov_created v = Suc c \<and> ov_destroyed v = [0..<c])"

fun late_overview :: "overview_event \<Rightarrow> bool" where
  "late_overview (Ov_answer k res st) = True"
| "late_overview e = False"

lemmas overview_defs = load_history_def history_answer_def cancel_frame_def request_frame_def update_overview_def
  run_frame_def Let_def

lemma overview_step_kept:
  "ov_intervals (fst (overview_step loc collate vc e)) = ov_intervals (fst vc)"
  "ov_timers (fst (overview_step loc collate vc e)) = ov_timers (fst vc)"
  "ov_chart (fst (overview_step loc collate vc e)) = ov_chart (fst vc)"
  "ov_created (fst (overview_step loc collate vc e)) = ov_created (fst vc)"
  "ov_destroyed (fst (overview_step loc collate vc e)) = ov_destroyed (fst vc)"
  by (cases vc; cases e; simp add: overview_defs split: option.splits prod.splits)+

lemma overview_step_frames:
  "set (ov_frames (fst vc)) \<subseteq> {ov_raf (fst vc)} \<Longrightarrow>
   set (ov_frames (fst (overview_step loc collate vc e))) \<subseteq> {ov_raf (fst (overview_step loc collate vc e))}"
  by (cases vc; cases e) (auto simp: overview_defs split: option.splits prod.splits)

interpretation overview_page: quiet_view "mount_overview loc collate" "overview_step loc collate" "apfst unmount_overview"
  "\<lambda>vc. overview_idle (fst vc)" "\<lambda>vc. overview_live (fst vc)" late_overview
proof unfold_locales
  fix vc :: "overview_view \<times> ctl" and i e
  show "overview_live (fst (mount_overview loc collate i vc))" if "overview_idle (fst vc)"
  proof -
    have kept: "ov_intervals (load_history st now w) = ov_intervals w" "ov_frames (load_history st now w) = ov_frames w"
      "ov_chart (load_history st now w) = ov_chart w" "ov_created (load_history st now w) = ov_created w"
      "ov_destroyed (load_history st now w) = ov_destroyed w" "ov_raf (load_history st now w) = ov_raf w" for st now w
      by (simp_all add: load_history_def Let_def)
    obtain iv ts where n: "new_intervals 3 (ov_intervals (fst vc)) = (iv, ts)"
      by (cases "new_intervals 3 (ov_intervals (fst vc))")
    then have "set (iv_running iv) = set ts"
      using that new_intervals_running[OF n] by (simp add: overview_idle_def)
    then show ?thesis
      using that n
      by (cases i; cases vc) (simp add: mount_overview_def overview_idle_def overview_live_def Let_def kept split: prod.splits)
  qed
  show "overview_live (fst (overview_step loc collate vc e))" if "overview_live (fst vc)"
    using that overview_step_frames[of vc] unfolding overview_live_def overview_step_kept by blast
  show "overview_idle (fst (apfst unmount_overview vc))" if "overview_live (fst vc)"
  proof -
    have "set (iv_running (fold clear_interval (ov_timers (fst vc)) (ov_intervals (fst vc)))) = {}"
      using that by (auto simp: iv_running_fold_clear overview_live_def)
    then show ?thesis
      using that
    by (auto simp: overview_live_def overview_idle_def unmount_overview_def cancel_frame_def Let_def intro: removeAll_all
        split: option.splits)
  qed
  show "overview_idle (fst (overview_step loc collate vc e))" if "overview_idle (fst vc)" "late_overview e"
    using that overview_step_kept
    by (cases vc; cases e) (auto simp: overview_idle_def history_answer_def Let_def split: option.splits prod.splits)
qed

text \<open>
  However often the overview is visited and whatever happens in between (state messages, frames, clicks,
  ticks, answers that arrive late), once it is unmounted no interval runs, no frame is pending, and every
  chart it created has been destroyed exactly once.
\<close>

theorem overview_releases_everything:
  assumes "\<forall>(i, es, fs)\<in>set visits. \<forall>e\<in>set fs. late_overview e"
    and "v = fst (foldl (\<lambda>vc (i, es, fs). run (overview_step loc collate)
               (apfst unmount_overview (run (overview_step loc collate) (mount_overview loc collate i vc) es)) fs) (init_overview, c) visits)"
  shows "iv_running (ov_intervals v) = [] \<and> ov_frames v = [] \<and> ov_destroyed v = [0..<ov_created v]"
proof -
  have "overview_idle (fst (init_overview, c))" by (simp add: overview_idle_def init_overview_def no_intervals_def)
  from overview_page.quiet_visits_idle[OF this assms(1)] show ?thesis unfolding assms(2) by (simp add: overview_idle_def)
qed

definition sample_visit :: "(store \<times> int) \<times> overview_event list \<times> overview_event list" where
  "sample_visit = ((init_store, 5), [Ov_update None, Ov_tick init_store 6, Ov_update (Some sample_setpoint)], [Ov_answer 0 None init_store])"

definition visited :: overview_view where
  "visited = fst (foldl (\<lambda>vc (i, es, fs). run (overview_step plain_format (\<lambda>_ _. True))
     (apfst unmount_overview (run (overview_step plain_format (\<lambda>_ _. True)) (mount_overview plain_format (\<lambda>_ _. True) i vc) es)) fs)
     (init_overview, init_ctl) [sample_visit, sample_visit])"

theorem overview_releases_everything_witness:
  "iv_running (ov_intervals visited) = [] \<and> ov_frames visited = [] \<and> ov_destroyed visited = [0..<ov_created visited]"
  by (rule overview_releases_everything[OF _ visited_def]) (simp add: sample_visit_def)

section \<open>The panel shows the live widgets\<close>

text \<open>Every row of a panel that is keyed to some entities, one row per entity in their order.\<close>

definition panel_ok :: "panel \<Rightarrow> bool" where
  "panel_ok p \<longleftrightarrow>
     (pn_key p = None \<or> pn_key p = Some [] \<or>
      (\<exists>ids ro. ids \<noteq> [] \<and> (\<forall>i\<in>set ids. CHR '','' \<notin> set i) \<and> pn_key p = Some (join '','' ids @ bool_text ro) \<and>
         map cr_id (pn_rows p) = ids))"

lemma bool_text_no_comma: "CHR '','' \<notin> set (bool_text ro)"
  by (cases ro) (auto simp: bool_text_def split: bool.split)

lemma bool_text_end:
  "take 2 (rev (bool_text r) @ w) = (case r of None \<Rightarrow> ''de'' | Some b \<Rightarrow> if b then ''eu'' else ''es'')"
  by (cases r) (simp_all add: bool_text_def split: bool.split)

lemma bool_text_suffix: "u @ bool_text r = v @ bool_text s \<Longrightarrow> u = v \<and> r = s"
proof -
  assume e: "u @ bool_text r = v @ bool_text s"
  have "take 2 (rev (bool_text r) @ rev u) = take 2 (rev (bool_text s) @ rev v)"
    using arg_cong[OF e, of "\<lambda>w. take 2 (rev w)"] by (simp only: rev_append)
  then have "r = s" unfolding bool_text_end by (cases r; cases s) (simp_all split: if_splits)
  then show ?thesis using e by simp
qed

lemma split_ids:
  assumes "ids \<noteq> []" "\<forall>i\<in>set ids. CHR '','' \<notin> set i"
  shows "split_on CHR '','' (join '','' ids) = ids"
  using split_on_join[of ids "CHR '',''"] assms by simp

lemma key_inj:
  assumes "join '','' ids @ bool_text r = join '','' ids' @ bool_text r'" "ids \<noteq> []" "ids' \<noteq> []"
    and "\<forall>i\<in>set ids. CHR '','' \<notin> set i" "\<forall>i\<in>set ids'. CHR '','' \<notin> set i"
  shows "ids = ids'"
proof -
  have "join '','' ids = join '','' ids'" using assms(1) by (rule bool_text_suffix[THEN conjunct1])
  then have "split_on CHR '','' (join '','' ids) = split_on CHR '','' (join '','' ids')" by (simp only:)
  then show ?thesis by (simp only: split_ids[OF assms(2,4)] split_ids[OF assms(3,5)])
qed

lemma patch_row_ids [simp]: "map cr_id (patch_row i html rs) = map cr_id rs"
  by (induction rs) auto

lemma patch_rows_ids: "map cr_id (fold (\<lambda>e. patch_row (e_id e) (f e)) es rs) = map cr_id rs"
  by (induction es arbitrary: rs) auto

definition slot_html :: "string \<Rightarrow> control_row list \<Rightarrow> string option" where
  "slot_html i rs = Option.bind (find (\<lambda>r. cr_id r = i) rs) cr_html"

lemma slot_patch_row:
  "slot_html j (patch_row i html rs) = (if j = i \<and> i \<in> set (map cr_id rs) then Some html else slot_html j rs)"
  by (induction rs) (auto simp: slot_html_def)

lemma slot_patch_other: "j \<notin> set (map e_id es) \<Longrightarrow> slot_html j (fold (\<lambda>e. patch_row (e_id e) (f e)) es rs) = slot_html j rs"
  by (induction es arbitrary: rs) (auto simp: slot_patch_row)

lemma slot_patch_rows:
  "distinct (map e_id es) \<Longrightarrow> set (map e_id es) \<subseteq> set (map cr_id rs) \<Longrightarrow> e \<in> set es
     \<Longrightarrow> slot_html (e_id e) (fold (\<lambda>e. patch_row (e_id e) (f e)) es rs) = Some (f e)"
proof (induction es arbitrary: rs)
  case (Cons x es)
  have ids: "set (map cr_id (patch_row (e_id x) (f x) rs)) = set (map cr_id rs)" by (simp only: patch_row_ids)
  show ?case
  proof (cases "e = x")
    case True
    with Cons.prems show ?thesis by (simp add: slot_patch_other slot_patch_row del: set_map)
  next
    case False
    with Cons.prems have e: "distinct (map e_id es)" "e \<in> set es" by auto
    have "set (map e_id es) \<subseteq> set (map cr_id (patch_row (e_id x) (f x) rs))"
      using Cons.prems(2) unfolding ids by auto
    from Cons.IH[OF e(1) this e(2)] show ?thesis by simp
  qed
qed simp

text \<open>Rendering keeps \<open>panel_ok\<close> and brings every slot up to date.\<close>

lemma controls_distinct: "store_ok st \<Longrightarrow> distinct (map e_id (controls collate st))"
proof -
  assume ok: "store_ok st"
  have "map e_id (all_entities st) = map fst (st_entities st)"
    using ok by (auto simp: all_entities_def store_ok_def)
  then have "distinct (map e_id (all_entities st))" using ok by (simp add: store_ok_def map_ok_def)
  then have "distinct (map e_id (filter (\<lambda>e. e_category e = ''control'') (all_entities st)))" by (rule distinct_map_filter)
  moreover have "mset (map e_id (controls collate st)) = mset (map e_id (filter (\<lambda>e. e_category e = ''control'') (all_entities st)))"
    by (simp add: controls_def)
  ultimately show ?thesis using mset_eq_imp_distinct_iff by metis
qed

lemma render_controls_spec:
  assumes ok: "panel_ok p" "store_ok st" and ids: "\<forall>e\<in>set (all_entities st). CHR '','' \<notin> set (e_id e)"
    and q: "q = render_controls loc collate st pending p" and ne: "controls collate st \<noteq> []"
  shows "panel_ok q \<and> map cr_id (pn_rows q) = map e_id (controls collate st) \<and>
    (\<forall>e\<in>set (controls collate st). slot_html (e_id e) (pn_rows q) = Some (widget loc st pending (Some e)))"
proof -
  let ?es = "controls collate st"
  let ?key = "panel_key st ?es"
  define rs where "rs = (if pn_key p \<noteq> Some ?key then map new_row ?es else pn_rows p)"
  have free: "\<forall>i\<in>set (map e_id ?es). CHR '','' \<notin> set i" using ids by (simp add: controls_def)
  have key: "?key \<noteq> []"
    by (auto simp: panel_key_def bool_text_def split: option.split bool.split)
  have rows: "map cr_id rs = map e_id ?es"
  proof (cases "pn_key p = Some ?key")
    case True
    with ok(1) key obtain js ro where i: "js \<noteq> []" "\<forall>i\<in>set js. CHR '','' \<notin> set i"
      "join '','' js @ bool_text ro = ?key" "map cr_id (pn_rows p) = js"
      by (force simp: panel_ok_def)
    have "js = map e_id ?es"
      by (rule key_inj[OF i(3)[unfolded panel_key_def] i(1) _ i(2) free]) (simp add: ne)
    then show ?thesis using True i(4) by (simp add: rs_def)
  qed (simp add: rs_def new_row_def comp_def)
  have pq: "pn_key q = Some ?key" "pn_rows q = fold (\<lambda>e. patch_row (e_id e) (widget loc st pending (Some e))) ?es rs"
    using ne by (auto simp: q render_controls_def Let_def rs_def)
  have cr: "map cr_id (pn_rows q) = map e_id ?es" by (simp add: pq patch_rows_ids rows)
  then have "panel_ok q" unfolding panel_ok_def pq(1) panel_key_def
    using free ne by (metis map_is_Nil_conv)
  moreover have "\<forall>e\<in>set ?es. slot_html (e_id e) (pn_rows q) = Some (widget loc st pending (Some e))"
    unfolding pq(2) using controls_distinct[OF ok(2)] rows by (intro ballI slot_patch_rows) (simp_all del: set_map)
  ultimately show ?thesis using cr by blast
qed

text \<open>The events of the panel: renderings and clicks on options.\<close>

datatype panel_event = Pn_render store "string \<Rightarrow> jsnum option" | Pn_mark string string

fun panel_step :: "locale_format \<Rightarrow> (string \<Rightarrow> string \<Rightarrow> bool) \<Rightarrow> panel \<Rightarrow> panel_event \<Rightarrow> panel" where
  "panel_step loc collate p (Pn_render st pending) = render_controls loc collate st pending p"
| "panel_step loc collate p (Pn_mark i opt) = mark_active i opt p"

definition plain_store :: "store \<Rightarrow> bool" where
  "plain_store st \<longleftrightarrow> store_ok st \<and> (\<forall>e\<in>set (all_entities st). CHR '','' \<notin> set (e_id e))"

fun panel_enabled :: "panel \<Rightarrow> panel_event \<Rightarrow> bool" where
  "panel_enabled p (Pn_render st pending) = plain_store st"
| "panel_enabled p (Pn_mark i opt) = True"

lemma mark_active_ids: "map cr_id (pn_rows (mark_active i opt p)) = map cr_id (pn_rows p)" "pn_key (mark_active i opt p) = pn_key p"
  by (simp_all add: mark_active_def comp_def)

interpretation panel_run: machine "panel_step loc collate" panel_enabled panel_ok
proof unfold_locales
  fix p e assume p: "panel_ok p" "panel_enabled p e"
  show "panel_ok (panel_step loc collate p e)"
  proof (cases e)
    case (Pn_render st pending)
    show ?thesis
    proof (cases "controls collate st = []")
      case True
      then show ?thesis by (simp add: Pn_render render_controls_def panel_ok_def)
    next
      case False
      with render_controls_spec[OF p(1) _ _ refl False] p(2) show ?thesis by (simp add: Pn_render plain_store_def)
    qed
  next
    case (Pn_mark i opt)
    then show ?thesis using p(1) unfolding panel_ok_def by (simp only: panel_step.simps mark_active_ids)
  qed
qed

lemma patch_row_same: "slot_html i rs = Some html \<Longrightarrow> patch_row i html rs = rs"
  by (induction rs) (auto simp: slot_html_def)

lemma patch_rows_same: "\<forall>e\<in>set es. slot_html (e_id e) rs = Some (f e) \<Longrightarrow> fold (\<lambda>e. patch_row (e_id e) (f e)) es rs = rs"
  by (induction es) (auto simp: patch_row_same)

lemma render_same:
  assumes "controls collate st \<noteq> []" "pn_key p = Some (panel_key st (controls collate st))"
    and "\<forall>e\<in>set (controls collate st). slot_html (e_id e) (pn_rows p) = Some (widget loc st pending (Some e))"
  shows "render_controls loc collate st pending p = p"
  using assms by (simp add: render_controls_def Let_def patch_rows_same)

lemma slot_mark_active [simp]: "slot_html j (pn_rows (mark_active i opt p)) = slot_html j (pn_rows p)"
proof -
  have "Option.bind (find (\<lambda>r. cr_id r = j) (map (\<lambda>r. if cr_id r = i then r\<lparr> cr_marked := Some opt \<rparr> else r) rs)) cr_html =
      Option.bind (find (\<lambda>r. cr_id r = j) rs) cr_html" for rs
    by (induction rs) auto
  then show ?thesis by (simp add: slot_html_def mark_active_def)
qed

lemma render_key: "controls collate st \<noteq> [] \<Longrightarrow> pn_key (render_controls loc collate st pending p) = Some (panel_key st (controls collate st))"
  by (simp add: render_controls_def Let_def)

section \<open>Properties of the panel\<close>

lemma patch_row_from:
  "r \<in> set (patch_row i html rs) \<Longrightarrow> \<exists>r0\<in>set rs. cr_id r = cr_id r0 \<and> cr_head r = cr_head r0 \<and> cr_marked r \<in> {None, cr_marked r0}"
  by (induction rs) (auto split: if_splits)

lemma patch_rows_from:
  "r \<in> set (fold (\<lambda>e. patch_row (e_id e) (f e)) es rs) \<Longrightarrow>
     \<exists>r0\<in>set rs. cr_id r = cr_id r0 \<and> cr_head r = cr_head r0 \<and> cr_marked r \<in> {None, cr_marked r0}"
proof (induction es arbitrary: rs)
  case (Cons e es)
  then obtain r1 where r1: "r1 \<in> set (patch_row (e_id e) (f e) rs)" "cr_id r = cr_id r1" "cr_head r = cr_head r1"
    "cr_marked r \<in> {None, cr_marked r1}" by (auto simp: Bex_def)
  from patch_row_from[OF r1(1)] r1(2-4) show ?case by auto
qed auto

text \<open>Where the head and the mark of a row come from: a control of a store rendered so far, a click.\<close>

definition row_from :: "(string \<Rightarrow> string \<Rightarrow> bool) \<Rightarrow> store set \<Rightarrow> panel_event set \<Rightarrow> control_row \<Rightarrow> bool" where
  "row_from collate sts evs r \<longleftrightarrow>
     (\<exists>st\<in>sts. \<exists>e\<in>set (controls collate st). cr_id r = e_id e \<and> cr_head r = control_head e) \<and>
     (\<forall>opt. cr_marked r = Some opt \<longrightarrow> Pn_mark (cr_id r) opt \<in> evs)"

lemma row_from_mono: "row_from collate S M r \<Longrightarrow> S \<subseteq> S' \<Longrightarrow> M \<subseteq> M' \<Longrightarrow> row_from collate S' M' r"
  unfolding row_from_def by blast

lemma row_from_render:
  assumes "\<forall>r\<in>set (pn_rows p). row_from collate S M r" "r \<in> set (pn_rows (render_controls loc collate st pending p))"
  shows "row_from collate (insert st S) M r"
proof -
  let ?es = "controls collate st"
  define rs where "rs = (if pn_key p \<noteq> Some (panel_key st ?es) then map new_row ?es else pn_rows p)"
  have ne: "?es \<noteq> []" using assms(2) by (auto simp: render_controls_def)
  then have "pn_rows (render_controls loc collate st pending p) = fold (\<lambda>e. patch_row (e_id e) (widget loc st pending (Some e))) ?es rs"
    by (auto simp: render_controls_def Let_def rs_def)
  with assms(2) obtain r0 where r0: "r0 \<in> set rs" "cr_id r = cr_id r0" "cr_head r = cr_head r0" "cr_marked r \<in> {None, cr_marked r0}"
    using patch_rows_from by metis
  have "row_from collate (insert st S) M r0"
    using r0(1) assms(1) by (auto simp: rs_def new_row_def row_from_def split: if_splits)
  then show ?thesis using r0(2-4) by (auto simp: row_from_def)
qed

fun rendered :: "panel_event list \<Rightarrow> store list" where
  "rendered [] = []"
| "rendered (Pn_render st pending # es) = st # rendered es"
| "rendered (Pn_mark i opt # es) = rendered es"

lemma rows_from_run:
  "\<forall>r\<in>set (pn_rows p). row_from collate S M r \<Longrightarrow> r \<in> set (pn_rows (run (panel_step loc collate) p es))
     \<Longrightarrow> row_from collate (S \<union> set (rendered es)) (M \<union> set es) r"
proof (induction es arbitrary: p S M)
  case (Cons ev es)
  show ?case
  proof (cases ev)
    case (Pn_render st pending)
    have "\<forall>r\<in>set (pn_rows (panel_step loc collate p ev)). row_from collate (insert st S) M r"
      unfolding Pn_render panel_step.simps using row_from_render[OF Cons.prems(1)] by blast
    from Cons.IH[OF this] Cons.prems(2) show ?thesis by (auto simp: Pn_render elim: row_from_mono)
  next
    case (Pn_mark i opt)
    have "\<forall>r\<in>set (pn_rows (panel_step loc collate p ev)). row_from collate S (insert ev M) r"
      using Cons.prems(1) by (auto simp: Pn_mark mark_active_def row_from_def)
    from Cons.IH[OF this] Cons.prems(2) show ?thesis by (auto simp: Pn_mark elim: row_from_mono)
  qed
qed simp

lemma rows_by_slots:
  "distinct (map e_id es) \<Longrightarrow> map cr_id rs = map e_id es \<Longrightarrow> \<forall>e\<in>set es. slot_html (e_id e) rs = Some (f e)
     \<Longrightarrow> map (\<lambda>r. (cr_id r, cr_html r)) rs = map (\<lambda>e. (e_id e, Some (f e))) es"
proof (induction es arbitrary: rs)
  case (Cons e es)
  then obtain r rs' where rs: "rs = r # rs'" "cr_id r = e_id e" "map cr_id rs' = map e_id es" by (cases rs) auto
  have "slot_html (e_id x) rs' = Some (f x)" if "x \<in> set es" for x
  proof -
    have "e_id x \<noteq> cr_id r" using Cons.prems(1) that rs(2) by (auto simp: image_iff)
    moreover have "slot_html (e_id x) (r # rs') = Some (f x)" using Cons.prems(3) that unfolding rs(1) by simp
    ultimately show ?thesis by (simp add: slot_html_def)
  qed
  moreover have "cr_html r = Some (f e)" using Cons.prems(3) by (simp add: rs slot_html_def)
  ultimately show ?case using Cons.IH[of rs'] Cons.prems(1) by (simp add: rs)
qed simp

lemma rows_eqI:
  "map (\<lambda>r. (cr_id r, cr_html r)) rs = map (\<lambda>r. (cr_id r, cr_html r)) rs' \<Longrightarrow> distinct (map cr_id rs) \<Longrightarrow>
   \<forall>r\<in>set rs. cr_marked r = None \<Longrightarrow> \<forall>r\<in>set rs'. cr_marked r = None \<Longrightarrow>
   \<forall>r\<in>set rs. \<forall>r'\<in>set rs'. cr_id r = cr_id r' \<longrightarrow> cr_head r = cr_head r' \<Longrightarrow> rs = (rs' :: control_row list)"
proof (induction rs arbitrary: rs')
  case (Cons r rs)
  obtain r' rs1 where rs': "rs' = r' # rs1" "cr_id r = cr_id r'" "cr_html r = cr_html r'"
    "map (\<lambda>r. (cr_id r, cr_html r)) rs = map (\<lambda>r. (cr_id r, cr_html r)) rs1" using Cons.prems(1) by auto
  have m: "cr_marked r = cr_marked r'" "cr_head r = cr_head r'"
    using Cons.prems(3,4) rs'(2) Cons.prems(5)[rule_format, of r r'] unfolding rs'(1) by auto
  have "rs = rs1"
  proof (rule Cons.IH[OF rs'(4)])
    show "distinct (map cr_id rs)" using Cons.prems(2) by simp
    show "\<forall>r\<in>set rs. cr_marked r = None" "\<forall>r\<in>set rs1. cr_marked r = None"
      using Cons.prems(3,4) unfolding rs'(1) by auto
    show "\<forall>r\<in>set rs. \<forall>r'\<in>set rs1. cr_id r = cr_id r' \<longrightarrow> cr_head r = cr_head r'"
      using Cons.prems(5) unfolding rs'(1) by (meson list.set_intros(2))
  qed
  then show ?case using rs' m by (simp add: control_row.equality)
qed simp

lemma render_rows:
  assumes "panel_ok p" "plain_store st" and q: "q = render_controls loc collate st pending p"
  shows "pn_key q = Some (if controls collate st = [] then [] else panel_key st (controls collate st)) \<and>
    map (\<lambda>r. (cr_id r, cr_html r)) (pn_rows q) = map (\<lambda>e. (e_id e, Some (widget loc st pending (Some e)))) (controls collate st)"
proof (cases "controls collate st = []")
  case True
  then show ?thesis by (simp add: q render_controls_def)
next
  case False
  from assms(2) have st: "store_ok st" "\<forall>e\<in>set (all_entities st). CHR '','' \<notin> set (e_id e)" by (simp_all add: plain_store_def)
  from render_controls_spec[OF assms(1) st q False] rows_by_slots[OF controls_distinct[OF st(1)], of "pn_rows q"]
  show ?thesis using False render_key[OF False] by (simp add: q)
qed

lemma empty_panel_ok: "panel_ok empty_panel"
  by (simp add: panel_ok_def empty_panel_def)


definition control_store :: store where
  "control_store = set_entities [sample_setpoint\<lparr> e_category := ''control'' \<rparr>] init_store"


text \<open>
  C38: a choice that the server refuses stays on display: the click marks the option in the row, the failed
  command asks for a new rendering, but the markup of the widget has not changed, so the rendering does not touch
  the row, whose mark no longer agrees with the state of the entity.
\<close>

theorem failed_choice_stays_marked:
  assumes "enabled_run panel_enabled (panel_step loc collate) empty_panel es" "plain_store st" "e \<in> set (controls collate st)"
    and p: "p = render_controls loc collate st pending (run (panel_step loc collate) empty_panel es)"
    and q: "q = render_controls loc collate st pending (mark_active (e_id e) opt p)"
  shows "Rerender (e_id e) \<in> set (k_effects (on_reply loc (Option_request e) (Text_value opt) (Some msg) c)) \<and>
    q = mark_active (e_id e) opt p \<and> (\<exists>r\<in>set (pn_rows q). cr_id r = e_id e \<and> cr_marked r = Some opt)"
proof -
  have ne: "controls collate st \<noteq> []" using assms(3) by auto
  have "panel_ok (run (panel_step loc collate) empty_panel es)" using empty_panel_ok assms(1) by (rule panel_run.inv_run)
  from render_controls_spec[OF this _ _ p ne] assms(2)
  have rows: "map cr_id (pn_rows p) = map e_id (controls collate st)"
    and slots: "\<forall>e\<in>set (controls collate st). slot_html (e_id e) (pn_rows p) = Some (widget loc st pending (Some e))"
    by (simp_all add: plain_store_def)
  have same: "q = mark_active (e_id e) opt p" unfolding q
    using ne slots by (intro render_same) (simp_all add: mark_active_ids p render_key)
  have "e_id e \<in> set (map cr_id (pn_rows p))" unfolding rows using assms(3) by simp
  then obtain r where "r \<in> set (pn_rows p)" "cr_id r = e_id e" by auto
  then have "r\<lparr> cr_marked := Some opt \<rparr> \<in> set (pn_rows q) \<and> cr_id (r\<lparr> cr_marked := Some opt \<rparr>) = e_id e"
    unfolding same mark_active_def by (simp add: rev_image_eqI)
  then have "\<exists>r\<in>set (pn_rows q). cr_id r = e_id e \<and> cr_marked r = Some opt" by (metis control_row.select_convs(4) control_row.surjective control_row.update_convs(4))
  then show ?thesis using same by (simp add: on_reply_def effect_def Let_def)
qed

definition choice_entity :: entity where
  "choice_entity = sample_setpoint\<lparr> e_id := ''m'', e_name := ''Mode'', e_kind := Enum, e_options := [''AUTO'', ''HEAT''], e_text := Some ''AUTO'' \<rparr>"

definition choice_store :: store where
  "choice_store = set_entities [choice_entity] init_store"

lemma choice_store_plain: "plain_store choice_store" "controls collate choice_store = [choice_entity]"
proof -
  have e: "all_entities choice_store = [choice_entity]"
    by (simp add: choice_store_def set_entities_def init_store_def all_entities_def)
  have "store_ok choice_store" by (simp add: choice_store_def store_ok_set_entities)
  then show "plain_store choice_store" by (simp add: plain_store_def e) (simp add: choice_entity_def)
  show "controls collate choice_store = [choice_entity]" by (simp add: controls_def e) (simp add: choice_entity_def sample_setpoint_def)
qed

theorem failed_choice_stays_marked_witness:
  "Rerender ''m'' \<in> set (k_effects (on_reply plain_format (Option_request choice_entity) (Text_value ''HEAT'') (Some ''refused'') init_ctl)) \<and>
   render_controls plain_format (\<lambda>_ _. True) choice_store (\<lambda>_. None)
     (mark_active ''m'' ''HEAT'' (render_controls plain_format (\<lambda>_ _. True) choice_store (\<lambda>_. None) empty_panel)) =
   mark_active ''m'' ''HEAT'' (render_controls plain_format (\<lambda>_ _. True) choice_store (\<lambda>_. None) empty_panel)"
proof -
  have i: "e_id choice_entity = ''m''" by (simp add: choice_entity_def)
  show ?thesis
    using failed_choice_stays_marked[where es = "[]" and st = choice_store and e = choice_entity and opt = "''HEAT''"
        and loc = plain_format and collate = "\<lambda>_ _. True" and pending = "\<lambda>_. None" and msg = "''refused''" and c = init_ctl,
        OF _ choice_store_plain(1) _ refl refl]
    by (simp add: choice_store_plain(2) i)
qed

section \<open>Properties of the day so far\<close>

text \<open>
  The tile of the day and the last row of the energy page agree: for the same readings at the last midnight
  and now, both give the same energy used and produced, and the same coefficient of performance whenever the heat
  is known; where it is not, the tile shows none.
\<close>

theorem today_agrees_with_energy_page:
  assumes "length vi = 2" "length vo = 2" "row = last (energy_rows date_text monthly [start] vi vo)"
  shows "td_used (today_values vi vo) = er_used row \<and> td_made (today_values vi vo) = er_made row \<and>
    (er_made row \<noteq> None \<longrightarrow> td_cop (today_values vi vo) = er_cop row) \<and>
    (er_made row = None \<longrightarrow> td_cop (today_values vi vo) = None)"
proof -
  have d: "since_midnight vs = delta vs 0" for vs by (simp add: since_midnight_def delta_def)
  have "row = energy_rows date_text monthly [start] vi vo ! 0" by (simp add: assms(3) last_conv_nth energy_rows_def)
  then show ?thesis
    by (auto simp: today_values_def Let_def d row_cop_def split: option.split)
qed

theorem today_agrees_with_energy_page_witness:
  "td_used (today_values [Some (wh 5), Some (wh 9)] [None, Some (wh 3)]) =
     er_used (last (energy_rows (\<lambda>s t. []) False [0] [Some (wh 5), Some (wh 9)] [None, Some (wh 3)])) \<and>
   td_cop (today_values [Some (wh 5), Some (wh 9)] [None, Some (wh 3)]) = None"
  using today_agrees_with_energy_page[of "[Some (wh 5), Some (wh 9)]" "[None, Some (wh 3)]" _ "\<lambda>s t. []" False 0, OF _ _ refl]
  by (simp add: energy_rows_def Let_def delta_def)

lemma ring_length_value: obtains R where "ring_length = Fin R" "0 \<le> R" "R \<le> 1000" "rnd R = R"
proof -
  let ?p = "884279719003555 / 140737488355328 :: rat"
  have "rnd ?p = ?p" by (rule rnd_dyadic[where k = 47 and m = 884279719003555]) simp_all
  then have 1: "Fin 2 * pi_number = Fin ?p" by (simp add: pi_number_def fl_exact)
  have "fl (?p * 46) = Fin (rnd (?p * 46))" by (rule fl_small) simp
  then have 2: "ring_length = Fin (rnd (?p * 46))" unfolding ring_length_def 1 by simp
  have "0 \<le> rnd (?p * 46)" by (rule rnd_nonneg) simp
  moreover have "rnd (?p * 46) \<le> rnd 1000" by (rule rnd_mono) simp
  ultimately show thesis using that 2 by simp
qed

lemma jmin_1: "Fin 0 \<le> y \<Longrightarrow> \<exists>p. jmin 1 y = Fin p \<and> 0 \<le> p \<and> p \<le> 1"
  by (cases y) (auto simp: jmin_def one_jsnum_def)

lemma since_midnight_bounded:
  assumes "readings_ok vs" "since_midnight vs = Some x"
  obtains d where "x = Fin d" "0 \<le> d" "d \<le> 4000000000000"
proof -
  have "delta vs 0 = Some x" using assms(2) by (simp add: since_midnight_def delta_def)
  then show thesis by (rule delta_bounded[OF assms(1)]) (rule that)
qed

lemma today_pct:
  assumes "readings_ok vi" "readings_ok vo"
  obtains p where "td_pct (today_values vi vo) = Fin p" "0 \<le> p" "p \<le> 1" "td_cop (today_values vi vo) = None \<longrightarrow> p = 0"
proof (cases "td_cop (today_values vi vo)")
  case None
  then show thesis using that[of 0] by (simp add: today_values_def Let_def zero_jsnum_def)
next
  case (Some c)
  then obtain u m where um: "since_midnight vi = Some u" "since_midnight vo = Some m" "num_truthy u" "c = m / u"
    by (auto simp: today_values_def Let_def split: option.splits if_splits)
  obtain x where x: "u = Fin x" "0 \<le> x" by (rule since_midnight_bounded[OF assms(1) um(1)])
  obtain y where y: "m = Fin y" "0 \<le> y" by (rule since_midnight_bounded[OF assms(2) um(2)])
  have "Fin 0 \<le> c" using um(3) x y by (simp add: um(4) num_truthy_def)
  then have "Fin 0 \<le> c / Fin 6" by (cases c) auto
  then obtain p where "jmin 1 (c / Fin 6) = Fin p" "0 \<le> p" "p \<le> 1" using jmin_1 by blast
  then show thesis using that[of p] Some by (simp add: today_values_def Let_def)
qed

text \<open>
  The ring around the coefficient of performance is never drawn longer than the circle, and has no length
  when there is nothing to show.
\<close>

theorem ring_within_circle:
  assumes "readings_ok vi" "readings_ok vo" "td = today_values vi vo"
  shows "0 \<le> ring_length * td_pct td \<and> ring_length * td_pct td \<le> ring_length \<and> (td_cop td = None \<longrightarrow> ring_length * td_pct td = 0)"
proof -
  obtain R where R: "ring_length = Fin R" "0 \<le> R" "R \<le> 1000" "rnd R = R" by (rule ring_length_value)
  obtain p where p: "td_pct td = Fin p" "0 \<le> p" "p \<le> 1" "td_cop td = None \<longrightarrow> p = 0"
    unfolding assms(3) by (rule today_pct[OF assms(1,2)])
  have "0 \<le> R * p" "R * p \<le> R" using R(2) p(2,3) by (simp_all add: mult_left_le)
  moreover have "\<bar>R * p\<bar> \<le> 2 ^ 100" using calculation R(3) by simp
  ultimately obtain y where "fl (R * p) = Fin y" "0 \<le> y" "y \<le> R" using fl_bounds[of 0 R "R * p"] R(4) by auto
  then show ?thesis using p(4) by (auto simp: R(1) p(1) zero_jsnum_def)
qed

theorem ring_within_circle_witness:
  "0 \<le> ring_length * td_pct (today_values [Some (wh 5), Some (wh 9)] [Some (wh 1), Some (wh 30)]) \<and>
   ring_length * td_pct (today_values [Some (wh 5), Some (wh 9)] [Some (wh 1), Some (wh 30)]) \<le> ring_length \<and>
   (td_cop (today_values [Some (wh 5), Some (wh 9)] [Some (wh 1), Some (wh 30)]) = None \<longrightarrow>
      ring_length * td_pct (today_values [Some (wh 5), Some (wh 9)] [Some (wh 1), Some (wh 30)]) = 0)"
  by (rule ring_within_circle[OF _ _ refl]) (auto simp: readings_ok_def wh_def)

end
