(* ===== verification/History.thy ===== *)
theory History
  imports Overview Api
begin

text \<open>
  \<open>views/history.js\<close>: the window of time and its buttons, the panels, the custom charts grouped by unit,
  and the state of the view: window, charts, requests in flight, refresh interval. White space between
  tags is left out of the texts; \<open>date_text days t\<close> stands for \<open>toLocaleString\<close> with the options of
  \<open>renderRangeBar\<close>.
\<close>

section \<open>Tables\<close>

definition history_ranges :: "(string \<times> rat) list" where
  "history_ranges = [(''1h'', 3600), (''6h'', 6 * 3600), (''24h'', 86400), (''7d'', 7 * 86400), (''30d'', 30 * 86400),
     (''90d'', 90 * 86400), (''1y'', 365 * 86400)]"

record panel_def =
  pd_id :: string
  pd_title :: string
  pd_unit :: string
  pd_span :: nat
  pd_height :: nat
  pd_series :: "(name_key \<times> string) list"

definition PANELS :: "panel_def list" where
  "PANELS =
     [\<lparr> pd_id = ''temps'', pd_title = ''Temperatures'', pd_unit = degree @ ''C'', pd_span = 12, pd_height = 300,
        pd_series = [(K_outdoor, ''Outdoor''), (K_waterOut, ''Flow out''), (K_waterIn, ''Return''), (K_tank, ''DHW tank''),
                     (K_outlet1, ''Outlet zone 1''), (K_outlet2, ''Outlet zone 2''), (K_lawTarget, ''Water law target'')] \<rparr>,
      \<lparr> pd_id = ''power'', pd_title = ''Electrical power'', pd_unit = ''W'', pd_span = 12, pd_height = 220, pd_series = [(K_power, ''Power'')] \<rparr>,
      \<lparr> pd_id = ''freq'', pd_title = ''Compressor frequency'', pd_unit = ''Hz'', pd_span = 6, pd_height = 200, pd_series = [(K_freq, ''Frequency'')] \<rparr>,
      \<lparr> pd_id = ''flow'', pd_title = ''Water flow'', pd_unit = ''L/min'', pd_span = 6, pd_height = 200, pd_series = [(K_flow, ''Flow'')] \<rparr>]"

definition STATES :: "(name_key \<times> string) list" where
  "STATES = [(K_valve, ''3-way valve''), (K_opMode, ''Operation''), (K_dhw, ''DHW''), (K_zone1, ''Zone 1''), (K_zone2, ''Zone 2''),
     (K_defrost, ''Defrost''), (K_backup, ''Backup heater'')]"

definition visible_panels :: "store \<Rightarrow> panel_def list" where
  "visible_panels st = filter (\<lambda>p. \<exists>(n, l)\<in>set (pd_series p). ent st (N n) \<noteq> None) PANELS"

definition present_series :: "store \<Rightarrow> panel_def \<Rightarrow> (name_key \<times> string) list" where
  "present_series st p = filter (\<lambda>(n, l). ent st (N n) \<noteq> None) (pd_series p)"

definition panel_series :: "store \<Rightarrow> panel_def \<Rightarrow> line_series list" where
  "panel_series st p =
     map (\<lambda>(i, (n, l)). \<lparr> ls_label = l, ls_color = nullish (elem_at SLOTS i) ''undefined'', ls_unit = Some (pd_unit p),
                        ls_decimals = Some (decimals_for (Some (pd_unit p)) None), ls_format = None \<rparr>)
       (zip [0..<length (present_series st p)] (present_series st p))"

section \<open>The window\<close>

text \<open>\<open>w_end\<close> is \<open>None\<close> while the window follows the present; times are in seconds.\<close>

record window =
  w_span :: jsnum
  w_end :: "jsnum option"

definition window_range :: "jsnum \<Rightarrow> window \<Rightarrow> jsnum \<times> jsnum" where
  "window_range now w = (let e = nullish (w_end w) now in (e - w_span w, e))"

definition set_range :: "jsnum \<Rightarrow> window \<Rightarrow> window" where
  "set_range s w = w\<lparr> w_span := s, w_end := None \<rparr>"

definition window_prev :: "jsnum \<Rightarrow> window \<Rightarrow> window" where
  "window_prev now w = w\<lparr> w_end := Some (nullish (w_end w) now - w_span w) \<rparr>"

definition window_next :: "jsnum \<Rightarrow> window \<Rightarrow> window" where
  "window_next now w =
     (let e = nullish (w_end w) now + w_span w
      in w\<lparr> w_end := (if now - Fin 60 \<le> e then None else Some e) \<rparr>)"

definition window_zoom :: "jsnum \<Rightarrow> jsnum \<Rightarrow> window \<Rightarrow> window" where
  "window_zoom a b w = w\<lparr> w_span := jmax (Fin 300) (b - a), w_end := Some b \<rparr>"

text \<open>\<open>renderRangeBar\<close>: the label, the active buttons, and whether "Later" is disabled.\<close>

definition range_label :: "(bool \<Rightarrow> jsnum \<Rightarrow> string) \<Rightarrow> jsnum \<Rightarrow> window \<Rightarrow> string" where
  "range_label date_text now w =
     (let (s, e) = window_range now w; days = Fin (2 * 86400) \<le> w_span w
      in date_text days s @ '' '' @ endash @ '' '' @ (if w_end w = None then ''now'' else date_text days e))"

definition active_ranges :: "window \<Rightarrow> bool list" where
  "active_ranges w = map (\<lambda>(l, s). num_eq (Fin s) (w_span w)) history_ranges"

definition next_disabled :: "window \<Rightarrow> bool" where
  "next_disabled w = (w_end w = None)"

section \<open>Requests\<close>

text \<open>The number of points asked for, at most 1500.\<close>

definition history_points :: "jsnum \<Rightarrow> jsnum" where
  "history_points client_width = jmin (Fin 1500) (jround (num_or (Some client_width) (Fin 1200) / Fin (3/2)))"

text \<open>
  The identifiers of a load. The names of the charts were present at \<open>mount\<close>; if one has vanished
  since, \<open>ent(x.name).id\<close> throws: \<open>None\<close>.
\<close>

definition load_ids :: "store \<Rightarrow> name_key list \<Rightarrow> string list option" where
  "load_ids st names =
     (if \<exists>n\<in>set names. ent st (N n) = None then None
      else Some (first_occurrences (List.map_filter (ent_id st) (names @ map fst STATES))))"

definition panel_tables :: "(string \<Rightarrow> series option) \<Rightarrow> store \<Rightarrow> name_key list \<Rightarrow> data_table list" where
  "panel_tables res st names =
     map (\<lambda>k. case series_of res st k of Some s \<Rightarrow> (sr_t s, sr_v s) | None \<Rightarrow> ([], [])) names"

section \<open>Custom charts\<close>

definition add_custom :: "string \<Rightarrow> string list \<Rightarrow> string list" where
  "add_custom i custom = (if i \<noteq> [] \<and> i \<notin> set custom then custom @ [i] else custom)"

definition remove_custom :: "string \<Rightarrow> string list \<Rightarrow> string list" where
  "remove_custom i custom = filter (\<lambda>j. j \<noteq> i) custom"

definition numeric_entities :: "(string \<Rightarrow> string \<Rightarrow> bool) \<Rightarrow> store \<Rightarrow> entity list" where
  "numeric_entities collate st =
     sort_by (\<lambda>a b. collate (e_name a) (e_name b))
       (filter (\<lambda>e. e_kind e = Numeric \<and> e_category e \<noteq> ''fsv'') (all_entities st))"

definition pick_html :: "(string \<Rightarrow> string \<Rightarrow> bool) \<Rightarrow> store \<Rightarrow> string list \<Rightarrow> string" where
  \<open>pick_html collate st custom =
     ''<option value="">+ Add sensor'' @ [CHR 0xE2, CHR 0x80, CHR 0xA6] @ ''</option>'' @
     concat (map (\<lambda>x. ''<option value="'' @ esc (Some (e_id x)) @ ''">'' @ esc (Some (e_name x)) @
                      (if truthy_text (e_unit x) then '' ('' @ esc (e_unit x) @ '')'' else []) @ ''</option>'')
              (filter (\<lambda>x. e_id x \<notin> set custom) (numeric_entities collate st)))\<close>

definition chosen :: "store \<Rightarrow> string list \<Rightarrow> entity list" where
  "chosen st custom = List.map_filter (entity_by_id st) custom"

definition chips_html :: "store \<Rightarrow> string list \<Rightarrow> string" where
  \<open>chips_html st custom =
     concat (map (\<lambda>x. ''<button class="chip" data-rm="'' @ esc (Some (e_id x)) @ ''" title="Remove">'' @ esc (Some (e_name x)) @
                      '' '' @ [CHR 0xE2, CHR 0x9C, CHR 0x95] @ ''</button>'') (chosen st custom))\<close>

text \<open>One chart per unit, in the order in which the units first occur.\<close>

definition unit_of :: "entity \<Rightarrow> string" where
  "unit_of x = (if truthy_text (e_unit x) then the (e_unit x) else ''value'')"

definition group_step :: "entity \<Rightarrow> (string, entity list) jsmap \<Rightarrow> (string, entity list) jsmap" where
  "group_step x m =
     (let m = (if map_get m (unit_of x) = None then map_set (unit_of x) [] m else m)
      in map_set (unit_of x) (nullish (map_get m (unit_of x)) [] @ [x]) m)"

definition unit_groups :: "entity list \<Rightarrow> (string, entity list) jsmap" where
  "unit_groups xs = fold group_step xs []"

definition custom_series :: "entity list \<Rightarrow> line_series list" where
  "custom_series xs =
     map (\<lambda>(i, x). \<lparr> ls_label = e_name x, ls_color = nullish (elem_at SLOTS (i mod length SLOTS)) ''undefined'', ls_unit = e_unit x,
                    ls_decimals = Some (decimals_for (e_unit x) None), ls_format = None \<rparr>) (zip [0..<length xs] xs)"

definition custom_unit :: "string \<Rightarrow> string" where
  "custom_unit u = (if u = ''value'' then [] else u)"

section \<open>The view\<close>

text \<open>What the handlers of the pages read from outside: the live state, \<open>Date.now()\<close> and the width of the view.\<close>

record env =
  en_store :: store
  en_now :: int
  en_width :: jsnum

definition now_seconds :: "env \<Rightarrow> jsnum" where
  "now_seconds en = Fin (of_int (en_now en)) / Fin 1000"

text \<open>A request of \<open>api.history\<close> in flight, and the path it was sent to.\<close>

record history_request =
  hr_ids :: "string list"
  hr_start :: jsnum
  hr_end :: jsnum
  hr_points :: jsnum

definition request_path :: "history_request \<Rightarrow> string" where
  "request_path r = history_path (hr_ids r) (hr_start r) (hr_end r) (hr_points r)"

text \<open>The request for the window on show.\<close>

definition window_request :: "string list \<Rightarrow> jsnum \<Rightarrow> jsnum \<Rightarrow> window \<Rightarrow> history_request" where
  "window_request ids points now w =
     (let (s, e) = window_range now w in \<lparr> hr_ids = ids, hr_start = s, hr_end = e, hr_points = points \<rparr>)"

text \<open>
  Charts are numbered. A custom chart on show is recorded with its unit and the page (the host
  element) it was appended to; requests remember what they asked for and, for custom charts, the page that was
  visible when they were made and the units to draw.
\<close>

record history_view =
  hv_window :: window
  hv_custom :: "string list"
  hv_names :: "name_key list list"
  hv_charts :: "nat list"
  hv_custom_charts :: "nat list"
  hv_boxes :: "(nat \<times> string) list"
  hv_created :: nat
  hv_destroyed :: "nat list"
  hv_page :: nat
  hv_intervals :: intervals
  hv_timer :: "nat option"
  hv_loads :: "(nat \<times> bool \<times> history_request) list"
  hv_custom_loads :: "(nat \<times> nat \<times> string list \<times> history_request) list"
  hv_requests :: nat

definition init_history :: "string list \<Rightarrow> history_view" where
  "init_history custom = \<lparr> hv_window = \<lparr> w_span = Fin 86400, w_end = None \<rparr>, hv_custom = custom, hv_names = [], hv_charts = [],
     hv_custom_charts = [], hv_boxes = [], hv_created = 0, hv_destroyed = [], hv_page = 0, hv_intervals = no_intervals,
     hv_timer = None, hv_loads = [], hv_custom_loads = [], hv_requests = 0 \<rparr>"

text \<open>\<open>load\<close> and \<open>loadCustom\<close> up to their \<open>await\<close>.\<close>

definition start_history_load :: "env \<Rightarrow> bool \<Rightarrow> history_view \<Rightarrow> history_view" where
  "start_history_load en silent v =
     (case load_ids (en_store en) (concat (hv_names v)) of
        None \<Rightarrow> v
      | Some ids \<Rightarrow>
          let r = window_request ids (history_points (en_width en)) (now_seconds en) (hv_window v)
          in v\<lparr> hv_loads := hv_loads v @ [(hv_requests v, silent, r)], hv_requests := Suc (hv_requests v) \<rparr>)"

definition load_custom :: "env \<Rightarrow> history_view \<Rightarrow> history_view" where
  "load_custom en v =
     (let v = v\<lparr> hv_destroyed := hv_destroyed v @ hv_custom_charts v, hv_custom_charts := [], hv_boxes := [] \<rparr>;
          xs = chosen (en_store en) (hv_custom v);
          r = window_request (map e_id xs) (Fin 800) (now_seconds en) (hv_window v)
      in if xs = [] then v
         else v\<lparr> hv_custom_loads := hv_custom_loads v @ [(hv_requests v, hv_page v, map fst (unit_groups xs), r)],
                hv_requests := Suc (hv_requests v) \<rparr>)"

text \<open>The rest of \<open>load\<close>: a failed request is only logged, so \<open>loadCustom\<close> follows in any case.\<close>

definition load_answer :: "nat \<Rightarrow> env \<Rightarrow> history_view \<Rightarrow> history_view" where
  "load_answer k en v =
     (case map_of (hv_loads v) k of
        None \<Rightarrow> v
      | Some (silent, r) \<Rightarrow>
          let v = v\<lparr> hv_loads := filter (\<lambda>(j, _). j \<noteq> k) (hv_loads v) \<rparr>
          in if \<not> silent \<or> hv_custom v \<noteq> [] then load_custom en v else v)"

text \<open>The rest of \<open>loadCustom\<close>: a box and a chart per unit; a failed request leaves the page without charts.\<close>

definition custom_answer :: "nat \<Rightarrow> bool \<Rightarrow> history_view \<Rightarrow> history_view" where
  "custom_answer k ok v =
     (case map_of (hv_custom_loads v) k of
        None \<Rightarrow> v
      | Some (pg, units, r) \<Rightarrow>
          let v = v\<lparr> hv_custom_loads := filter (\<lambda>(j, _). j \<noteq> k) (hv_custom_loads v) \<rparr>;
              new = [hv_created v..<hv_created v + length units]
          in if \<not> ok then v
             else v\<lparr> hv_custom_charts := hv_custom_charts v @ new, hv_created := hv_created v + length units,
                    hv_boxes := (if pg = hv_page v then hv_boxes v @ zip new units else hv_boxes v) \<rparr>)"

definition mount_history :: "env \<Rightarrow> history_view \<Rightarrow> history_view" where
  "mount_history en v =
     (let ps = visible_panels (en_store en);
          v = v\<lparr> hv_page := Suc (hv_page v), hv_boxes := [], hv_names := map (\<lambda>p. map fst (present_series (en_store en) p)) ps,
                hv_charts := [hv_created v..<hv_created v + length ps], hv_created := hv_created v + length ps \<rparr>;
          v = start_history_load en False v;
          (iv, t) = set_interval (hv_intervals v)
      in v\<lparr> hv_intervals := iv, hv_timer := Some t \<rparr>)"

definition unmount_history :: "history_view \<Rightarrow> history_view" where
  "unmount_history v =
     v\<lparr> hv_intervals := (case hv_timer v of None \<Rightarrow> hv_intervals v | Some t \<Rightarrow> clear_interval t (hv_intervals v)),
        hv_destroyed := hv_destroyed v @ hv_charts v @ hv_custom_charts v, hv_charts := [], hv_names := [], hv_custom_charts := [] \<rparr>"

datatype history_event =
    Hi_range rat env
  | Hi_prev env
  | Hi_next env
  | Hi_zoom jsnum jsnum env
  | Hi_pick string env
  | Hi_remove string env
  | Hi_tick env
  | Hi_answer nat env
  | Hi_custom_answer nat bool

definition move_window :: "env \<Rightarrow> (window \<Rightarrow> window) \<Rightarrow> history_view \<Rightarrow> history_view" where
  "move_window en f v = start_history_load en False (v\<lparr> hv_window := f (hv_window v) \<rparr>)"

fun history_step :: "history_view \<Rightarrow> history_event \<Rightarrow> history_view" where
  "history_step v (Hi_range s en) = move_window en (set_range (Fin s)) v"
| "history_step v (Hi_prev en) = move_window en (window_prev (now_seconds en)) v"
| "history_step v (Hi_next en) = move_window en (window_next (now_seconds en)) v"
| "history_step v (Hi_zoom a b en) = move_window en (window_zoom a b) v"
| "history_step v (Hi_pick i en) = load_custom en (v\<lparr> hv_custom := add_custom i (hv_custom v) \<rparr>)"
| "history_step v (Hi_remove i en) = load_custom en (v\<lparr> hv_custom := remove_custom i (hv_custom v) \<rparr>)"
| "history_step v (Hi_tick en) = (if w_end (hv_window v) = None then start_history_load en True v else v)"
| "history_step v (Hi_answer k en) = load_answer k en v"
| "history_step v (Hi_custom_answer k ok) = custom_answer k ok v"

section \<open>Lemmas on the window\<close>

text \<open>Times in whole seconds, for which the arithmetic of Numbers is exact.\<close>

abbreviation sec :: "int \<Rightarrow> jsnum" where
  "sec n \<equiv> wh n"

lemma sec_ops [simp]:
  "\<bar>a\<bar> \<le> 2 ^ 52 \<Longrightarrow> \<bar>b\<bar> \<le> 2 ^ 52 \<Longrightarrow> sec a - sec b = sec (a - b)"
  "\<bar>a\<bar> \<le> 2 ^ 52 \<Longrightarrow> \<bar>b\<bar> \<le> 2 ^ 52 \<Longrightarrow> sec a + sec b = sec (a + b)"
  by (auto intro!: wh_ops simp: abs_le_iff)

lemma sec_le [simp]: "sec a \<le> sec b \<longleftrightarrow> a \<le> b"
  by (simp add: wh_def)

lemma sec_60: "Fin 60 = sec 60"
  by (simp add: wh_def)

lemma sub_le:
  assumes "x \<le> Fin n" "rnd n = n" "0 \<le> s" "\<bar>n\<bar> \<le> 2 ^ 100"
  shows "x - Fin s \<le> Fin n"
proof (cases x)
  case (Fin a)
  then have "fl (a - s) \<le> fl n" using assms(1,3) by (intro fl_mono) simp
  then show ?thesis using assms(2,4) by (simp add: Fin fl_exact)
qed (use assms(1) in \<open>simp_all add: minus_jsnum_def\<close>)

text \<open>What the buttons and a zoom do to the window at a time; time does not run backwards.\<close>

datatype window_event = W_range "string \<times> rat" | W_prev | W_next | W_zoom rat rat

fun window_step :: "rat \<times> window \<Rightarrow> rat \<times> window_event \<Rightarrow> rat \<times> window" where
  "window_step (t, w) (now, W_range r) = (now, set_range (Fin (snd r)) w)"
| "window_step (t, w) (now, W_prev) = (now, window_prev (Fin now) w)"
| "window_step (t, w) (now, W_next) = (now, window_next (Fin now) w)"
| "window_step (t, w) (now, W_zoom a b) = (now, window_zoom (Fin a) (Fin b) w)"

definition time_ok :: "rat \<Rightarrow> bool" where
  "time_ok t \<longleftrightarrow> \<bar>t\<bar> \<le> 1000000000000 \<and> rnd t = t"

fun window_enabled :: "rat \<times> window \<Rightarrow> rat \<times> window_event \<Rightarrow> bool" where
  "window_enabled (t, w) (now, W_range r) = (t \<le> now \<and> time_ok now \<and> r \<in> set history_ranges)"
| "window_enabled (t, w) (now, W_zoom a b) = (t \<le> now \<and> time_ok now \<and> time_ok a \<and> time_ok b)"
| "window_enabled (t, w) (now, e) = (t \<le> now \<and> time_ok now)"

text \<open>The right edge of the last zoom, until a range button or "Later" is pressed.\<close>

fun zoomed_to :: "rat option \<Rightarrow> (rat \<times> window_event) list \<Rightarrow> rat option" where
  "zoomed_to z [] = z"
| "zoomed_to z ((now, W_range r) # es) = zoomed_to None es"
| "zoomed_to z ((now, W_prev) # es) = zoomed_to z es"
| "zoomed_to z ((now, W_next) # es) = zoomed_to None es"
| "zoomed_to z ((now, W_zoom a b) # es) = zoomed_to (Some b) es"

text \<open>A time is not after the present or not after that edge.\<close>

definition ends_by :: "rat \<Rightarrow> rat option \<Rightarrow> jsnum \<Rightarrow> bool" where
  "ends_by now z x \<longleftrightarrow> x \<le> Fin now \<or> (\<exists>b. z = Some b \<and> time_ok b \<and> x \<le> Fin b)"

definition window_ok :: "rat option \<Rightarrow> rat \<times> window \<Rightarrow> bool" where
  "window_ok z tw \<longleftrightarrow> time_ok (fst tw) \<and> (\<exists>s. w_span (snd tw) = Fin s \<and> 300 \<le> s) \<and>
     (case w_end (snd tw) of None \<Rightarrow> True | Some e \<Rightarrow> ends_by (fst tw) z e)"

lemma window_ends_by:
  assumes "window_ok z (t, w)" "t \<le> now" shows "ends_by now z (nullish (w_end w) (Fin now))"
  using assms num_le_trans[of "the (w_end w)" "Fin t" "Fin now"] by (auto simp: window_ok_def ends_by_def split: option.splits)

lemma ends_by_sub:
  assumes "ends_by now z x" "time_ok now" "0 \<le> s" shows "ends_by now z (x - Fin s)"
  using assms sub_le[of x _ s] by (force simp: ends_by_def time_ok_def)

lemma window_ok_step: "window_ok z s \<Longrightarrow> window_enabled s e \<Longrightarrow> window_ok (zoomed_to z [e]) (window_step s e)"
proof -
  assume ok: "window_ok z s" and en: "window_enabled s e"
  obtain t w now ev where s: "s = (t, w)" and e: "e = (now, ev)" by (cases s; cases e)
  have now: "time_ok now" "t \<le> now" using en unfolding s e by (cases ev; simp)+
  then have n: "rnd now = now" "\<bar>now\<bar> \<le> 2 ^ 100" by (simp_all add: time_ok_def)
  obtain sp where sp: "w_span w = Fin sp" "300 \<le> sp" using ok by (auto simp: s window_ok_def)
  have le: "ends_by now z (nullish (w_end w) (Fin now))" using ok now(2) unfolding s by (rule window_ends_by)
  show ?thesis
  proof (cases ev)
    case (W_range r)
    then have "300 \<le> snd r" using en by (auto simp: s e history_ranges_def)
    then show ?thesis using now by (simp add: s e W_range window_ok_def set_range_def)
  next
    case W_prev
    have "ends_by now z (nullish (w_end w) (Fin now) - Fin sp)" using le now(1) sp(2) by (intro ends_by_sub) simp_all
    then show ?thesis using now sp by (simp add: s e W_prev window_ok_def window_prev_def)
  next
    case W_next
    let ?e = "nullish (w_end w) (Fin now) + Fin sp"
    have "Fin now - Fin 60 \<le> Fin now" using n by (intro sub_le) simp_all
    moreover have "?e \<noteq> NaN" using le by (cases "nullish (w_end w) (Fin now)") (auto simp: ends_by_def)
    moreover have "Fin now - Fin 60 \<noteq> NaN" by simp
    ultimately have "\<not> Fin now - Fin 60 \<le> ?e \<Longrightarrow> ?e \<le> Fin now"
      using num_le_total[of "Fin now - Fin 60" ?e] num_le_trans[of ?e "Fin now - Fin 60" "Fin now"] by blast
    then show ?thesis using now sp by (simp add: s e W_next window_ok_def window_next_def Let_def ends_by_def)
  next
    case (W_zoom a b)
    then have ab: "time_ok a" "time_ok b" using en by (simp_all add: s e)
    then have "fl (b - a) = Fin (rnd (b - a))" by (intro fl_small) (simp add: time_ok_def abs_le_iff)
    then show ?thesis using now ab by (simp add: s e W_zoom window_ok_def window_zoom_def ends_by_def)
  qed
qed

lemma zoomed_to_Cons: "zoomed_to z (e # es) = zoomed_to (zoomed_to z [e]) es"
  by (cases e; cases "snd e") auto

lemma window_ok_run:
  "window_ok z s \<Longrightarrow> enabled_run window_enabled window_step s es \<Longrightarrow> window_ok (zoomed_to z es) (run window_step s es)"
proof (induction es arbitrary: z s)
  case (Cons e es)
  then have "window_ok (zoomed_to (zoomed_to z [e]) es) (run window_step (window_step s e) es)"
    by (intro Cons.IH window_ok_step) simp_all
  then show ?case by (subst zoomed_to_Cons) simp
qed simp

section \<open>Properties of the window\<close>

text \<open>
  C21: where the history window can end, after any sequence of range buttons, earlier, later and zooms at times
  that do not run backwards: not after the present, or else not after the right edge of the last zoom, which
  \<open>zoom\<close> does not clip, and only until a range button or "Later" is pressed. It never shows less than five minutes.
\<close>

theorem window_not_ahead:
  assumes "enabled_run window_enabled window_step (t, hv_window (init_history custom)) es" "time_ok t"
    and "(now, w) = run window_step (t, hv_window (init_history custom)) es"
  shows "(snd (window_range (Fin now) w) \<le> Fin now \<or>
      (\<exists>b. zoomed_to None es = Some b \<and> snd (window_range (Fin now) w) \<le> Fin b)) \<and> Fin 300 \<le> w_span w"
proof -
  have "window_ok None (t, hv_window (init_history custom))" using assms(2) by (simp add: window_ok_def init_history_def)
  then have ok: "window_ok (zoomed_to None es) (now, w)" unfolding assms(3) using assms(1) by (rule window_ok_run)
  then show ?thesis using window_ends_by[OF ok] by (auto simp: window_range_def window_ok_def Let_def ends_by_def)
qed

definition sample_presses :: "(rat \<times> window_event) list" where
  "sample_presses = [(1000000, W_zoom 990000 1000400), (1000010, W_prev), (1000020, W_next)]"

theorem window_not_ahead_witness:
  "snd (window_range (Fin (fst (run window_step (0, hv_window (init_history [])) sample_presses)))
      (snd (run window_step (0, hv_window (init_history [])) sample_presses)))
    \<le> Fin (fst (run window_step (0, hv_window (init_history [])) sample_presses)) \<and>
   Fin 300 \<le> w_span (snd (run window_step (0, hv_window (init_history [])) sample_presses))"
proof -
  have "enabled_run window_enabled window_step (0, hv_window (init_history [])) sample_presses"
    by (simp add: sample_presses_def time_ok_def)
  from window_not_ahead[OF this _ prod.collapse] show ?thesis by (simp add: time_ok_def sample_presses_def)
qed

text \<open>
  "Earlier" and then "Later" bring back the window that was on show: a window in the past exactly (unless it
  ends within a minute of the present, which counts as the present), and the present if no more than a minute passed.
\<close>

theorem earlier_then_later:
  assumes "w_span w = sec s" "0 \<le> s" "s \<le> 2 ^ 50" "0 \<le> t1" "t1 \<le> t2" "t2 \<le> 2 ^ 50"
    and "case w_end w of None \<Rightarrow> e = t1 | Some x \<Rightarrow> x = sec e \<and> \<bar>e\<bar> \<le> 2 ^ 50"
  shows "window_next (sec t2) (window_prev (sec t1) w) = w\<lparr> w_end := (if t2 - 60 \<le> e then None else Some (sec e)) \<rparr>"
proof -
  have e: "nullish (w_end w) (sec t1) = sec e" "\<bar>e\<bar> \<le> 2 ^ 50" using assms(4-7) by (auto split: option.splits)
  then have "sec e - sec s = sec (e - s)" "sec (e - s) + sec s = sec e" "sec t2 - sec 60 = sec (t2 - 60)"
    using assms(2-6) by (auto simp: abs_le_iff intro: trans[OF sec_ops(1)] trans[OF sec_ops(2)])
  then show ?thesis by (simp add: window_next_def window_prev_def e assms(1) sec_60)
qed

theorem earlier_then_later_witness:
  "window_next (sec 1000) (window_prev (sec 990) \<lparr> w_span = sec 3600, w_end = Some (sec 500) \<rparr>) =
   \<lparr> w_span = sec 3600, w_end = Some (sec 500) \<rparr>\<lparr> w_end := (if 1000 - 60 \<le> (500::int) then None else Some (sec 500)) \<rparr>"
  by (rule earlier_then_later[where s = 3600]) simp_all

lemma presses_later:
  assumes "w_span w = sec s" "1 \<le> s" "s \<le> 2 ^ 50" "w_end w = Some (sec e)" "- (2 ^ 50) \<le> e" "e \<le> now" "now \<le> 2 ^ 50"
  defines "f \<equiv> window_next (sec now)"
  shows "(\<exists>j\<le>n. w_end ((f ^^ j) w) = None) \<or>
    w_span ((f ^^ n) w) = sec s \<and> w_end ((f ^^ n) w) = Some (sec (e + int n * s)) \<and> e + int n * s \<le> now \<and>
    (n \<noteq> 0 \<longrightarrow> e + int n * s < now - 60)"
proof (induction n)
  case (Suc n)
  show ?case
  proof (cases "\<exists>j\<le>Suc n. w_end ((f ^^ j) w) = None")
    case False
    then have live: "w_end (f ((f ^^ n) w)) \<noteq> None" by fastforce
    from False Suc have v: "w_span ((f ^^ n) w) = sec s" "w_end ((f ^^ n) w) = Some (sec (e + int n * s))" "e + int n * s \<le> now"
      by (auto simp: le_Suc_eq)
    define x where "x = e + int n * s"
    have "0 \<le> int n * s" using assms(2) by simp
    then have x: "- (2 ^ 50) \<le> x" "x \<le> now" using assms(5) v(3) by (auto simp: x_def)
    have "sec x + sec s = sec (x + s)" "sec now - sec 60 = sec (now - 60)"
      using x assms(2,3,7) by (auto simp: abs_le_iff)
    then have "f ((f ^^ n) w) = ((f ^^ n) w)\<lparr> w_end := (if now - 60 \<le> x + s then None else Some (sec (x + s))) \<rparr>"
      by (simp add: f_def window_next_def v[unfolded f_def] x_def[symmetric] sec_60)
    moreover have "\<not> now - 60 \<le> x + s" using live calculation by auto
    moreover have "e + int (Suc n) * s = x + s" by (simp add: x_def algebra_simps)
    ultimately show ?thesis using v(1) by simp
  qed simp
qed (use assms in simp)

text \<open>
  C20: "Later" leads back to the present: from a window that ends \<open>d\<close> seconds ago, at most \<open>d div span + 1\<close>
  presses (while the clock stands) reach the live window.
\<close>

theorem later_reaches_present:
  assumes "w_span w = sec s" "1 \<le> s" "s \<le> 2 ^ 50" "w_end w = Some (sec e)" "- (2 ^ 50) \<le> e" "e \<le> now" "now \<le> 2 ^ 50"
  shows "\<exists>n \<le> nat ((now - e) div s + 1). w_end ((window_next (sec now) ^^ n) w) = None"
proof -
  define n where "n = nat ((now - e) div s + 1)"
  have d: "0 \<le> (now - e) div s" using assms(2,6) by (simp add: pos_imp_zdiv_nonneg_iff)
  then have n: "int n = (now - e) div s + 1" "n \<noteq> 0" by (simp_all add: n_def)
  have "now - e < int n * s" unfolding n(1) using assms(2) int_div_bounds[of s "now - e"] by (simp add: algebra_simps)
  then have "\<not> e + int n * s \<le> now" by simp
  then show ?thesis using presses_later[OF assms, of n] unfolding n_def by blast
qed

theorem later_reaches_present_witness:
  "\<exists>n \<le> nat ((100000 - 5000) div 3600 + 1).
     w_end ((window_next (sec 100000) ^^ n) \<lparr> w_span = sec 3600, w_end = Some (sec 5000) \<rparr>) = None"
  by (rule later_reaches_present) simp_all

section \<open>Custom charts by unit\<close>

definition with_unit_of :: "string \<Rightarrow> entity list \<Rightarrow> entity list" where
  "with_unit_of u xs = filter (\<lambda>x. unit_of x = u) xs"

lemma group_step_ok: "map_ok m \<Longrightarrow> map_ok (group_step x m)"
  unfolding group_step_def Let_def by (auto intro: jsm.ok_put)

lemma group_step_get:
  "map_get (group_step x m) u = (if u = unit_of x then Some (nullish (map_get m u) [] @ [x]) else map_get m u)"
  by (simp add: group_step_def Let_def js_map split: option.split)

lemma unit_groups_ok: "map_ok (unit_groups xs)"
  by (induction xs rule: rev_induct) (simp_all add: unit_groups_def group_step_ok jsm.ok_empty)

lemma unit_groups_get: "map_get (unit_groups xs) u = (if with_unit_of u xs = [] then None else Some (with_unit_of u xs))"
  by (induction xs rule: rev_induct) (auto simp: unit_groups_def with_unit_of_def group_step_get)

text \<open>
  The custom charts never mix units: grouping splits the chosen entities into one group per unit, no unit
  twice, each group holding exactly the entities of that unit in the order in which they were chosen.
\<close>

theorem unit_groups_partition:
  "distinct (map fst (unit_groups xs)) \<and> set (map fst (unit_groups xs)) = set (map unit_of xs) \<and>
   (\<forall>(u, ys)\<in>set (unit_groups xs). ys = filter (\<lambda>x. unit_of x = u) xs)"
proof -
  note ok = unit_groups_ok[of xs] and get = unit_groups_get[of xs]
  have "set (map fst (unit_groups xs)) = dom (map_get (unit_groups xs))" by (simp add: dom_map_of_conv_image_fst)
  also have "\<dots> = set (map unit_of xs)" by (auto simp: dom_def get with_unit_of_def filter_empty_conv split: if_splits)
  finally have 1: "set (map fst (unit_groups xs)) = set (map unit_of xs)" .
  have "ys = filter (\<lambda>x. unit_of x = u) xs" if "(u, ys) \<in> set (unit_groups xs)" for u ys
    using that map_ok_get[OF ok, of u ys] get[of u] by (simp add: with_unit_of_def split: if_splits)
  with 1 ok show ?thesis by (auto simp: map_ok_def)
qed

section \<open>The life of the view\<close>

text \<open>Every chart created so far is a panel chart on show, a custom chart on show, or destroyed, and only once.\<close>

definition charts_accounted :: "history_view \<Rightarrow> bool" where
  "charts_accounted v \<longleftrightarrow> mset (hv_destroyed v) + mset (hv_charts v) + mset (hv_custom_charts v) = mset [0..<hv_created v]"

definition history_live :: "history_view \<Rightarrow> bool" where
  "history_live v \<longleftrightarrow> charts_accounted v \<and> (\<forall>i\<in>set (iv_running (hv_intervals v)). hv_timer v = Some i)"

definition history_idle :: "history_view \<Rightarrow> bool" where
  "history_idle v \<longleftrightarrow> charts_accounted v \<and> hv_charts v = [] \<and> iv_running (hv_intervals v) = []"

text \<open>Answers may come after the page was left; only those for custom charts then create charts.\<close>

fun late_history :: "history_event \<Rightarrow> bool" where
  "late_history (Hi_answer k en) = True"
| "late_history (Hi_custom_answer k ok) = True"
| "late_history e = False"

fun draws_custom :: "history_event \<Rightarrow> bool" where
  "draws_custom (Hi_custom_answer k ok) = True"
| "draws_custom e = False"

lemma mset_upt_add: "mset_set {0..<m + n} = mset_set {0..<m} + mset_set {m..<m + (n::nat)}"
  by (subst mset_set_Union[symmetric]) (auto intro: arg_cong[where f = mset_set])

lemma start_history_load_kept [simp]:
  "charts_accounted (start_history_load en silent v) = charts_accounted v"
  "hv_intervals (start_history_load en silent v) = hv_intervals v" "hv_timer (start_history_load en silent v) = hv_timer v"
  "hv_charts (start_history_load en silent v) = hv_charts v" "hv_custom_charts (start_history_load en silent v) = hv_custom_charts v"
  "hv_created (start_history_load en silent v) = hv_created v" "hv_destroyed (start_history_load en silent v) = hv_destroyed v"
  by (simp_all add: start_history_load_def charts_accounted_def split: option.split)

lemma load_custom_kept [simp]:
  "hv_intervals (load_custom en v) = hv_intervals v" "hv_timer (load_custom en v) = hv_timer v"
  "hv_charts (load_custom en v) = hv_charts v" "hv_custom_charts (load_custom en v) = []"
  "hv_created (load_custom en v) = hv_created v" "hv_destroyed (load_custom en v) = hv_destroyed v @ hv_custom_charts v"
  by (simp_all add: load_custom_def Let_def)

lemma load_custom_accounted: "charts_accounted v \<Longrightarrow> charts_accounted (load_custom en v)"
  by (simp add: charts_accounted_def ac_simps)

lemma accounted_cong:
  "hv_destroyed v = hv_destroyed v' \<Longrightarrow> hv_charts v = hv_charts v' \<Longrightarrow> hv_custom_charts v = hv_custom_charts v'
     \<Longrightarrow> hv_created v = hv_created v' \<Longrightarrow> charts_accounted v = charts_accounted v'"
  by (simp add: charts_accounted_def)

lemma custom_answer_accounted: "charts_accounted v \<Longrightarrow> charts_accounted (custom_answer k ok v)"
proof -
  assume "charts_accounted v"
  then have "mset_set {0..<hv_created v} = mset (hv_destroyed v) + mset (hv_charts v) + mset (hv_custom_charts v)"
    by (simp add: charts_accounted_def)
  then show ?thesis
    by (simp add: custom_answer_def charts_accounted_def Let_def mset_upt_add ac_simps split: option.split prod.split)
qed

lemma history_step_accounted: "charts_accounted v \<Longrightarrow> charts_accounted (history_step v e)"
proof (cases e)
  case (Hi_answer k en)
  assume "charts_accounted v"
  then have "charts_accounted (v\<lparr> hv_loads := xs \<rparr>)" for xs by (simp add: charts_accounted_def)
  then show ?thesis using Hi_answer \<open>charts_accounted v\<close>
    by (simp add: load_answer_def Let_def load_custom_accounted split: option.split)
next
  case (Hi_custom_answer k ok)
  then show "charts_accounted v \<Longrightarrow> ?thesis" by (simp add: custom_answer_accounted)
next
  case (Hi_pick i en)
  then show "charts_accounted v \<Longrightarrow> ?thesis" by (simp add: load_custom_accounted charts_accounted_def ac_simps)
next
  case (Hi_remove i en)
  then show "charts_accounted v \<Longrightarrow> ?thesis" by (simp add: load_custom_accounted charts_accounted_def ac_simps)
qed (simp_all add: move_window_def, simp_all add: charts_accounted_def)

lemma history_step_timers [simp]:
  "hv_intervals (history_step v e) = hv_intervals v" "hv_timer (history_step v e) = hv_timer v"
  by (cases e; simp add: move_window_def load_answer_def custom_answer_def Let_def split: option.split prod.split)+

lemma late_history_charts:
  "late_history e \<Longrightarrow> hv_charts (history_step v e) = hv_charts v"
  "late_history e \<Longrightarrow> \<not> draws_custom e \<Longrightarrow> hv_custom_charts v = [] \<Longrightarrow> hv_custom_charts (history_step v e) = []"
  by (cases e; simp add: load_answer_def custom_answer_def Let_def split: option.split prod.split)+

lemma unmount_history_custom [simp]: "hv_custom_charts (unmount_history v) = []"
  by (simp add: unmount_history_def)

interpretation history_page: quiet_view mount_history history_step unmount_history history_idle history_live late_history
proof unfold_locales
  show "history_live (mount_history en v)" if "history_idle v" for en v
    using that
    by (auto simp: mount_history_def history_idle_def history_live_def charts_accounted_def set_interval_def Let_def mset_upt_add ac_simps)
  show "history_live (history_step v e)" if "history_live v" for v e
    using that history_step_accounted by (simp add: history_live_def)
  show "history_idle (unmount_history v)" if "history_live v" for v
    using that by (auto simp: history_idle_def history_live_def unmount_history_def charts_accounted_def ac_simps
        intro: removeAll_all split: option.split)
  show "history_idle (history_step v e)" if "history_idle v" "late_history e" for v e
    using that history_step_accounted late_history_charts(1) by (simp add: history_idle_def)
qed

text \<open>
  Provided that every answer comes while the page is shown, leaving the history page destroys every chart that
  was created, each of them once, and stops its refresh interval, however often it is visited.
\<close>

theorem history_releases_charts:
  assumes "v = foldl (\<lambda>v (en, es). unmount_history (run history_step (mount_history en v) es)) (init_history custom) visits"
  shows "mset (hv_destroyed v) = mset [0..<hv_created v] \<and> hv_charts v = [] \<and> hv_custom_charts v = [] \<and>
    iv_running (hv_intervals v) = []"
proof -
  have "history_idle (init_history custom)" by (simp add: history_idle_def charts_accounted_def init_history_def no_intervals_def)
  from history_page.visits_idle[OF this] have "history_idle v" unfolding assms .
  moreover have "hv_custom_charts v = []" unfolding assms
    by (cases visits rule: rev_cases) (simp_all add: init_history_def split: prod.split)
  ultimately show ?thesis by (auto simp: history_idle_def charts_accounted_def)
qed

definition sample_env :: env where
  "sample_env = \<lparr> en_store = init_store, en_now = 0, en_width = Fin 900 \<rparr>"

theorem history_releases_charts_witness:
  "mset (hv_destroyed (unmount_history (run history_step (mount_history sample_env (init_history [''x''])) [Hi_answer 0 sample_env]))) =
   mset [0..<hv_created (unmount_history (run history_step (mount_history sample_env (init_history [''x''])) [Hi_answer 0 sample_env]))]"
  using history_releases_charts[OF refl, of "[''x'']" "[(sample_env, [Hi_answer 0 sample_env])]"] by simp

text \<open>
  An answer to the request for custom charts that arrives after the page was left still creates its charts:
  they stay alive (registered for theme changes and resizing) although no view is on show that owns them.
\<close>

theorem late_answer_leaks_charts:
  assumes "history_live v" "map_of (hv_custom_loads v) k = Some (pg, units, r)"
    and "v' = history_step (unmount_history v) (Hi_custom_answer k True)"
  shows "length (hv_custom_charts v') = length units \<and> set (hv_custom_charts v') \<inter> set (hv_destroyed v') = {}"
proof -
  have "mset (hv_destroyed (unmount_history v)) = mset [0..<hv_created v]"
    using history_page.unmount_idle[OF assms(1)]
    by (simp add: history_idle_def charts_accounted_def) (simp add: unmount_history_def)
  then have "set (hv_destroyed (unmount_history v)) = {0..<hv_created v}" by (metis set_mset_mset set_upt)
  then show ?thesis using assms(2) by (auto simp: assms(3) custom_answer_def unmount_history_def Let_def)
qed

lemma chosen_sample: "chosen control_store [''t''] = [sample_setpoint\<lparr> e_category := ''control'' \<rparr>]"
  by (simp add: chosen_def entity_by_id_def control_store_def set_entities_def init_store_def List.map_filter_def sample_setpoint_def)

lemma groups_sample: "map fst (unit_groups [sample_setpoint\<lparr> e_category := ''control'' \<rparr>]) = [''value'']"
  by (simp add: unit_groups_def group_step_def unit_of_def truthy_text_def sample_setpoint_def)

theorem unit_groups_partition_witness:
  "distinct (map fst (unit_groups [sample_setpoint, sample_setpoint\<lparr> e_unit := Some ''K'' \<rparr>])) \<and>
   set (map fst (unit_groups [sample_setpoint, sample_setpoint\<lparr> e_unit := Some ''K'' \<rparr>])) = {''value'', ''K''}"
  using unit_groups_partition[of "[sample_setpoint, sample_setpoint\<lparr> e_unit := Some ''K'' \<rparr>]"]
  by (simp add: unit_of_def truthy_text_def sample_setpoint_def)

definition control_env :: env where
  "control_env = sample_env\<lparr> en_store := control_store \<rparr>"

definition waiting_view :: history_view where
  "waiting_view = load_custom control_env (init_history [''t''])"

definition waiting_request :: history_request where
  "waiting_request = window_request [''t''] (Fin 800) (now_seconds control_env) (hv_window (init_history []))"

lemma waiting_view: "history_live waiting_view" "hv_custom_loads waiting_view = [(0, 0, [''value''], waiting_request)]"
proof -
  have "charts_accounted (init_history [''t''])" by (simp add: charts_accounted_def init_history_def)
  then show "history_live waiting_view"
    by (simp add: history_live_def waiting_view_def load_custom_accounted) (simp add: init_history_def no_intervals_def)
  have "e_id sample_setpoint = ''t''" by (simp add: sample_setpoint_def)
  then show "hv_custom_loads waiting_view = [(0, 0, [''value''], waiting_request)]"
    by (simp add: waiting_view_def waiting_request_def load_custom_def Let_def init_history_def chosen_sample groups_sample control_env_def)
qed

theorem late_answer_leaks_charts_witness:
  "length (hv_custom_charts (history_step (unmount_history waiting_view) (Hi_custom_answer 0 True))) = length [''value''] \<and>
   set (hv_custom_charts (history_step (unmount_history waiting_view) (Hi_custom_answer 0 True))) \<inter>
   set (hv_destroyed (history_step (unmount_history waiting_view) (Hi_custom_answer 0 True))) = {}"
  by (rule late_answer_leaks_charts[OF waiting_view(1) _ refl]) (simp add: waiting_view(2))

text \<open>
  Two requests for the custom charts that overlap are both drawn: each start clears the page, but both answers
  append a chart per unit, so every unit is shown twice.
\<close>

theorem overlapping_custom_loads:
  assumes "chosen (en_store en) (hv_custom v) \<noteq> []" "\<forall>(j, x)\<in>set (hv_custom_loads v). j < hv_requests v" "k = hv_requests v"
    and "v' = run history_step (load_custom en (load_custom en v)) [Hi_custom_answer k True, Hi_custom_answer (Suc k) True]"
  shows "map snd (hv_boxes v') = (let us = map fst (unit_groups (chosen (en_store en) (hv_custom v))) in us @ us)"
proof -
  let ?us = "map fst (unit_groups (chosen (en_store en) (hv_custom v)))"
  have fresh: "map_of (hv_custom_loads v) j = None" if "k \<le> j" for j
    using assms(2,3) that by (fastforce simp: map_of_eq_None_iff)
  have keep: "filter (\<lambda>(j, _). j \<noteq> k) (hv_custom_loads v) = hv_custom_loads v"
    using assms(2,3) by (intro filter_True) auto
  show ?thesis
    unfolding assms(4) using assms(1) fresh[of k] fresh[of "Suc k"] keep
    by (simp add: load_custom_def custom_answer_def Let_def assms(3)[symmetric] map_of_append map_add_def)
qed

theorem overlapping_custom_loads_witness:
  "map snd (hv_boxes (run history_step (load_custom control_env (load_custom control_env (init_history [''t''])))
     [Hi_custom_answer 0 True, Hi_custom_answer (Suc 0) True])) =
   (let us = map fst (unit_groups (chosen control_store (hv_custom (init_history [''t''])))) in us @ us)"
  using overlapping_custom_loads[OF _ _ refl refl, of control_env "init_history [''t'']"]
  by (simp add: init_history_def chosen_sample control_env_def)

end
