(* ===== verification/Settings.thy ===== *)
theory Settings
  imports Controls Views
begin

text \<open>
  \<open>views/settings.js\<close>: the field settings (FSV) by group, the gate of the edit mode, and the page with
  the values that state messages patch in place. \<open>collate a b\<close> stands for
  \<open>a.localeCompare(b, undefined, { numeric: true }) <= 0\<close>. White space between tags is left out of the texts.
\<close>

section \<open>Codes and groups\<close>

definition GROUPS :: "(string \<times> string) list" where
  "GROUPS = [(''10'', ''Temperature limits''), (''20'', ''Water law & heating''), (''30'', ''Domestic hot water''),
     (''40'', ''Heating system''), (''50'', ''Other functions''), (''60'', ''Miscellaneous'')]"

text \<open>\<open>(name.match(/FSV\s*(\d+)/) || [])[1] || ""\<close>: the digits of the leftmost match.\<close>

definition digits_after :: "string \<Rightarrow> string" where
  "digits_after s = takeWhile is_digit (dropWhile is_space (drop 3 s))"

fun fsv_code :: "string \<Rightarrow> string" where
  "fsv_code [] = []"
| "fsv_code (c # s) =
     (if starts_with ''FSV'' (c # s) \<and> digits_after (c # s) \<noteq> [] then digits_after (c # s) else fsv_code s)"

text \<open>\<open>name.replace(/^FSV\s*\d+\s*/, "")\<close>.\<close>

definition fsv_label :: "string \<Rightarrow> string" where
  "fsv_label s =
     (if starts_with ''FSV'' s \<and> digits_after s \<noteq> []
      then dropWhile is_space (dropWhile is_digit (dropWhile is_space (drop 3 s))) else s)"

definition group_key :: "entity \<Rightarrow> string" where
  "group_key e = (let k = take 2 (fsv_code (e_name e)) in if map_get GROUPS k = None then ''60'' else k)"

definition fsv_entities :: "(string \<Rightarrow> string \<Rightarrow> bool) \<Rightarrow> store \<Rightarrow> string \<Rightarrow> entity list" where
  "fsv_entities collate st query =
     sort_by (\<lambda>a b. collate (e_name a) (e_name b))
       (filter (\<lambda>e. query = [] \<or> str_includes query (lower (e_name e)))
         (filter (\<lambda>e. e_category e = ''fsv'') (all_entities st)))"

text \<open>The groups with their items pushed one by one; empty groups are left out.\<close>

definition push_item :: "entity \<Rightarrow> (string, string \<times> entity list) jsmap \<Rightarrow> (string, string \<times> entity list) jsmap" where
  "push_item e m = (case map_get m (group_key e) of Some (l, es) \<Rightarrow> map_set (group_key e) (l, es @ [e]) m | None \<Rightarrow> m)"

definition fsv_groups :: "entity list \<Rightarrow> (string \<times> entity list) list" where
  "fsv_groups es = filter (\<lambda>(l, xs). xs \<noteq> []) (map_values (fold push_item es (map (\<lambda>(k, l). (k, (l, []))) GROUPS)))"

section \<open>Values\<close>

definition editable :: "bool \<Rightarrow> store \<Rightarrow> entity \<Rightarrow> bool" where
  "editable editing st e = (editing \<and> e_writable e \<and> s_read_only (st_status st) \<noteq> Some True)"

definition truthy_str :: "string option \<Rightarrow> bool" where
  "truthy_str t = (t \<noteq> None \<and> t \<noteq> Some [])"

definition value_html :: "locale_format \<Rightarrow> bool \<Rightarrow> store \<Rightarrow> (string \<Rightarrow> jsnum option) \<Rightarrow> entity \<Rightarrow> string" where
  \<open>value_html loc editing st pending e =
     (if editable editing st e then widget loc st pending (Some e)
      else entity_value loc (Some e) @
           (if truthy_str (e_unit e) \<and> e_kind e = Numeric then '' <span class="faint">'' @ esc (e_unit e) @ ''</span>'' else []))\<close>

text \<open>Whether the markup holds an element of the class "pending": only a stepper with a pending value does.\<close>

definition value_pending :: "bool \<Rightarrow> store \<Rightarrow> (string \<Rightarrow> jsnum option) \<Rightarrow> entity \<Rightarrow> bool" where
  "value_pending editing st pending e = (editable editing st e \<and> e_kind e = Numeric \<and> pending (e_id e) \<noteq> None)"

definition null_text :: "jsnum option \<Rightarrow> string" where
  "null_text v = (case v of None \<Rightarrow> ''null'' | Some x \<Rightarrow> number_text x)"

definition fsv_range :: "entity \<Rightarrow> string" where
  \<open>fsv_range e =
     (if e_min e \<noteq> None then
        ''<div class="rng">Range '' @ null_text (e_min e) @ '' '' @ endash @ '' '' @ null_text (e_max e) @
        (if truthy_str (e_unit e) then '' '' @ esc (e_unit e) else []) @
        (if opt_truthy (e_step e) then '' '' @ middot @ '' step '' @ null_text (e_step e) else []) @ ''</div>''
      else if e_options e \<noteq> [] then
        ''<div class="rng">'' @ join ('' '' @ middot @ '' '') (map (\<lambda>opt. esc (Some opt)) (e_options e)) @ ''</div>''
      else [])\<close>

section \<open>The page\<close>

record fsv_item =
  fi_id :: string
  fi_code :: string
  fi_name :: string
  fi_range :: string
  fi_value :: string
  fi_pending :: bool

definition new_item :: "locale_format \<Rightarrow> bool \<Rightarrow> store \<Rightarrow> (string \<Rightarrow> jsnum option) \<Rightarrow> entity \<Rightarrow> fsv_item" where
  "new_item loc editing st pending e =
     \<lparr> fi_id = e_id e, fi_code = fsv_code (e_name e), fi_name = fsv_label (e_name e), fi_range = fsv_range e,
       fi_value = value_html loc editing st pending e, fi_pending = value_pending editing st pending e \<rparr>"

definition item_html :: "fsv_item \<Rightarrow> string" where
  \<open>item_html it =
     ''<div class="fsv-item" data-entity="'' @ esc (Some (fi_id it)) @ ''" style="cursor:pointer"><div style="min-width:0"><div><span class="code">'' @
     esc (Some (fi_code it)) @ ''</span> <span class="nm">'' @ esc (Some (fi_name it)) @ ''</span></div>'' @ fi_range it @
     ''</div><div class="val">'' @ fi_value it @ ''</div></div>''\<close>

definition edit_notice :: string where
  \<open>edit_notice =
     ''<div class="notice"><svg viewBox="0 0 24 24"><path d="M12 2L1 21h22L12 2zm0 6l7.5 13h-15L12 8zm-1 3v4h2v-4h-2zm0 6v2h2v-2h-2z"/></svg>'' @
     ''<div><b style="color:var(--text)">Changing field settings can damage your installation.</b> Only change values you fully understand.'' @
     '' Writes are only forwarded to the heat pump when <code>disable_write_send</code> is <code>false</code> in the bridge configuration.</div></div>''\<close>

text \<open>\<open>sv_page\<close> is \<open>None\<close> when the page says that there is nothing to show.\<close>

record settings_view =
  sv_query :: string
  sv_editing :: bool
  sv_page :: "(string \<times> fsv_item list) list option"

definition init_settings :: settings_view where
  "init_settings = \<lparr> sv_query = [], sv_editing = False, sv_page = None \<rparr>"

definition render_settings ::
  "locale_format \<Rightarrow> (string \<Rightarrow> string \<Rightarrow> bool) \<Rightarrow> store \<Rightarrow> (string \<Rightarrow> jsnum option) \<Rightarrow> settings_view \<Rightarrow> settings_view" where
  "render_settings loc collate st pending v =
     (let es = fsv_entities collate st (sv_query v)
      in v\<lparr> sv_page := (if es = [] then None
                       else Some (map (\<lambda>(l, xs). (l, map (new_item loc (sv_editing v) st pending) xs)) (fsv_groups es))) \<rparr>)"

definition settings_html :: "settings_view \<Rightarrow> string" where
  \<open>settings_html v =
     (if sv_editing v then edit_notice else []) @
     (case sv_page v of
        None \<Rightarrow> ''<div class="card empty-state"><strong>No field settings</strong>'' @
          (if sv_query v \<noteq> [] then ''Nothing matches your search.'' else ''No FSV entities were discovered.'') @ ''</div>''
      | Some gs \<Rightarrow> ''<div class="fsv-groups">'' @
          concat (map (\<lambda>(l, items). ''<section class="card"><div class="card-head"><h2>'' @ esc (Some l) @ ''</h2><span class="sub">'' @
            number_text (Fin (of_nat (length items))) @ ''</span></div>'' @ concat (map item_html items) @ ''</section>'') gs) @ ''</div>'')\<close>

text \<open>A state message: the slot of the entity (identifiers are distinct) is redrawn unless it holds a pending element.\<close>

definition patch_item :: "string \<Rightarrow> bool \<Rightarrow> string \<Rightarrow> fsv_item \<Rightarrow> fsv_item" where
  "patch_item html pend i it =
     (if fi_id it = i \<and> \<not> fi_pending it then it\<lparr> fi_value := html, fi_pending := pend \<rparr> else it)"

definition patch_setting ::
  "locale_format \<Rightarrow> store \<Rightarrow> (string \<Rightarrow> jsnum option) \<Rightarrow> entity \<Rightarrow> settings_view \<Rightarrow> settings_view" where
  "patch_setting loc st pending e v =
     (if e_category e \<noteq> ''fsv'' then v
      else v\<lparr> sv_page := map_option (map (\<lambda>(l, items).
             (l, map (\<lambda>it. patch_item (value_html loc (sv_editing v) st pending e) (value_pending (sv_editing v) st pending e) (e_id e) it) items)))
             (sv_page v) \<rparr>)"

definition settings_bar :: "settings_view \<Rightarrow> string" where
  \<open>settings_bar v =
     ''<label class="btn" style="cursor:pointer"><input type="checkbox" id="s-edit" '' @ (if sv_editing v then ''checked'' else []) @
     '' style="margin:0"> Edit mode</label><input class="search" id="s-search" placeholder="Search FSV'' @ [CHR 0xE2, CHR 0x80, CHR 0xA6] @
     ''" value="'' @ esc (Some (sv_query v)) @ ''">''\<close>

text \<open>
  The events of the view with the live state and the pending values they read. A state message first
  runs \<open>confirmState\<close> on the listeners' state.
\<close>

datatype settings_event =
    Sv_query string store
  | Sv_edit bool store
  | Sv_render store
  | Sv_state store entity

fun settings_step ::
  "locale_format \<Rightarrow> (string \<Rightarrow> string \<Rightarrow> bool) \<Rightarrow> settings_view \<times> ctl \<Rightarrow> settings_event \<Rightarrow> settings_view \<times> ctl" where
  "settings_step loc collate (v, c) (Sv_query q st) =
     (render_settings loc collate st (pending_value c) (v\<lparr> sv_query := lower q \<rparr>), c)"
| "settings_step loc collate (v, c) (Sv_edit b st) =
     (render_settings loc collate st (pending_value c) (v\<lparr> sv_editing := b \<rparr>), c)"
| "settings_step loc collate (v, c) (Sv_render st) = (render_settings loc collate st (pending_value c) v, c)"
| "settings_step loc collate (v, c) (Sv_state st e) =
     (let c = confirm_state e c in (patch_setting loc st (pending_value c) e v, c))"

section \<open>Lemmas on the groups\<close>

lemma group_key_known: "map_get GROUPS (group_key e) \<noteq> None"
  by (simp add: group_key_def Let_def GROUPS_def)

abbreviation start_groups :: "(string, string \<times> entity list) jsmap" where
  "start_groups \<equiv> map (\<lambda>(k, l). (k, (l, []))) GROUPS"

lemma push_items:
  "fold push_item es start_groups = map (\<lambda>(k, l). (k, (l, filter (\<lambda>e. group_key e = k) es))) GROUPS"
proof (induction es rule: rev_induct)
  case (snoc e es)
  have d: "distinct (map fst GROUPS)" by (simp add: GROUPS_def)
  have push: "push_item e (map (\<lambda>(k, l). (k, (l, f k))) gs) = map (\<lambda>(k, l). (k, (l, f k @ (if group_key e = k then [e] else [])))) gs"
    if "distinct (map fst gs)" for f :: "string \<Rightarrow> entity list" and gs :: "(string \<times> string) list"
  proof (cases "group_key e \<in> set (map fst gs)")
    case True
    then obtain l where l: "(group_key e, l) \<in> set gs" by auto
    have get: "map_get (map (\<lambda>(k, l). (k, (l, f k))) gs) (group_key e) = Some (l, f (group_key e))"
      using l that by (intro map_of_is_SomeI) (auto simp: comp_def case_prod_beta image_def intro!: bexI[OF _ l])
    have "map_set (group_key e) (l, f (group_key e) @ [e]) (map (\<lambda>(k, l). (k, (l, f k))) gs) =
        map (\<lambda>(k, l). (k, (l, f k @ (if group_key e = k then [e] else [])))) gs"
      using l that by (induction gs) (auto simp: image_iff)
    then show ?thesis by (simp add: push_item_def get)
  next
    case False
    then have "map_get (map (\<lambda>(k, l). (k, (l, f k))) gs) (group_key e) = None" by (induction gs) auto
    moreover have "group_key e \<noteq> k" if "(k, l) \<in> set gs" for k l using False that by (metis fst_conv image_eqI list.set_map)
    ultimately show ?thesis by (auto simp: push_item_def)
  qed
  show ?case by (simp add: snoc push[OF d]) (auto intro!: map_cong)
qed simp

lemma concat_groups_mset:
  assumes "\<forall>e\<in>set es. group_key e \<in> set ks" "distinct ks"
  shows "mset (concat (map (\<lambda>k. filter (\<lambda>e. group_key e = k) es) ks)) = mset es"
  using assms
proof (induction ks arbitrary: es)
  case (Cons k ks)
  let ?r = "filter (\<lambda>e. group_key e \<noteq> k) es"
  have "mset (concat (map (\<lambda>k. filter (\<lambda>e. group_key e = k) ?r) ks)) = mset ?r"
    using Cons.prems by (intro Cons.IH) auto
  moreover have "filter (\<lambda>e. group_key e = j) ?r = filter (\<lambda>e. group_key e = j) es" if "j \<in> set ks" for j
    using that Cons.prems(2) by (auto intro!: filter_cong)
  ultimately have "mset (concat (map (\<lambda>k. filter (\<lambda>e. group_key e = k) es) ks)) = mset ?r" by (simp cong: map_cong)
  then show ?case by (simp add: multiset_partition[symmetric])
qed simp

lemma fsv_groups_eq:
  "fsv_groups es = filter (\<lambda>(l, xs). xs \<noteq> []) (map (\<lambda>(k, l). (l, filter (\<lambda>e. group_key e = k) es)) GROUPS)"
  unfolding fsv_groups_def push_items by (intro arg_cong[where f = "filter _"]) auto

lemma concat_nonempty: "concat (map snd (filter (\<lambda>(l, xs). xs \<noteq> []) gs)) = concat (map snd gs)"
  by (induction gs) auto

section \<open>Properties\<close>

lemma fsv_code_match:
  assumes "list_all is_space ws" "ds \<noteq> []" "list_all is_digit ds" "rest = [] \<or> \<not> is_digit (hd rest)"
  shows "fsv_code (''FSV'' @ ws @ ds @ rest) = ds"
proof -
  have sp: "\<not> is_space c" if "is_digit c" for c using that by (auto simp: is_space_def is_digit_def Let_def)
  have "dropWhile is_space (ws @ ds @ rest) = dropWhile is_space (ds @ rest)"
    using assms(1) by (intro dropWhile_append2) (simp add: list_all_iff)
  also have "\<dots> = ds @ rest" using assms(2,3) sp by (cases ds) auto
  finally have "digits_after (''FSV'' @ ws @ ds @ rest) = takeWhile is_digit (ds @ rest)" by (simp add: digits_after_def)
  also have "\<dots> = ds @ takeWhile is_digit rest" using assms(3) by (intro takeWhile_append2) (simp add: list_all_iff)
  also have "takeWhile is_digit rest = []" using assms(4) by (cases rest) auto
  finally show ?thesis using assms(2) by (simp add: starts_with_def)
qed

lemma fsv_code_skip: "CHR ''F'' \<notin> set pre \<Longrightarrow> fsv_code (pre @ s) = fsv_code s"
  by (induction pre) (auto simp: starts_with_def)

text \<open>
  C19: the field settings page loses nothing: the groups on it are those of the manual in their order without the
  empty ones, an entity is in the group whose number is the first two digits of its code, or in the last one if there
  is no such group, the entities of a group keep their sorted order, and together the groups hold every FSV entity that
  matches the search exactly once. The code of an entity is the number after "FSV" in its name.
\<close>

theorem settings_groups_complete:
  "let es = fsv_entities collate st query in
     mset (concat (map snd (fsv_groups es))) =
       mset (filter (\<lambda>e. e_category e = ''fsv'' \<and> (query = [] \<or> str_includes query (lower (e_name e)))) (all_entities st)) \<and>
     fsv_groups es = filter (\<lambda>(l, xs). xs \<noteq> []) (map (\<lambda>(k, l). (l, filter (\<lambda>e.
       (let n = take 2 (fsv_code (e_name e)) in if n \<in> {''10'', ''20'', ''30'', ''40'', ''50'', ''60''} then n else ''60'') = k) es)) GROUPS) \<and>
     (\<forall>pre ws ds rest. CHR ''F'' \<notin> set pre \<longrightarrow> list_all is_space ws \<longrightarrow> ds \<noteq> [] \<longrightarrow> list_all is_digit ds \<longrightarrow>
        rest = [] \<or> \<not> is_digit (hd rest) \<longrightarrow> fsv_code (pre @ ''FSV'' @ ws @ ds @ rest) = ds)"
proof -
  define es where "es = fsv_entities collate st query"
  have "\<forall>e\<in>set es. group_key e \<in> set (map fst GROUPS)"
    using group_key_known by (simp add: map_of_eq_None_iff)
  moreover have "distinct (map fst GROUPS)" by (simp add: GROUPS_def)
  ultimately have "mset (concat (map (\<lambda>k. filter (\<lambda>e. group_key e = k) es) (map fst GROUPS))) = mset es"
    by (rule concat_groups_mset)
  moreover have "map snd (map (\<lambda>(k, l). (l, filter (\<lambda>e. group_key e = k) es)) GROUPS) =
      map (\<lambda>k. filter (\<lambda>e. group_key e = k) es) (map fst GROUPS)" by (simp add: comp_def case_prod_beta)
  ultimately have "mset (concat (map snd (fsv_groups es))) = mset es"
    by (simp only: fsv_groups_eq concat_nonempty)
  moreover have "mset es = mset (filter (\<lambda>e. e_category e = ''fsv'' \<and> (query = [] \<or> str_includes query (lower (e_name e)))) (all_entities st))"
    by (simp add: es_def fsv_entities_def filter_filter_mset conj_commute)
  moreover have "group_key e = (let n = take 2 (fsv_code (e_name e)) in if n \<in> {''10'', ''20'', ''30'', ''40'', ''50'', ''60''} then n else ''60'')" for e
    by (simp add: group_key_def Let_def GROUPS_def)
  ultimately show ?thesis
    using fsv_groups_eq[of es] fsv_code_match fsv_code_skip by (simp add: es_def)
qed

text \<open>
  Outside the edit mode, for entities that cannot be written, and on a read-only server, a setting is shown
  without any control: its markup holds at most the one span of its unit.
\<close>

theorem settings_locked:
  assumes "\<not> editing \<or> \<not> e_writable e \<or> s_read_only (st_status st) = Some True" "\<And>x d. markup_free (loc x d)"
  shows \<open>skeleton (value_html loc editing st pending e) \<in> {[], ''<""><>''}\<close>
proof -
  have "skeleton (entity_value loc (Some e)) = []" using assms(2) by (simp add: markup_free_entity_value)
  moreover have "\<not> editable editing st e" using assms(1) by (auto simp: editable_def)
  ultimately show ?thesis by (simp add: value_html_def skeleton_eval)
qed

theorem settings_locked_witness:
  \<open>skeleton (value_html plain_format True init_store (\<lambda>_. None)
     (sample_setpoint\<lparr> e_writable := False, e_unit := Some ''<button data-ctl="t">'' \<rparr>)) \<in> {[], ''<""><>''}\<close>
  by (rule settings_locked) (simp_all add: plain_format_def)

text \<open>The items on the page.\<close>

definition page_items :: "settings_view \<Rightarrow> fsv_item list" where
  "page_items v = (case sv_page v of None \<Rightarrow> [] | Some gs \<Rightarrow> concat (map snd gs))"

lemma patch_keeps_pending: "it \<in> set (page_items v) \<Longrightarrow> fi_pending it \<Longrightarrow> it \<in> set (page_items (patch_setting loc st pending e v))"
proof (cases "sv_page v")
  case (Some gs)
  assume a: "it \<in> set (page_items v)" "fi_pending it"
  then obtain l items where g: "(l, items) \<in> set gs" "it \<in> set items" by (auto simp: page_items_def Some)
  let ?f = "\<lambda>(l, items). (l, map (patch_item (value_html loc (sv_editing v) st pending e) (value_pending (sv_editing v) st pending e) (e_id e)) items)"
  have member: "x \<in> set (concat (map snd hs))" if "x \<in> set ys" "(l, ys) \<in> set hs" for x and ys :: "fsv_item list" and hs :: "(string \<times> fsv_item list) list"
    using that by force
  have "patch_item html b (e_id e) it = it" for html b using a(2) by (simp add: patch_item_def)
  then have "it \<in> set (snd (?f (l, items)))" using g(2) by (simp add: rev_image_eqI)
  moreover have "(l, snd (?f (l, items))) \<in> set (map ?f gs)" using imageI[OF g(1), of ?f] by simp
  ultimately have "it \<in> set (concat (map snd (map ?f gs)))" by (rule member)
  then show ?thesis using a(1) by (simp add: patch_setting_def page_items_def Some)
qed (simp add: page_items_def)

lemma confirm_keeps_gone: "pending_value c i = None \<Longrightarrow> pending_value (confirm_state e c) i = None"
  by (auto simp: confirm_state_def pending_value_def js_map split: option.split)

lemma states_keep_pending:
  "it \<in> set (page_items v) \<Longrightarrow> fi_pending it \<Longrightarrow> pending_value c i = None \<Longrightarrow>
     it \<in> set (page_items (fst (run (settings_step loc collate) (v, c) (map (\<lambda>(st, e). Sv_state st e) msgs)))) \<and>
     pending_value (snd (run (settings_step loc collate) (v, c) (map (\<lambda>(st, e). Sv_state st e) msgs))) i = None"
proof (induction msgs arbitrary: v c)
  case (Cons m msgs)
  obtain st e where m: "m = (st, e)" by (cases m)
  show ?case
    using Cons.IH[OF patch_keeps_pending[OF Cons.prems(1,2)] Cons.prems(2) confirm_keeps_gone[OF Cons.prems(3)]]
    by (simp add: m Let_def)
qed simp

text \<open>
  C36: a set point confirmed by the heat pump stays displayed as pending: the state message ends the wait of the
  listeners, but the slot that shows the pending value is skipped because it still holds the pending element, and so
  is every later state message for it, whatever value it brings.
\<close>

theorem confirmed_setting_stays_pending:
  assumes "it \<in> set (page_items v)" "fi_pending it" "fi_id it = e_id e"
    and "pending_value c (e_id e) = Some p" "e_value e = Some x" "jabs (x - p) < fl (1 / 1000000)"
    and "(v', c') = run (settings_step loc collate) (v, c) (map (\<lambda>(st, e). Sv_state st e) ((st, e) # msgs))"
  shows "pending_value c' (e_id e) = None \<and> it \<in> set (page_items v')"
proof -
  have "confirm_state e c = c\<lparr> k_pending := map_delete (e_id e) (k_pending c) \<rparr>"
    using assms(4-6) by (simp add: confirm_state_def)
  then have "pending_value (confirm_state e c) (e_id e) = None" by (simp add: pending_value_def js_map)
  from states_keep_pending[OF patch_keeps_pending[OF assms(1,2)] assms(2) this]
  show ?thesis using assms(7) by (simp add: Let_def) (metis fst_conv snd_conv)
qed

definition sample_fsv :: entity where
  "sample_fsv = sample_setpoint\<lparr> e_category := ''fsv'', e_name := ''FSV 2021 X'' \<rparr>"

definition fsv_store :: store where
  "fsv_store = set_entities [sample_fsv] init_store"

text \<open>The page after a click on "+" in the edit mode (the value 21 is pending), and the listeners' state.\<close>

definition pending_page :: settings_view where
  "pending_page = render_settings plain_format (\<lambda>_ _. True) fsv_store (\<lambda>_. Some (Fin 21)) (init_settings\<lparr> sv_editing := True \<rparr>)"

definition pending_ctl :: ctl where
  "pending_ctl = init_ctl\<lparr> k_pending := [(''t'', (Fin 21, 0))] \<rparr>"

lemma pending_page_items: "page_items pending_page = [new_item plain_format True fsv_store (\<lambda>_. Some (Fin 21)) sample_fsv]"
proof -
  have "all_entities fsv_store = [sample_fsv]" by (simp add: fsv_store_def set_entities_def init_store_def all_entities_def)
  then have "fsv_entities (\<lambda>_ _. True) fsv_store [] = [sample_fsv]" by (simp add: fsv_entities_def sample_fsv_def)
  moreover have "group_key sample_fsv = ''20''"
    by (simp add: group_key_def sample_fsv_def starts_with_def digits_after_def is_space_def is_digit_def GROUPS_def)
  ultimately show ?thesis
    by (simp add: page_items_def pending_page_def render_settings_def Let_def fsv_groups_eq init_settings_def GROUPS_def)
qed

theorem settings_groups_complete_witness:
  "mset (concat (map snd (fsv_groups (fsv_entities (\<lambda>_ _. True) fsv_store [])))) = {#sample_fsv#} \<and>
   fsv_code (''FSV'' @ '' '' @ ''2021'' @ '' X'') = ''2021''"
proof -
  have all: "all_entities fsv_store = [sample_fsv]" by (simp add: fsv_store_def set_entities_def init_store_def all_entities_def)
  have cat: "e_category sample_fsv = ''fsv''" by (simp add: sample_fsv_def)
  note P = settings_groups_complete[of "\<lambda>_ _. True" fsv_store "[]", unfolded Let_def]
  have "fsv_code ([] @ ''FSV'' @ '' '' @ ''2021'' @ '' X'') = ''2021''"
    using conjunct2[OF conjunct2[OF P], rule_format, of "[]" "'' ''" "''2021''" "'' X''"]
    by (simp add: is_space_def is_digit_def)
  then show ?thesis using conjunct1[OF P] cat by (simp add: all)
qed

theorem confirmed_setting_stays_pending_witness:
  "pending_value (snd (run (settings_step plain_format (\<lambda>_ _. True)) (pending_page, pending_ctl)
      (map (\<lambda>(st, e). Sv_state st e) ((fsv_store, sample_fsv\<lparr> e_value := Some (Fin 21) \<rparr>) # [(fsv_store, sample_fsv)])))) ''t'' = None \<and>
   new_item plain_format True fsv_store (\<lambda>_. Some (Fin 21)) sample_fsv \<in> set (page_items (fst (run (settings_step plain_format (\<lambda>_ _. True)) (pending_page, pending_ctl)
      (map (\<lambda>(st, e). Sv_state st e) ((fsv_store, sample_fsv\<lparr> e_value := Some (Fin 21) \<rparr>) # [(fsv_store, sample_fsv)])))))"
proof -
  have id: "e_id (sample_fsv\<lparr> e_value := Some (Fin 21) \<rparr>) = ''t''" by (simp add: sample_fsv_def sample_setpoint_def)
  have small: "jabs (Fin 21 - Fin 21) < fl (1 / 1000000)" using rnd_close[of "1 / 1000000"] by (simp add: fl_small)
  show ?thesis
    by (rule confirmed_setting_stays_pending[where e = "sample_fsv\<lparr> e_value := Some (Fin 21) \<rparr>", unfolded id, OF _ _ _ _ _ small prod.collapse])
      (simp_all add: pending_page_items new_item_def value_pending_def editable_def sample_fsv_def sample_setpoint_def pending_ctl_def
        pending_value_def init_ctl_def fsv_store_def set_entities_def init_store_def)
qed

end
