(* ===== verification/Entities.thy ===== *)
theory Entities
  imports Store Views
begin

text \<open>
  \<open>views/entities.js\<close>: the table of all entities with its filter chips and search, and the state of the
  view (filter, search, animation frame). \<open>collate\<close> and \<open>collate_num\<close> stand for \<open>localeCompare <= 0\<close>
  without and with the numeric option. White space between tags is left out of the texts.
\<close>

section \<open>Filter, search and order\<close>

definition FILTERS :: "(string \<times> string) list" where
  "FILTERS = [(''all'', ''All''), (''sensor'', ''Sensors''), (''control'', ''Controls''), (''fsv'', ''FSV'')]"

definition count_category :: "entity \<Rightarrow> (string, nat) jsmap \<Rightarrow> (string, nat) jsmap" where
  "count_category e m = map_set (e_category e) (nullish (map_get m (e_category e)) 0 + 1) m"

definition category_counts :: "entity list \<Rightarrow> (string, nat) jsmap" where
  "category_counts es = fold count_category es [(''all'', length es)]"

definition entity_shown :: "string \<Rightarrow> string \<Rightarrow> entity \<Rightarrow> bool" where
  "entity_shown filt query e =
     ((filt = ''all'' \<or> e_category e = filt) \<and>
      (query = [] \<or> str_includes query (lower (e_name e)) \<or> str_includes query (e_id e)))"

text \<open>\<open>a.category.localeCompare(b.category) || a.name.localeCompare(b.name, ...)\<close> is at most 0.\<close>

definition entity_before :: "(string \<Rightarrow> string \<Rightarrow> bool) \<Rightarrow> (string \<Rightarrow> string \<Rightarrow> bool) \<Rightarrow> entity \<Rightarrow> entity \<Rightarrow> bool" where
  "entity_before collate collate_num a b =
     (if collate (e_category a) (e_category b) \<and> collate (e_category b) (e_category a)
      then collate_num (e_name a) (e_name b) else collate (e_category a) (e_category b))"

definition entity_list ::
  "(string \<Rightarrow> string \<Rightarrow> bool) \<Rightarrow> (string \<Rightarrow> string \<Rightarrow> bool) \<Rightarrow> store \<Rightarrow> string \<Rightarrow> string \<Rightarrow> entity list" where
  "entity_list collate collate_num st filt query =
     sort_by (entity_before collate collate_num) (filter (entity_shown filt query) (all_entities st))"

section \<open>Markup\<close>

definition chip_html :: "string \<Rightarrow> (string, nat) jsmap \<Rightarrow> string \<times> string \<Rightarrow> string" where
  \<open>chip_html filt counts kl =
     ''<button class="chip '' @ (if filt = fst kl then ''active'' else []) @ ''" data-f="'' @ fst kl @ ''">'' @ snd kl @
     ''<span class="count">'' @ number_text (Fin (of_nat (nullish (map_get counts (fst kl)) 0))) @ ''</span></button>''\<close>

definition filters_html :: "store \<Rightarrow> string \<Rightarrow> string" where
  "filters_html st filt = concat (map (chip_html filt (category_counts (all_entities st))) FILTERS)"

definition entity_row :: "locale_format \<Rightarrow> jsnum \<Rightarrow> entity \<Rightarrow> string" where
  \<open>entity_row loc now e =
     ''<tr class="clickable" data-entity="'' @ esc (Some (e_id e)) @ ''"><td><div style="font-weight:550">'' @ esc (Some (e_name e)) @
     ''</div><div class="mono">'' @ esc (Some (e_id e)) @ ''</div></td><td class="hide-sm"><span class="badge '' @ e_category e @ ''">'' @
     esc (Some (e_platform e)) @ ''</span></td><td class="num"><b>'' @ entity_value loc (Some e) @ ''</b> <span class="faint">'' @
     (if e_kind e = Numeric then esc (e_unit e) else []) @ ''</span></td><td class="hide-sm faint">'' @ ago now (e_updated e) @ ''</td></tr>''\<close>

definition entities_table :: "locale_format \<Rightarrow> jsnum \<Rightarrow> entity list \<Rightarrow> string" where
  \<open>entities_table loc now es =
     (if es \<noteq> [] then
        ''<table><thead><tr><th>Name</th><th class="hide-sm">Type</th><th class="num">Value</th><th class="hide-sm">Updated</th></tr></thead><tbody>'' @
        concat (map (entity_row loc now) es) @ ''</tbody></table>''
      else ''<div class="empty-state"><strong>Nothing found</strong>Try a different search or filter.</div>'')\<close>

section \<open>The view\<close>

record entities_view =
  nv_filter :: string
  nv_query :: string
  nv_raf :: nat
  nv_frames :: "nat list"
  nv_next_frame :: nat
  nv_rows :: "entity list"

definition init_entities :: entities_view where
  "init_entities = \<lparr> nv_filter = ''all'', nv_query = [], nv_raf = 0, nv_frames = [], nv_next_frame = 1, nv_rows = [] \<rparr>"

type_synonym collation = "(string \<Rightarrow> string \<Rightarrow> bool) \<times> (string \<Rightarrow> string \<Rightarrow> bool)"

definition render_entities :: "collation \<Rightarrow> store \<Rightarrow> entities_view \<Rightarrow> entities_view" where
  "render_entities col st v = v\<lparr> nv_rows := entity_list (fst col) (snd col) st (nv_filter v) (nv_query v) \<rparr>"

definition mount_entities :: "collation \<Rightarrow> store \<Rightarrow> entities_view \<Rightarrow> entities_view" where
  "mount_entities col st v = render_entities col st v"

definition drop_frame :: "nat \<Rightarrow> entities_view \<Rightarrow> entities_view" where
  "drop_frame f v = v\<lparr> nv_frames := removeAll f (nv_frames v) \<rparr>"

definition update_entities :: "entities_view \<Rightarrow> entities_view" where
  "update_entities v =
     (let v = drop_frame (nv_raf v) v
      in v\<lparr> nv_raf := nv_next_frame v, nv_frames := nv_frames v @ [nv_next_frame v], nv_next_frame := Suc (nv_next_frame v) \<rparr>)"

definition unmount_entities :: "entities_view \<Rightarrow> entities_view" where
  "unmount_entities v = drop_frame (nv_raf v) v"

datatype entities_event =
    Nv_search string store
  | Nv_filter string store
  | Nv_update
  | Nv_frame nat store

fun entities_step :: "collation \<Rightarrow> entities_view \<Rightarrow> entities_event \<Rightarrow> entities_view" where
  "entities_step col v (Nv_search q st) = render_entities col st (v\<lparr> nv_query := lower q \<rparr>)"
| "entities_step col v (Nv_filter f st) = render_entities col st (v\<lparr> nv_filter := f \<rparr>)"
| "entities_step col v Nv_update = update_entities v"
| "entities_step col v (Nv_frame f st) =
     (if f \<in> set (nv_frames v) then drop_frame f (render_entities col st v) else v)"

section \<open>The life of the view\<close>

definition entities_live :: "entities_view \<Rightarrow> bool" where
  "entities_live v \<longleftrightarrow> set (nv_frames v) \<subseteq> {nv_raf v}"

definition entities_idle :: "entities_view \<Rightarrow> bool" where
  "entities_idle v \<longleftrightarrow> nv_frames v = []"

interpretation entities_page: mounted_view "mount_entities col" "entities_step col" unmount_entities entities_idle entities_live
proof unfold_locales
  show "entities_live (mount_entities col st v)" if "entities_idle v" for st v
    using that by (simp add: entities_idle_def entities_live_def mount_entities_def render_entities_def)
  show "entities_live (entities_step col v e)" if "entities_live v" for v e
    using that by (cases e) (auto simp: entities_live_def render_entities_def update_entities_def drop_frame_def Let_def)
  show "entities_idle (unmount_entities v)" if "entities_live v" for v
    using that by (auto simp: entities_idle_def entities_live_def unmount_entities_def drop_frame_def intro: removeAll_all)
qed

section \<open>Lemmas on counts and markup\<close>

lemma counts_get:
  "c \<noteq> ''all'' \<Longrightarrow> \<forall>e\<in>set es. e_category e \<noteq> ''all'' \<Longrightarrow>
     nullish (map_get (fold count_category es [(''all'', n)]) c) 0 = length (filter (\<lambda>e. e_category e = c) es)"
proof (induction es rule: rev_induct)
  case (snoc e es)
  then show ?case by (cases "map_get (fold count_category es [(''all'', n)]) c") (auto simp: count_category_def js_map)
qed simp

lemma counts_all:
  "\<forall>e\<in>set es. e_category e \<noteq> ''all'' \<Longrightarrow> map_get (fold count_category es [(''all'', n)]) ''all'' = Some n"
  by (induction es rule: rev_induct) (auto simp: count_category_def js_map)

lemma markup_free_ago [markup]: "markup_free (ago now ts)"
  by (simp add: ago_def Let_def markup_char_def)

text \<open>The markup characters of the head of the table, of a row, and of the end.\<close>

definition head_skeleton :: string where
  \<open>head_skeleton = ''<><><><><><""><><""><><""><><><><>''\<close>

definition row_skeleton :: string where
  \<open>row_skeleton = ''<""""><><""><><""><><><""><""><><><""><><><""><><><""><><>''\<close>

lemma skeleton_row:
  assumes "markup_free (e_category e)" "\<And>x d. markup_free (loc x d)"
  shows "skeleton (entity_row loc now e) = row_skeleton"
  using assms by (simp add: entity_row_def row_skeleton_def skeleton_eval markup_free_entity_value markup_free_ago)

section \<open>Properties\<close>

text \<open>
  The number on each filter chip is the number of rows that the filter shows without a search.
\<close>

theorem chips_count_rows:
  assumes "\<forall>e\<in>set (all_entities st). e_category e \<noteq> ''all''" "(k, l) \<in> set FILTERS"
  shows "nullish (map_get (category_counts (all_entities st)) k) 0 = length (entity_list collate collate_num st k [])"
proof (cases "k = ''all''")
  case True
  then show ?thesis using counts_all[OF assms(1)] by (simp add: category_counts_def entity_list_def entity_shown_def)
next
  case False
  then show ?thesis using counts_get[OF False assms(1)] by (simp add: category_counts_def entity_list_def entity_shown_def[abs_def])
qed

definition two_entities :: store where
  "two_entities =
     (let e = \<lparr> e_id = ''a'', e_name = ''A'', e_platform = ''sensor'', e_category = ''sensor'', e_kind = Numeric, e_device_class = None,
                e_unit = None, e_state_class = None, e_options = [], e_min = None, e_max = None, e_step = None, e_writable = False,
                e_value = None, e_text = None, e_updated = None \<rparr>
      in set_entities [e, e\<lparr> e_id := ''b'', e_name := ''<i>'', e_category := ''control'' \<rparr>] init_store)"

lemma two_entities_all: "\<forall>e\<in>set (all_entities two_entities). e_category e \<in> {''sensor'', ''control''}"
  by (simp add: two_entities_def Let_def set_entities_def init_store_def all_entities_def)

theorem chips_count_rows_witness:
  "nullish (map_get (category_counts (all_entities two_entities)) ''sensor'') 0 =
   length (entity_list (\<lambda>_ _. True) (\<lambda>_ _. True) two_entities ''sensor'' [])"
  using two_entities_all by (intro chips_count_rows[where l = "''Sensors''"]) (auto simp: FILTERS_def)

text \<open>
  C31: the table has exactly one row per entity that passes filter and search, and its markup depends on their
  number only: no identifier, name, unit, text or value opens or closes a tag or an attribute.
\<close>

theorem entities_table_rows:
  assumes "es = entity_list collate collate_num st filt query" "es \<noteq> []"
    and "\<forall>e\<in>set es. markup_free (e_category e)" "\<And>x d. markup_free (loc x d)"
  shows \<open>skeleton (entities_table loc now es) = head_skeleton @ concat (replicate (length es) row_skeleton) @ ''<><>'' \<and>
    mset es = mset (filter (entity_shown filt query) (all_entities st))\<close>
proof -
  have "map (\<lambda>e. skeleton (entity_row loc now e)) es = replicate (length es) row_skeleton"
    using assms(3,4) skeleton_row by (intro replicate_eqI) auto
  then have "skeleton (concat (map (entity_row loc now) es)) = concat (replicate (length es) row_skeleton)"
    by (simp add: skeleton_concat comp_def)
  then have "skeleton (entities_table loc now es) = head_skeleton @ concat (replicate (length es) row_skeleton) @ ''<><>''"
    using assms(2) by (simp add: entities_table_def head_skeleton_def skeleton_eval)
  then show ?thesis by (simp add: assms(1) entity_list_def)
qed

theorem entities_table_rows_witness:
  "skeleton (entities_table plain_format 0 (entity_list (\<lambda>_ _. True) (\<lambda>_ _. True) two_entities ''all'' [])) =
     head_skeleton @ concat (replicate (length (entity_list (\<lambda>_ _. True) (\<lambda>_ _. True) two_entities ''all'' [])) row_skeleton) @ ''<><>'' \<and>
   mset (entity_list (\<lambda>_ _. True) (\<lambda>_ _. True) two_entities ''all'' []) = mset (filter (entity_shown ''all'' []) (all_entities two_entities))"
proof (rule entities_table_rows[OF refl])
  have m: "mset (entity_list (\<lambda>_ _. True) (\<lambda>_ _. True) two_entities ''all'' []) = mset (all_entities two_entities)"
    by (simp add: entity_list_def entity_shown_def)
  have "all_entities two_entities \<noteq> []" by (simp add: two_entities_def Let_def set_entities_def init_store_def all_entities_def)
  then show "entity_list (\<lambda>_ _. True) (\<lambda>_ _. True) two_entities ''all'' [] \<noteq> []" using m by (metis mset_zero_iff)
  show "\<forall>e\<in>set (entity_list (\<lambda>_ _. True) (\<lambda>_ _. True) two_entities ''all'' []). markup_free (e_category e)"
    using two_entities_all unfolding mset_eq_setD[OF m] by (auto simp: markup_char_def)
qed (simp add: plain_format_def)

end
