(* ===== verification/Drawer.thy ===== *)
theory Drawer
  imports Timeline LineChart Api
begin

text \<open>
  \<open>drawer.js\<close>: the side panel with the history of one entity. Every \<open>openEntity\<close> replaces the body
  of the panel, so the elements that a running \<open>load\<close> holds belong to one \<open>page\<close> of the panel;
  an answer that arrives later still writes into the elements of its own page. The state records
  the pages, the requests in flight, and which charts were created, where, and destroyed.
\<close>

section \<open>Statistics and tables\<close>

definition stat :: "string \<Rightarrow> string \<Rightarrow> string option \<Rightarrow> string" where
  \<open>stat k v unit =
     ''<div><div class="k">'' @ esc (Some k) @ ''</div><div class="v">'' @ v @
     (case unit of
        Some u \<Rightarrow> if u \<noteq> [] then '' <small class="muted" style="font-size:12px;font-weight:500">'' @ esc (Some u) @ ''</small>'' else []
      | None \<Rightarrow> []) @ ''</div></div>''\<close>

definition present :: "jsnum option list \<Rightarrow> jsnum list" where
  "present vs = List.map_filter id vs"

definition average :: "jsnum list \<Rightarrow> jsnum option" where
  "average xs = (if xs = [] then None else Some (foldl (+) 0 xs / Fin (of_nat (length xs))))"

definition numeric_stats :: "locale_format \<Rightarrow> entity \<Rightarrow> series \<Rightarrow> string" where
  "numeric_stats loc e s =
     (let xs = present (sr_v s);
          first = (if xs = [] then None else Some (hd xs));
          final = (if xs = [] then None else Some (last xs));
          d = decimals_for (e_unit e) first;
          lows = present (sr_min s);
          highs = present (sr_max s);
          count = num loc (Some (Fin (of_nat (length (sr_t s))))) 0
      in if e_state_class e = Some ''total_increasing'' then
           stat ''Change'' (if xs = [] then endash else num loc (Some (last xs - hd xs)) d) (e_unit e) @
           stat ''Start'' (num loc first d) (e_unit e) @ stat ''End'' (num loc final d) (e_unit e) @
           stat ''Samples'' count (Some [])
         else
           stat ''Min'' (if lows = [] then endash else num loc (Some (jmins lows)) d) (e_unit e) @
           stat ''Avg'' (num loc (average xs) d) (e_unit e) @
           stat ''Max'' (if highs = [] then endash else num loc (Some (jmaxs highs)) d) (e_unit e) @
           stat ''Points'' count (Some []))"

text \<open>The share of time per state.\<close>

definition sample_span :: "jsnum \<Rightarrow> jsnum list \<Rightarrow> nat \<Rightarrow> jsnum" where
  "sample_span stop ts i = (if i + 1 < length ts then ts ! (i + 1) else stop) - ts ! i"

definition state_totals :: "jsnum \<Rightarrow> series \<Rightarrow> (string, jsnum) jsmap" where
  "state_totals stop s =
     foldl (\<lambda>m i. map_set (sample_state (sr_text s) i)
              (num_or (map_get m (sample_state (sr_text s) i)) 0 + sample_span stop (sr_t s) i) m)
       [] [0..<length (sr_t s)]"

definition top_states :: "(string, jsnum) jsmap \<Rightarrow> (string \<times> jsnum) list" where
  "top_states totals = take 4 (sort_by (\<lambda>a b. \<not> 0 < snd b - snd a) totals)"

definition state_stats :: "locale_format \<Rightarrow> (string, jsnum) jsmap \<Rightarrow> string" where
  "state_stats loc totals =
     (let total = num_or (Some (foldl (+) 0 (map_values totals))) 1
      in concat (map (\<lambda>kv. stat (fst kv) (num loc (Some ((snd kv / total) * Fin 100)) 0) (Some ''%'')) (top_states totals)))"

text \<open>The indices of the latest twelve changes, newest first.\<close>

fun changes_from :: "string option list \<Rightarrow> nat \<Rightarrow> nat \<Rightarrow> nat list" where
  "changes_from texts 0 k = []"
| "changes_from texts (Suc i) k =
     (if k = 0 then []
      else if i = 0 \<or> at_null texts i \<noteq> at_null texts (i - 1) then i # changes_from texts i (k - 1)
      else changes_from texts i k)"

definition changes_table :: "(jsnum \<Rightarrow> string) \<Rightarrow> series \<Rightarrow> string" where
  \<open>changes_table date_time s =
     (let rows = concat (map (\<lambda>i. ''<tr><td>'' @ date_time (sr_t s ! i) @ ''</td><td>'' @ esc (at_null (sr_text s) i) @ ''</td></tr>'')
                          (changes_from (sr_text s) (length (sr_t s)) 12))
      in ''<h3 style="margin:20px 0 6px">Recent changes</h3><div class="table-wrap"><table><tbody>'' @
         (if rows = [] then ''<tr><td class="faint">No changes</td></tr>'' else rows) @ ''</tbody></table></div>'')\<close>

section \<open>State\<close>

record load_request =
  lr_entity :: entity
  lr_range :: jsnum
  lr_start :: jsnum
  lr_end :: jsnum
  lr_page :: nat

text \<open>
  \<open>dw_chart\<close> is the variable \<open>chart\<close>: the number of the chart and the page it was drawn on.
  \<open>dw_pending\<close>: the panel holds an element \<open>.stepper.pending\<close>, which only the widget of a Number with a pending value is.
  \<open>dw_stats\<close> and \<open>dw_drawn\<close> hold, per page, the statistics and the drawing last written to it.
\<close>

record drawer =
  dw_hidden :: bool
  dw_current :: "string option"
  dw_page :: nat
  dw_title :: string
  dw_sub :: string
  dw_now :: string
  dw_widget :: string
  dw_pending :: bool
  dw_chart :: "(nat \<times> nat) option"
  dw_created :: nat
  dw_destroyed :: "nat list"
  dw_stats :: "(nat, string) jsmap"
  dw_drawn :: "(nat, string) jsmap"
  dw_loads :: "load_request list"

definition init_drawer :: drawer where
  "init_drawer = \<lparr> dw_hidden = True, dw_current = None, dw_page = 0, dw_title = [], dw_sub = [], dw_now = [],
     dw_widget = [], dw_pending = False, dw_chart = None, dw_created = 0, dw_destroyed = [], dw_stats = [], dw_drawn = [], dw_loads = [] \<rparr>"

definition drop_chart :: "drawer \<Rightarrow> drawer" where
  "drop_chart d =
     (case dw_chart d of
        None \<Rightarrow> d
      | Some (c, p) \<Rightarrow> d\<lparr> dw_chart := None, dw_destroyed := dw_destroyed d @ [c] \<rparr>)"

definition close_drawer :: "drawer \<Rightarrow> drawer" where
  "close_drawer d = (drop_chart d)\<lparr> dw_hidden := True, dw_current := None \<rparr>"

section \<open>Opening and refreshing\<close>

text \<open>\<open>${e.min}\<close> of a nullable Number.\<close>

definition opt_number_text :: "jsnum option \<Rightarrow> string" where
  "opt_number_text v = (case v of None \<Rightarrow> ''null'' | Some x \<Rightarrow> number_text x)"

definition now_html :: "locale_format \<Rightarrow> entity \<Rightarrow> string" where
  "now_html loc e = entity_value loc (Some e) @ '' <small>'' @ esc (Some (nullish (e_unit e) [])) @ ''</small>''"

definition sub_text :: "jsnum \<Rightarrow> entity \<Rightarrow> string" where
  "sub_text now e = ''Updated '' @ ago now (e_updated e)"

definition RANGES :: "(string \<times> jsnum) list" where
  "RANGES = [(''6h'', Fin 21600), (''24h'', Fin 86400), (''7d'', Fin 604800), (''30d'', Fin 2592000), (''1y'', Fin 31536000)]"

definition pills_html :: "entity \<Rightarrow> string" where
  \<open>pills_html e =
     ''<span class="pill">'' @ esc (Some (e_platform e)) @ ''</span>'' @
     (case e_device_class e of
        Some c \<Rightarrow> if c \<noteq> [] then ''<span class="pill">'' @ esc (Some c) @ ''</span>'' else []
      | None \<Rightarrow> []) @
     (case e_min e of
        Some m \<Rightarrow> ''<span class="pill">range <b>'' @ number_text m @ '' '' @ endash @ '' '' @ opt_number_text (e_max e) @ ''</b></span>''
      | None \<Rightarrow> []) @
     ''<span class="pill faint">'' @ esc (Some (e_id e)) @ ''</span>''\<close>

definition ranges_html :: "jsnum \<Rightarrow> string" where
  \<open>ranges_html rng =
     ''<div class="segmented" id="drawer-ranges">'' @
     concat (map (\<lambda>(l, s). ''<button data-s="'' @ number_text s @ ''" class="'' @
                     (if num_eq s rng then ''active'' else []) @ ''">'' @ l @ ''</button>'') RANGES) @ ''</div>''\<close>

definition render_widget :: "locale_format \<Rightarrow> store \<Rightarrow> (string \<Rightarrow> jsnum option) \<Rightarrow> entity \<Rightarrow> drawer \<Rightarrow> drawer" where
  "render_widget loc st pending e d =
     d\<lparr> dw_widget := (if e_writable e then widget loc st pending (Some e) else []),
        dw_pending := (e_writable e \<and> e_kind e = Numeric \<and> pending (e_id e) \<noteq> None) \<rparr>"

text \<open>\<open>now\<close> is \<open>Date.now()\<close>.\<close>

definition start_load :: "jsnum \<Rightarrow> entity \<Rightarrow> jsnum \<Rightarrow> drawer \<Rightarrow> drawer" where
  "start_load now e rng d =
     (let stop = now / Fin 1000
      in d\<lparr> dw_drawn := map_set (dw_page d) ''skeleton'' (dw_drawn d),
            dw_loads := dw_loads d @ [\<lparr> lr_entity = e, lr_range = rng, lr_start = stop - rng, lr_end = stop, lr_page = dw_page d \<rparr>] \<rparr>)"

definition open_entity ::
  "locale_format \<Rightarrow> jsnum \<Rightarrow> store \<Rightarrow> (string \<Rightarrow> jsnum option) \<Rightarrow> string \<Rightarrow> jsnum \<Rightarrow> drawer \<Rightarrow> drawer" where
  "open_entity loc now st pending i rng d =
     (case entity_by_id st i of
        None \<Rightarrow> d
      | Some e \<Rightarrow>
          let d = d\<lparr> dw_current := Some i, dw_hidden := False, dw_title := e_name e, dw_sub := sub_text now e,
                     dw_now := now_html loc e, dw_widget := [], dw_pending := False, dw_page := Suc (dw_page d) \<rparr>;
              d = render_widget loc st pending e d
          in start_load now e rng d)"

definition refresh_drawer ::
  "locale_format \<Rightarrow> jsnum \<Rightarrow> store \<Rightarrow> (string \<Rightarrow> jsnum option) \<Rightarrow> entity \<Rightarrow> drawer \<Rightarrow> drawer" where
  "refresh_drawer loc now st pending e d =
     (if Some (e_id e) \<noteq> dw_current d then d
      else let d = d\<lparr> dw_now := now_html loc e, dw_sub := sub_text now e \<rparr>
           in if dw_pending d then d else render_widget loc st pending e d)"

section \<open>Answers\<close>

text \<open>
  The rest of \<open>load\<close>, when the answer is there; \<open>data = None\<close> is an answer without the entity, on
  which the code throws once the old chart is gone. \<open>drawing\<close> names what the page shows.
\<close>

definition state_order :: "entity \<Rightarrow> string list" where
  "state_order e = (if e_platform e = ''switch'' \<or> e_platform e = ''binary_sensor'' then [''ON'', ''OFF''] else e_options e)"

definition drawn_states :: "(jsnum \<Rightarrow> string) \<Rightarrow> (bool \<Rightarrow> jsnum \<Rightarrow> string) \<Rightarrow> (jsnum \<Rightarrow> string) \<Rightarrow> jsnum \<Rightarrow> load_request \<Rightarrow> series \<Rightarrow> string" where
  "drawn_states date_text axis_text date_time now r s =
     timeline date_text axis_text now
       [\<lparr> row_label = e_name (lr_entity r), row_data = s, row_order = state_order (lr_entity r), row_hide = [] \<rparr>]
       (lr_start r) (lr_end r) @ changes_table date_time s"

definition on_load ::
  "locale_format \<Rightarrow> (load_request \<Rightarrow> series \<Rightarrow> string) \<Rightarrow> load_request \<Rightarrow> series option \<Rightarrow> drawer \<Rightarrow> drawer" where
  "on_load loc drawn r data d =
     (if Some (e_id (lr_entity r)) \<noteq> dw_current d then d
      else
        let d = drop_chart d; e = lr_entity r; p = lr_page r in
        (case data of
           None \<Rightarrow> d
         | Some s \<Rightarrow>
             if e_kind e = Numeric then
               d\<lparr> dw_stats := map_set p (numeric_stats loc e s) (dw_stats d),
                  dw_chart := Some (dw_created d, p), dw_created := Suc (dw_created d),
                  dw_drawn := map_set p ''chart'' (dw_drawn d) \<rparr>
             else
               d\<lparr> dw_stats := map_set p (state_stats loc (state_totals (lr_end r) s)) (dw_stats d),
                  dw_drawn := map_set p (drawn r s) (dw_drawn d) \<rparr>))"

datatype drawer_event =
    Dw_open store "string \<Rightarrow> jsnum option" string jsnum jsnum
  | Dw_close
  | Dw_refresh store "string \<Rightarrow> jsnum option" entity jsnum
  | Dw_load nat "series option"
  | Dw_load_failed nat

fun drawer_step ::
  "locale_format \<Rightarrow> (load_request \<Rightarrow> series \<Rightarrow> string) \<Rightarrow> drawer \<Rightarrow> drawer_event \<Rightarrow> drawer" where
  "drawer_step loc drawn d (Dw_open st pending i rng now) = open_entity loc now st pending i rng d"
| "drawer_step loc drawn d Dw_close = close_drawer d"
| "drawer_step loc drawn d (Dw_refresh st pending e now) = refresh_drawer loc now st pending e d"
| "drawer_step loc drawn d (Dw_load k data) =
     on_load loc drawn (dw_loads d ! k) data (d\<lparr> dw_loads := without k (dw_loads d) \<rparr>)"
| "drawer_step loc drawn d (Dw_load_failed k) = d\<lparr> dw_loads := without k (dw_loads d) \<rparr>"

fun drawer_enabled :: "drawer \<Rightarrow> drawer_event \<Rightarrow> bool" where
  "drawer_enabled d (Dw_load k data) = (k < length (dw_loads d))"
| "drawer_enabled d (Dw_load_failed k) = (k < length (dw_loads d))"
| "drawer_enabled d e = True"

section \<open>The invariant\<close>

text \<open>
  At most one chart is live: the one in the variable. The panel is hidden exactly when no entity is
  current, and then there is no chart. Pages of requests are pages that were opened.
\<close>

definition drawer_ok :: "drawer \<Rightarrow> bool" where
  "drawer_ok d \<longleftrightarrow>
     (case dw_chart d of
        None \<Rightarrow> dw_destroyed d = [0..<dw_created d]
      | Some (c, p) \<Rightarrow> dw_created d = Suc c \<and> dw_destroyed d = [0..<c] \<and> p \<le> dw_page d) \<and>
     (dw_hidden d \<longleftrightarrow> dw_current d = None) \<and> (dw_hidden d \<longrightarrow> dw_chart d = None) \<and>
     (\<forall>r\<in>set (dw_loads d). lr_page r \<le> dw_page d)"

lemmas drawer_defs = drop_chart_def close_drawer_def render_widget_def start_load_def open_entity_def
  refresh_drawer_def on_load_def Let_def

lemma drawer_ok_init: "drawer_ok init_drawer"
  by (simp add: drawer_ok_def init_drawer_def)

lemma drop_chart_ok:
  "drawer_ok d \<Longrightarrow> drawer_ok (drop_chart d) \<and> dw_chart (drop_chart d) = None
     \<and> dw_destroyed (drop_chart d) = [0..<dw_created (drop_chart d)]"
  by (auto simp: drawer_ok_def drop_chart_def split: option.splits prod.splits)

lemma drop_chart_others [simp]:
  "dw_page (drop_chart d) = dw_page d" "dw_current (drop_chart d) = dw_current d"
  "dw_hidden (drop_chart d) = dw_hidden d" "dw_loads (drop_chart d) = dw_loads d"
  "dw_created (drop_chart d) = dw_created d"
  by (simp_all add: drop_chart_def split: option.splits prod.splits)

lemma drawer_ok_on_load:
  assumes "drawer_ok d" "lr_page r \<le> dw_page d"
  shows "drawer_ok (on_load loc drawn r data d)"
proof (cases "dw_current d = Some (e_id (lr_entity r))")
  case True
  then have "\<not> dw_hidden d" using assms(1) by (simp add: drawer_ok_def)
  with True show ?thesis
    using drop_chart_ok[OF assms(1)] assms(2)
    by (cases data; cases "e_kind (lr_entity r) = Numeric") (simp_all add: on_load_def Let_def drawer_ok_def)
qed (use assms in \<open>simp add: on_load_def eq_commute\<close>)

lemma drawer_ok_loads:
  "drawer_ok d \<Longrightarrow> set ls \<subseteq> set (dw_loads d) \<Longrightarrow> drawer_ok (d\<lparr> dw_loads := ls \<rparr>)"
  by (auto simp: drawer_ok_def split: option.splits prod.splits)

lemma drawer_ok_step:
  assumes "drawer_ok d" "drawer_enabled d e"
  shows "drawer_ok (drawer_step loc drawn d e)"
proof (cases e)
  case (Dw_open st pending i rng now)
  then show ?thesis using assms(1)
    by (auto simp: open_entity_def render_widget_def start_load_def Let_def drawer_ok_def split: option.splits prod.splits)
next
  case Dw_close
  then show ?thesis using drop_chart_ok[OF assms(1)] by (auto simp: Dw_close close_drawer_def drawer_ok_def)
next
  case (Dw_refresh st pending en now)
  then show ?thesis using assms(1)
    by (auto simp: refresh_drawer_def render_widget_def Let_def drawer_ok_def split: option.splits prod.splits)
next
  case (Dw_load k data)
  with assms have "lr_page (dw_loads d ! k) \<le> dw_page d" by (auto simp: drawer_ok_def)
  moreover have "drawer_ok (d\<lparr> dw_loads := without k (dw_loads d) \<rparr>)"
    using assms(1) set_without by (rule drawer_ok_loads)
  ultimately show ?thesis by (simp add: Dw_load drawer_ok_on_load)
next
  case (Dw_load_failed k)
  then show ?thesis using drawer_ok_loads[OF assms(1) set_without] by simp
qed

interpretation drawer_run: machine "drawer_step loc drawn" drawer_enabled drawer_ok for loc drawn
  by unfold_locales (rule drawer_ok_step)

section \<open>Changes and shares\<close>

definition is_change :: "string option list \<Rightarrow> nat \<Rightarrow> bool" where
  "is_change texts i = (i = 0 \<or> at_null texts i \<noteq> at_null texts (i - 1))"

lemma changes_from_take: "changes_from texts n k = take k (rev (filter (is_change texts) [0..<n]))"
proof (induction n arbitrary: k)
  case (Suc n)
  then show ?case by (cases k) (auto simp: is_change_def)
qed simp

text \<open>
  Times on a grid of 2^-22 s: Unix times in seconds (from \<open>Date.now() / 1000\<close> as well) are doubles
  of that form until the year 2038, so differences of two of them are exact.
\<close>

definition grid :: "int \<Rightarrow> jsnum" where
  "grid m = Fin (of_int m / 2 ^ 22)"

lemma grid_exact:
  assumes "\<bar>m\<bar> \<le> 2 ^ 53"
  shows "fl (of_int m / 2 ^ 22) = grid m"
proof -
  have "rnd (of_int m / 2 ^ 22) = of_int m / 2 ^ 22" using assms by (intro rnd_dyadic[of _ 22 m]) auto
  moreover have "\<bar>of_int m :: rat\<bar> \<le> 2 ^ 53"
    using assms by (metis of_int_abs of_int_le_iff of_int_numeral of_int_power)
  ultimately show ?thesis unfolding grid_def by (intro fl_exact) (auto simp: abs_divide divide_le_eq)
qed

lemma grid_diff: "\<bar>m - n\<bar> \<le> 2 ^ 53 \<Longrightarrow> grid m - grid n = grid (m - n)"
  using grid_exact[of "m - n"] by (simp add: grid_def diff_divide_distrib)

lemma grid_add: "\<bar>m + n\<bar> \<le> 2 ^ 53 \<Longrightarrow> grid m + grid n = grid (m + n)"
  using grid_exact[of "m + n"] by (simp add: grid_def add_divide_distrib)

lemma num_or_grid: "num_or (Some (grid m)) 0 = grid m"
  by (simp add: num_or_def num_truthy_def grid_def zero_jsnum_def)

lemma grid_0: "(0::jsnum) = grid 0"
  by (simp add: grid_def zero_jsnum_def)

text \<open>Adding a time to the entry of a state adds it to the sum of the entries.\<close>

lemma grid_update:
  assumes "map_values m = map grid ms" "\<forall>x\<in>set ms. 0 \<le> x" "0 \<le> d" "sum_list ms + d \<le> 2 ^ 53"
  shows "\<exists>ms'. map_values (map_set k (num_or (map_get m k) 0 + grid d) m) = map grid ms'
    \<and> (\<forall>x\<in>set ms'. 0 \<le> x) \<and> sum_list ms' = sum_list ms + d"
  using assms
proof (induction m arbitrary: ms)
  case Nil
  then have "num_or None 0 + grid d = grid d" by (simp add: num_or_def grid_0 grid_add)
  with Nil show ?case by (intro exI[of _ "[d]"]) simp
next
  case (Cons kv m)
  obtain k' v where kv: "kv = (k', v)" by (cases kv)
  obtain x ms1 where ms: "ms = x # ms1" "v = grid x" "map_values m = map grid ms1"
    using Cons.prems(1) kv by (cases ms) auto
  have rest: "0 \<le> sum_list ms1" using Cons.prems(2) ms by (auto intro: sum_list_nonneg)
  show ?case
  proof (cases "k = k'")
    case True
    have "\<bar>x + d\<bar> \<le> 2 ^ 53" using Cons.prems rest ms by (auto simp: abs_le_iff)
    then have "num_or (map_get (kv # m) k) 0 + grid d = grid (x + d)"
      by (simp add: True kv ms num_or_grid grid_add)
    then show ?thesis using Cons.prems True kv ms by (intro exI[of _ "(x + d) # ms1"]) auto
  next
    case False
    have "sum_list ms1 + d \<le> 2 ^ 53" using Cons.prems ms by auto
    with Cons.IH[OF ms(3)] Cons.prems ms obtain ms' where
      "map_values (map_set k (num_or (map_get m k) 0 + grid d) m) = map grid ms'"
      "\<forall>x\<in>set ms'. 0 \<le> x" "sum_list ms' = sum_list ms1 + d" by auto
    then show ?thesis using Cons.prems False kv ms by (intro exI[of _ "x # ms'"]) auto
  qed
qed

lemma grid_sum:
  assumes "\<forall>x\<in>set ms. 0 \<le> x" "0 \<le> a" "a + sum_list ms \<le> 2 ^ 53"
  shows "foldl (+) (grid a) (map grid ms) = grid (a + sum_list ms)"
  using assms
proof (induction ms arbitrary: a)
  case (Cons x ms)
  have "0 \<le> sum_list ms" using Cons.prems(1) by (auto intro: sum_list_nonneg)
  then have "grid a + grid x = grid (a + x)" using Cons.prems by (intro grid_add) auto
  then show ?case using Cons.IH[of "a + x"] Cons.prems by (simp add: add.assoc)
qed simp

definition int_span :: "int \<Rightarrow> int list \<Rightarrow> nat \<Rightarrow> int" where
  "int_span e ts i = (if i + 1 < length ts then ts ! (i + 1) else e) - ts ! i"

text \<open>The time spent in a state up to sample \<open>n\<close>.\<close>

definition time_in :: "string option list \<Rightarrow> int \<Rightarrow> int list \<Rightarrow> string \<Rightarrow> nat \<Rightarrow> int" where
  "time_in texts e ts k n = sum_list (map (int_span e ts) (filter (\<lambda>i. sample_state texts i = k) [0..<n]))"

lemma sum_spans:
  "n \<le> length ts \<Longrightarrow> n \<noteq> 0 \<Longrightarrow>
     sum_list (map (int_span e ts) [0..<n]) = (if n < length ts then ts ! n else e) - ts ! 0"
proof (induction n)
  case (Suc n)
  then show ?case by (cases "n = 0") (auto simp: int_span_def)
qed simp

lemma int_span_nonneg:
  assumes "sorted ts" "\<forall>t\<in>set ts. t \<le> e" "i < length ts"
  shows "0 \<le> int_span e ts i"
proof (cases "i + 1 < length ts")
  case True
  then show ?thesis using sorted_nth_mono[OF assms(1), of i "i + 1"] by (simp add: int_span_def)
qed (use assms in \<open>simp add: int_span_def\<close>)

definition partial_totals :: "jsnum \<Rightarrow> series \<Rightarrow> nat \<Rightarrow> (string, jsnum) jsmap" where
  "partial_totals stop s n =
     foldl (\<lambda>m i. map_set (sample_state (sr_text s) i)
              (num_or (map_get m (sample_state (sr_text s) i)) 0 + sample_span stop (sr_t s) i) m) [] [0..<n]"

lemma partial_totals_Suc:
  "partial_totals stop s (Suc n) =
     map_set (sample_state (sr_text s) n)
       (num_or (map_get (partial_totals stop s n) (sample_state (sr_text s) n)) 0 + sample_span stop (sr_t s) n)
       (partial_totals stop s n)"
  by (simp add: partial_totals_def)

lemma sample_span_grid:
  assumes "\<forall>t\<in>set ts. 0 \<le> t \<and> t \<le> e" "0 \<le> e" "e \<le> 2 ^ 53" "i < length ts"
  shows "sample_span (grid e) (map grid ts) i = grid (int_span e ts i)"
proof -
  have "0 \<le> ts ! i" "ts ! i \<le> e" using assms by auto
  moreover have "0 \<le> ts ! (i + 1)" "ts ! (i + 1) \<le> e" if "i + 1 < length ts" using assms that by auto
  ultimately show ?thesis using assms(3,4)
    by (auto simp: sample_span_def int_span_def abs_le_iff intro!: grid_diff)
qed

lemma time_in_Suc:
  "time_in texts e ts k (Suc n) = time_in texts e ts k n + (if sample_state texts n = k then int_span e ts n else 0)"
  by (simp add: time_in_def)

lemma totals_step:
  assumes "\<forall>t\<in>set ts. 0 \<le> t \<and> t \<le> e" "sorted ts" "0 \<le> e" "e \<le> 2 ^ 53" "sr_t s = map grid ts" "n \<le> length ts"
  shows "(\<exists>ms. map_values (partial_totals (grid e) s n) = map grid ms \<and> (\<forall>x\<in>set ms. 0 \<le> x)
      \<and> sum_list ms = sum_list (map (int_span e ts) [0..<n]))
    \<and> (\<forall>k. num_or (map_get (partial_totals (grid e) s n) k) 0 = grid (time_in (sr_text s) e ts k n)
         \<and> 0 \<le> time_in (sr_text s) e ts k n
         \<and> time_in (sr_text s) e ts k n \<le> sum_list (map (int_span e ts) [0..<n]))"
  using assms(6)
proof (induction n)
  case 0
  show ?case by (simp add: partial_totals_def time_in_def num_or_def grid_0)
next
  case (Suc n)
  let ?m = "partial_totals (grid e) s n" and ?k = "sample_state (sr_text s) n" and ?d = "int_span e ts n"
  let ?S = "\<lambda>n. sum_list (map (int_span e ts) [0..<n])"
  have S: "?S (Suc n) = ?S n + ?d" by simp
  have d: "0 \<le> ?d" using assms(1,2) Suc.prems by (intro int_span_nonneg) auto
  have "0 < length ts" using Suc.prems by linarith
  then have "0 \<le> ts ! 0" "Suc n < length ts \<Longrightarrow> ts ! Suc n \<le> e" using assms(1) by auto
  then have "?S (Suc n) \<le> e"
    unfolding sum_spans[OF Suc.prems nat.distinct(2)] by (cases "Suc n < length ts") auto
  then have le: "?S n + ?d \<le> 2 ^ 53" using S assms(4) by simp
  have span: "sample_span (grid e) (sr_t s) n = grid ?d"
    using sample_span_grid[of ts e n] assms Suc.prems by simp
  note step = partial_totals_Suc[of "grid e" s n, unfolded span]
  from Suc obtain ms where ms: "map_values ?m = map grid ms" "\<forall>x\<in>set ms. 0 \<le> x" "sum_list ms = ?S n"
    and T: "\<And>k. num_or (map_get ?m k) 0 = grid (time_in (sr_text s) e ts k n)"
      "\<And>k. 0 \<le> time_in (sr_text s) e ts k n" "\<And>k. time_in (sr_text s) e ts k n \<le> ?S n"
    by auto
  have "\<exists>ms'. map_values (partial_totals (grid e) s (Suc n)) = map grid ms' \<and> (\<forall>x\<in>set ms'. 0 \<le> x) \<and> sum_list ms' = ?S (Suc n)"
    unfolding step S ms(3)[symmetric] using ms d le by (intro grid_update) auto
  moreover have "num_or (map_get (partial_totals (grid e) s (Suc n)) k) 0 = grid (time_in (sr_text s) e ts k (Suc n))
      \<and> 0 \<le> time_in (sr_text s) e ts k (Suc n) \<and> time_in (sr_text s) e ts k (Suc n) \<le> ?S (Suc n)" for k
  proof (cases "k = ?k")
    case True
    have "\<bar>time_in (sr_text s) e ts ?k n + ?d\<bar> \<le> 2 ^ 53" using T(2,3)[of ?k] d le by simp
    then show ?thesis
      using T(1)[of ?k] T(2,3)[of ?k] d unfolding step S time_in_Suc True
      by (simp add: js_map T(1) grid_add num_or_grid)
  next
    case False
    then show ?thesis using T(1)[of k] T(2,3)[of k] d unfolding step S time_in_Suc by (simp add: js_map)
  qed
  ultimately show ?case by blast
qed

section \<open>Properties\<close>

text \<open>
  C14: the drawer never leaks a chart and never destroys one twice: in every reachable state all
  charts but the one in its variable have been destroyed, once each, and when the drawer is hidden
  all of them have. It is hidden exactly when no entity is current.
\<close>

theorem drawer_single_chart:
  assumes "enabled_run drawer_enabled (drawer_step loc drawn) init_drawer es"
    and "d = run (drawer_step loc drawn) init_drawer es"
  shows "dw_destroyed d = (case dw_chart d of None \<Rightarrow> [0..<dw_created d] | Some (c, p) \<Rightarrow> [0..<dw_created d - 1])
    \<and> (dw_hidden d \<longleftrightarrow> dw_current d = None) \<and> (dw_hidden d \<longrightarrow> dw_chart d = None)"
proof -
  have "drawer_ok d" unfolding assms(2) using drawer_ok_init assms(1) by (rule drawer_run.inv_run)
  then show ?thesis by (auto simp: drawer_ok_def split: option.splits)
qed

text \<open>
  C37: answers are not matched with the request they belong to, only with the entity. Opened for one
  range and then for another, the drawer shows the chart of the second answer; when the first
  answer comes last, that visible chart is destroyed and replaced by one on the page that is gone,
  so with every request answered the visible page has no chart.
\<close>

theorem stale_answer_blanks_drawer:
  assumes "entity_by_id st i = Some e" "e_id e = i" "e_kind e = Numeric"
    and "d = run (drawer_step loc drawn) init_drawer
      [Dw_open st pending i r1 t1, Dw_open st pending i r2 t2, Dw_load 1 (Some s2), Dw_load 0 (Some s1)]"
  shows "enabled_run drawer_enabled (drawer_step loc drawn) init_drawer
      [Dw_open st pending i r1 t1, Dw_open st pending i r2 t2, Dw_load 1 (Some s2), Dw_load 0 (Some s1)]
    \<and> dw_loads d = [] \<and> \<not> dw_hidden d \<and> dw_page d = 2 \<and> dw_chart d = Some (1, 1) \<and> dw_destroyed d = [0]"
  using assms
  by (simp add: init_drawer_def open_entity_def render_widget_def start_load_def on_load_def drop_chart_def
      without_def Let_def)

text \<open>
  The table of recent changes lists the twelve latest samples whose text differs from that of the
  sample before (the first sample counts as a change), newest first.
\<close>

theorem recent_changes:
  "changes_from texts n 12 = take 12 (rev (filter (is_change texts) [0..<n]))"
  by (rule changes_from_take)

text \<open>
  C30: the time per state is exact, in spite of floating point: for samples in order of time, each
  state's total is the sum of the time from every sample in that state to the next sample (or to
  the end of the window), and the totals add up to the time from the first sample to the end.
\<close>

theorem state_shares_exact:
  assumes "sr_t s = map grid ts" "sorted ts" "\<forall>t\<in>set ts. 0 \<le> t \<and> t \<le> e" "0 \<le> e" "e \<le> 2 ^ 53" "ts \<noteq> []"
  shows "num_or (map_get (state_totals (grid e) s) k) 0 = grid (time_in (sr_text s) e ts k (length ts))
    \<and> foldl (+) 0 (map_values (state_totals (grid e) s)) = grid (e - hd ts)"
proof -
  have T: "state_totals (grid e) s = partial_totals (grid e) s (length ts)"
    by (simp add: state_totals_def partial_totals_def assms(1))
  note step = totals_step[OF assms(3,2,4,5,1) order_refl]
  have S: "sum_list (map (int_span e ts) [0..<length ts]) = e - hd ts"
    using sum_spans[of "length ts" ts e] assms(6) by (simp add: hd_conv_nth)
  have "hd ts \<in> set ts" using assms(6) by simp
  with assms(3) have "0 \<le> hd ts" by blast
  then have le: "e - hd ts \<le> 2 ^ 53" using assms(5) by linarith
  from step S obtain ms where ms: "map_values (partial_totals (grid e) s (length ts)) = map grid ms"
    "\<forall>x\<in>set ms. 0 \<le> x" "sum_list ms = e - hd ts" by auto
  then have "foldl (+) 0 (map_values (partial_totals (grid e) s (length ts))) = grid (e - hd ts)"
    unfolding grid_0 ms(1) using grid_sum[of ms 0] le by simp
  with step show ?thesis by (simp add: T)
qed

section \<open>The properties at a sample entity\<close>

definition sample_thermo :: entity where
  "sample_thermo = sensor ''t1'' ''Temp'' 20"

definition thermo_store :: store where
  "thermo_store = set_entities [sample_thermo] init_store"

lemma thermo_lookup: "entity_by_id thermo_store ''t1'' = Some sample_thermo"
  by (simp add: thermo_store_def sample_thermo_def sensor_def entity_by_id_def set_entities_def init_store_def Let_def)

theorem drawer_single_chart_witness:
  "dw_destroyed (run (drawer_step plain_format (\<lambda>r s. [])) init_drawer [Dw_close]) = []"
  using drawer_single_chart[of plain_format "\<lambda>r s. []" "[Dw_close]", OF _ refl]
  by (simp add: init_drawer_def close_drawer_def drop_chart_def)

theorem stale_answer_blanks_drawer_witness:
  "dw_chart (run (drawer_step plain_format (\<lambda>r s. [])) init_drawer
     [Dw_open thermo_store (\<lambda>_. None) ''t1'' (Fin 86400) (Fin 0), Dw_open thermo_store (\<lambda>_. None) ''t1'' (Fin 604800) (Fin 1),
      Dw_load 1 (Some sample_states), Dw_load 0 (Some sample_states)]) = Some (1, 1)"
  by (rule stale_answer_blanks_drawer[THEN conjunct2, THEN conjunct2, THEN conjunct2, THEN conjunct2, THEN conjunct1, OF thermo_lookup _ _ refl])
    (simp_all add: sample_thermo_def sensor_def)

theorem state_shares_exact_witness:
  "foldl (+) 0 (map_values (state_totals (grid (2 ^ 22 * 300))
     \<lparr> sr_t = map grid [0, 2 ^ 22 * 60], sr_v = [], sr_min = [], sr_max = [], sr_text = [Some ''ON'', Some ''OFF''] \<rparr>))
   = grid (2 ^ 22 * 300)"
  using state_shares_exact[of "\<lparr> sr_t = map grid [0, 2 ^ 22 * 60], sr_v = [], sr_min = [], sr_max = [],
      sr_text = [Some ''ON'', Some ''OFF''] \<rparr>" "[0, 2 ^ 22 * 60]" "2 ^ 22 * 300"]
  by simp

end
