(* ===== verification/App.thy ===== *)
theory App
  imports History Settings Entities Drawer
begin

text \<open>
  \<open>app.js\<close>: the router that mounts one view at a time, the connection indicator, the theme switch, and
  the whole page: the router with the states of the views and of the drawer.
\<close>

section \<open>Routes\<close>

datatype view = V_overview | V_history | V_energy | V_settings | V_entities

definition views :: "(string \<times> view) list" where
  "views = [(''overview'', V_overview), (''history'', V_history), (''energy'', V_energy), (''settings'', V_settings),
     (''entities'', V_entities)]"

text \<open>
  \<open>views[name]\<close> on an object literal also finds what it inherits from \<open>Object.prototype\<close> (the
  properties of ECMAScript, all truthy); none of them has a method \<open>mount\<close>.
\<close>

definition inherited :: "string list" where
  "inherited = [''constructor'', ''hasOwnProperty'', ''isPrototypeOf'', ''propertyIsEnumerable'', ''toLocaleString'', ''toString'',
     ''valueOf'', ''__proto__'', ''__defineGetter__'', ''__defineSetter__'', ''__lookupGetter__'', ''__lookupSetter__'']"

datatype target = View view | Inherited string

definition target_of :: "string \<Rightarrow> target" where
  "target_of name =
     (case map_of views name of
        Some v \<Rightarrow> View v
      | None \<Rightarrow> if name \<in> set inherited then Inherited name else View V_overview)"

text \<open>\<open>(location.hash.slice(1) || "overview").split("?")[0]\<close>.\<close>

definition route_name :: "string \<Rightarrow> string" where
  "route_name hash = (let h = drop 1 hash in takeWhile (\<lambda>c. c \<noteq> CHR ''?'') (if h = [] then ''overview'' else h))"

fun view_title :: "view \<Rightarrow> string" where
  "view_title V_overview = ''Overview''"
| "view_title V_history = ''History''"
| "view_title V_energy = ''Energy''"
| "view_title V_settings = ''Settings''"
| "view_title V_entities = ''Entities''"

fun view_subtitle :: "view \<Rightarrow> string" where
  "view_subtitle V_overview = ''Live view of your heat pump''"
| "view_subtitle V_history = ''Drag across a chart to zoom in''"
| "view_subtitle V_energy = ''Electricity used, heat produced and efficiency''"
| "view_subtitle V_settings = ''Field setting values (FSV) reported by the heat pump''"
| "view_subtitle V_entities = ''Everything discovered from the MQTT bridge''"

text \<open>The titles shown; a missing title is the text of \<open>undefined\<close>, which clears the element.\<close>

record router =
  rt_current :: "target option"
  rt_name :: "string option"
  rt_title :: string
  rt_sub :: string

definition init_router :: router where
  "init_router = \<lparr> rt_current = None, rt_name = None, rt_title = [], rt_sub = [] \<rparr>"

text \<open>
  \<open>route\<close> up to the call of \<open>mount\<close>: the view to unmount, the view to mount, and whether the call throws
  (a \<open>TypeError\<close>, as an inherited property has no \<open>mount\<close>). \<open>ready\<close> is \<open>store.ready\<close>.
\<close>

record transition =
  tr_router :: router
  tr_leave :: "view option"
  tr_enter :: "view option"
  tr_throws :: bool

definition view_of :: "target option \<Rightarrow> view option" where
  "view_of t = (case t of Some (View v) \<Rightarrow> Some v | _ \<Rightarrow> None)"

definition route :: "bool \<Rightarrow> string \<Rightarrow> router \<Rightarrow> transition" where
  "route ready hash r =
     (let name = route_name hash; t = target_of name in
      if \<not> ready \<or> rt_current r \<noteq> None \<and> rt_name r = Some name
      then \<lparr> tr_router = r, tr_leave = None, tr_enter = None, tr_throws = False \<rparr>
      else \<lparr> tr_router = \<lparr> rt_current = Some t, rt_name = Some name,
                           rt_title = (case t of View v \<Rightarrow> view_title v | Inherited n \<Rightarrow> []),
                           rt_sub = (case t of View v \<Rightarrow> view_subtitle v | Inherited n \<Rightarrow> []) \<rparr>,
             tr_leave = view_of (rt_current r), tr_enter = view_of (Some t), tr_throws = (view_of (Some t) = None) \<rparr>)"

section \<open>The connection indicator\<close>

text \<open>The classes of the indicator, from worse to better.\<close>

datatype health = Bad | Warn | Good

instantiation health :: linorder
begin

fun rank_health :: "health \<Rightarrow> nat" where
  "rank_health Bad = 0"
| "rank_health Warn = 1"
| "rank_health Good = 2"

definition less_eq_health :: "health \<Rightarrow> health \<Rightarrow> bool" where
  "a \<le> b \<longleftrightarrow> rank_health a \<le> rank_health b"

definition less_health :: "health \<Rightarrow> health \<Rightarrow> bool" where
  "a < b \<longleftrightarrow> rank_health a < rank_health b"

instance
proof
  fix a b c :: health
  show "a < b \<longleftrightarrow> a \<le> b \<and> \<not> b \<le> a" by (auto simp: less_eq_health_def less_health_def)
  show "a \<le> a" by (simp add: less_eq_health_def)
  show "a \<le> b \<Longrightarrow> b \<le> c \<Longrightarrow> a \<le> c" by (simp add: less_eq_health_def)
  show "a \<le> b \<Longrightarrow> b \<le> a \<Longrightarrow> a = b" by (cases a; cases b) (simp_all add: less_eq_health_def)
  show "a \<le> b \<or> b \<le> a" by (auto simp: less_eq_health_def)
qed

end

definition fresh :: "jsnum \<Rightarrow> status \<Rightarrow> bool" where
  "fresh now s = (opt_truthy (s_last_message s) \<and> now / Fin 1000 - nz (s_last_message s) < Fin 120)"

definition connection_state :: "jsnum \<Rightarrow> store \<Rightarrow> health \<times> string" where
  "connection_state now st =
     (let s = st_status st in
      if \<not> st_ws_connected st then (Bad, ''Server offline'')
      else if \<not> s_mqtt s then (Bad, ''MQTT disconnected'')
      else if \<not> fresh now s then (Warn, ''No data '' @ middot @ '' '' @ ago now (s_last_message s))
      else (Good, ''Live''))"

fun health_class :: "health \<Rightarrow> string" where
  "health_class Bad = ''bad''"
| "health_class Warn = ''warn''"
| "health_class Good = ''ok''"

definition connection_title :: "jsnum \<Rightarrow> store \<Rightarrow> string" where
  "connection_title now st =
     ''Broker '' @ (case s_broker (st_status st) of Some b \<Rightarrow> if b = [] then ''?'' else b | None \<Rightarrow> ''?'') @ '' '' @ middot @
     '' last update '' @ ago now (s_last_message (st_status st))"

section \<open>The theme\<close>

text \<open>\<open>root.dataset.theme\<close>, empty or missing until the first switch; \<open>prefers\<close> is the media query.\<close>

definition is_dark :: "bool \<Rightarrow> string option \<Rightarrow> bool" where
  "is_dark prefers theme = (case theme of Some t \<Rightarrow> if t = [] then prefers else t = ''dark'' | None \<Rightarrow> prefers)"

definition toggle_theme :: "bool \<Rightarrow> string option \<Rightarrow> string option" where
  "toggle_theme prefers theme = Some (if is_dark prefers theme then ''light'' else ''dark'')"

definition loading_html :: string where
  \<open>loading_html = ''<div class="grid overview-grid">'' @
     concat (replicate 6 ''<div class="card span-4 skeleton" style="height:120px"></div>'') @ ''</div>''\<close>

section \<open>The page\<close>

text \<open>
  The router with the states of the views, of the drawer and of the control listeners, which the overview, the settings
  and the drawer share. The settings view holds no resource and has no \<open>unmount\<close>. \<open>pm_numeric\<close> is the order of names that
  the settings use, \<open>pm_drawn\<close> the markup of the states in the drawer.
\<close>

record app =
  ap_router :: router
  ap_overview :: overview_view
  ap_history :: history_view
  ap_energy :: energy_view
  ap_settings :: settings_view
  ap_entities :: entities_view
  ap_drawer :: drawer
  ap_ctl :: ctl

record params =
  pm_loc :: locale_format
  pm_collation :: collation
  pm_numeric :: "string \<Rightarrow> string \<Rightarrow> bool"
  pm_zone :: zone
  pm_dates :: "date_style \<Rightarrow> int \<Rightarrow> string"
  pm_drawn :: "load_request \<Rightarrow> series \<Rightarrow> string"

definition counters_known :: "store \<Rightarrow> bool" where
  "counters_known st = (ent st (N K_energyIn) \<noteq> None \<and> ent st (N K_energyOut) \<noteq> None)"

definition leave_view :: "view option \<Rightarrow> app \<Rightarrow> app" where
  "leave_view v a =
     (case v of
        Some V_overview \<Rightarrow> a\<lparr> ap_overview := unmount_overview (ap_overview a) \<rparr>
      | Some V_history \<Rightarrow> a\<lparr> ap_history := unmount_history (ap_history a) \<rparr>
      | Some V_energy \<Rightarrow> a\<lparr> ap_energy := unmount_energy (ap_energy a) \<rparr>
      | Some V_entities \<Rightarrow> a\<lparr> ap_entities := unmount_entities (ap_entities a) \<rparr>
      | _ \<Rightarrow> a)"

definition enter_view :: "params \<Rightarrow> env \<Rightarrow> view option \<Rightarrow> app \<Rightarrow> app" where
  "enter_view pm en v a =
     (case v of
        Some V_overview \<Rightarrow>
          let (ov, c) = mount_overview (pm_loc pm) (fst (pm_collation pm)) (en_store en, en_now en) (ap_overview a, ap_ctl a)
          in a\<lparr> ap_overview := ov, ap_ctl := c \<rparr>
      | Some V_history \<Rightarrow> a\<lparr> ap_history := mount_history en (ap_history a) \<rparr>
      | Some V_energy \<Rightarrow> a\<lparr> ap_energy := mount_energy (pm_zone pm) (counters_known (en_store en), en_now en) (ap_energy a) \<rparr>
      | Some V_settings \<Rightarrow>
          a\<lparr> ap_settings := render_settings (pm_loc pm) (pm_numeric pm) (en_store en) (pending_value (ap_ctl a)) (ap_settings a) \<rparr>
      | Some V_entities \<Rightarrow> a\<lparr> ap_entities := mount_entities (pm_collation pm) (en_store en) (ap_entities a) \<rparr>
      | None \<Rightarrow> a)"

definition go :: "params \<Rightarrow> env \<Rightarrow> string \<Rightarrow> app \<Rightarrow> app" where
  "go pm en hash a =
     (let t = route (st_ready (en_store en)) hash (ap_router a);
          a = leave_view (tr_leave t) a
      in enter_view pm en (tr_enter t) (a\<lparr> ap_router := tr_router t \<rparr>))"

text \<open>
  The handlers of the overview and of the settings run on the state of the view and on that of the listeners.
  \<open>update_view\<close> is \<open>current?.update?.(ev)\<close>: \<open>Some\<close> entity for a state message, \<open>None\<close> for a snapshot. The
  history and the energy view have no \<open>update\<close>.
\<close>

definition on_overview :: "params \<Rightarrow> overview_event \<Rightarrow> app \<Rightarrow> app" where
  "on_overview pm e a =
     (let (v, c) = overview_step (pm_loc pm) (fst (pm_collation pm)) (ap_overview a, ap_ctl a) e
      in a\<lparr> ap_overview := v, ap_ctl := c \<rparr>)"

definition on_settings :: "params \<Rightarrow> settings_event \<Rightarrow> app \<Rightarrow> app" where
  "on_settings pm e a =
     (let (v, c) = settings_step (pm_loc pm) (pm_numeric pm) (ap_settings a, ap_ctl a) e
      in a\<lparr> ap_settings := v, ap_ctl := c \<rparr>)"

definition update_view :: "params \<Rightarrow> env \<Rightarrow> entity option \<Rightarrow> app \<Rightarrow> app" where
  "update_view pm en ev a =
     (case view_of (rt_current (ap_router a)) of
        Some V_overview \<Rightarrow> on_overview pm (Ov_update ev) a
      | Some V_settings \<Rightarrow>
          on_settings pm (case ev of Some e \<Rightarrow> Sv_state (en_store en) e | None \<Rightarrow> Sv_render (en_store en)) a
      | Some V_entities \<Rightarrow> a\<lparr> ap_entities := update_entities (ap_entities a) \<rparr>
      | _ \<Rightarrow> a)"

text \<open>
  The events: a hash change (which closes the drawer first), a snapshot (which routes only while there is
  no current view, and otherwise updates it), a state message (which updates the view and then refreshes the
  drawer), the events of the views and of the drawer, and those of the control listeners.
\<close>

datatype app_event =
    Ap_hash string env
  | Ap_snapshot string env
  | Ap_state env entity
  | Ap_overview overview_event
  | Ap_history history_event
  | Ap_energy energy_event
  | Ap_settings settings_event
  | Ap_entities entities_event
  | Ap_drawer drawer_event
  | Ap_control ctl_event

fun app_step :: "params \<Rightarrow> app \<Rightarrow> app_event \<Rightarrow> app" where
  "app_step pm a (Ap_hash hash en) = go pm en hash (a\<lparr> ap_drawer := close_drawer (ap_drawer a) \<rparr>)"
| "app_step pm a (Ap_snapshot hash en) = (if rt_current (ap_router a) = None then go pm en hash a else update_view pm en None a)"
| "app_step pm a (Ap_state en e) =
     (let a = update_view pm en (Some e) a
      in a\<lparr> ap_drawer := refresh_drawer (pm_loc pm) (Fin (of_int (en_now en))) (en_store en) (pending_value (ap_ctl a)) e (ap_drawer a) \<rparr>)"
| "app_step pm a (Ap_overview e) = on_overview pm e a"
| "app_step pm a (Ap_history e) = a\<lparr> ap_history := history_step (ap_history a) e \<rparr>"
| "app_step pm a (Ap_energy e) = a\<lparr> ap_energy := energy_step (pm_zone pm) (pm_dates pm) (ap_energy a) e \<rparr>"
| "app_step pm a (Ap_settings e) = on_settings pm e a"
| "app_step pm a (Ap_entities e) = a\<lparr> ap_entities := entities_step (pm_collation pm) (ap_entities a) e \<rparr>"
| "app_step pm a (Ap_drawer e) = a\<lparr> ap_drawer := drawer_step (pm_loc pm) (pm_drawn pm) (ap_drawer a) e \<rparr>"
| "app_step pm a (Ap_control e) = a\<lparr> ap_ctl := ctl_step (pm_loc pm) (ap_ctl a) e \<rparr>"

text \<open>
  A view gets events only while it is current, except for what comes late: the answers to its requests, and the
  renderings that the control listeners ask for after a command or a timer.
\<close>

definition current_view :: "app \<Rightarrow> view option" where
  "current_view a = view_of (rt_current (ap_router a))"

fun late_settings :: "settings_event \<Rightarrow> bool" where
  "late_settings (Sv_render st) = True"
| "late_settings e = False"

fun app_enabled :: "app \<Rightarrow> app_event \<Rightarrow> bool" where
  "app_enabled a (Ap_overview e) = (current_view a = Some V_overview \<or> late_overview e)"
| "app_enabled a (Ap_history e) = (current_view a = Some V_history \<or> late_history e)"
| "app_enabled a (Ap_energy e) = (current_view a = Some V_energy \<or> is_answer e)"
| "app_enabled a (Ap_settings e) = (current_view a = Some V_settings \<or> late_settings e)"
| "app_enabled a (Ap_entities e) = (current_view a = Some V_entities)"
| "app_enabled a (Ap_drawer e) = drawer_enabled (ap_drawer a) e"
| "app_enabled a (Ap_control e) = ctl_enabled (ap_ctl a) e"
| "app_enabled a e = True"

definition init_app :: "string list \<Rightarrow> app" where
  "init_app custom = \<lparr> ap_router = init_router, ap_overview = init_overview, ap_history = init_history custom,
     ap_energy = init_energy, ap_settings = init_settings, ap_entities = init_entities, ap_drawer = init_drawer, ap_ctl = init_ctl \<rparr>"

section \<open>Only the current view holds resources\<close>

definition all_idle :: "app \<Rightarrow> bool" where
  "all_idle a \<longleftrightarrow> overview_idle (ap_overview a) \<and> history_idle (ap_history a) \<and> energy_idle (ap_energy a) \<and> entities_idle (ap_entities a)"

definition app_ok :: "app \<Rightarrow> bool" where
  "app_ok a \<longleftrightarrow>
     (if current_view a = Some V_overview then overview_live (ap_overview a) else overview_idle (ap_overview a)) \<and>
     (if current_view a = Some V_history then history_live (ap_history a) else history_idle (ap_history a)) \<and>
     (if current_view a = Some V_energy then energy_live (ap_energy a) else energy_idle (ap_energy a)) \<and>
     (if current_view a = Some V_entities then entities_live (ap_entities a) else entities_idle (ap_entities a))"

lemma leave_all_idle: "app_ok a \<Longrightarrow> all_idle (leave_view (current_view a) a)"
  using overview_page.unmount_idle[of "(ap_overview a, ap_ctl a)"]
  by (auto simp: app_ok_def all_idle_def leave_view_def history_page.unmount_idle
      energy_page.unmount_idle entities_page.unmount_idle split: option.split view.split if_splits)

lemma enter_ok: "all_idle a \<Longrightarrow> current_view a = v \<Longrightarrow> app_ok (enter_view pm en v a)"
proof -
  assume a: "all_idle a" "current_view a = v"
  then have "overview_live (fst (mount_overview (pm_loc pm) (fst (pm_collation pm)) (en_store en, en_now en) (ap_overview a, ap_ctl a)))"
    by (intro overview_page.mount_live) (simp add: all_idle_def)
  then show ?thesis using a
    by (auto simp: app_ok_def all_idle_def enter_view_def current_view_def Let_def case_prod_beta history_page.mount_live
        energy_page.mount_live entities_page.mount_live split: option.split view.split)
qed

lemma router_of_leave [simp]: "ap_router (leave_view v a) = ap_router a"
  by (simp add: leave_view_def split: option.split view.split)

lemma all_idle_router [simp]: "all_idle (a\<lparr> ap_router := r \<rparr>) = all_idle a"
  by (simp add: all_idle_def)

lemma go_ok: "app_ok a \<Longrightarrow> app_ok (go pm en hash a)"
proof -
  assume ok: "app_ok a"
  let ?t = "route (st_ready (en_store en)) hash (ap_router a)"
  show ?thesis
  proof (cases "tr_router ?t = ap_router a \<and> tr_leave ?t = None \<and> tr_enter ?t = None")
    case True
    then show ?thesis using ok by (simp add: go_def Let_def leave_view_def enter_view_def)
  next
    case False
    then have t: "tr_leave ?t = current_view a" "tr_enter ?t = view_of (rt_current (tr_router ?t))"
      by (auto simp: route_def Let_def current_view_def split: if_splits)
    have "all_idle ((leave_view (tr_leave ?t) a)\<lparr> ap_router := tr_router ?t \<rparr>)"
      using leave_all_idle[OF ok] by (simp add: t(1))
    then show ?thesis unfolding go_def Let_def by (rule enter_ok) (simp add: t(2) current_view_def)
  qed
qed

lemma app_ok_others [simp]:
  "app_ok (a\<lparr> ap_drawer := d \<rparr>) = app_ok a" "app_ok (a\<lparr> ap_ctl := c \<rparr>) = app_ok a"
  "app_ok (on_settings pm se a) = app_ok a"
  by (simp_all add: app_ok_def current_view_def on_settings_def Let_def case_prod_beta)

lemma overview_ok: "app_ok a \<Longrightarrow> app_enabled a (Ap_overview e) \<Longrightarrow> app_ok (on_overview pm e a)"
proof -
  assume a: "app_ok a" "app_enabled a (Ap_overview e)"
  let ?v = "fst (overview_step (pm_loc pm) (fst (pm_collation pm)) (ap_overview a, ap_ctl a) e)"
  have "if current_view a = Some V_overview then overview_live ?v else overview_idle ?v"
    using a overview_page.step_live[of "(ap_overview a, ap_ctl a)"] overview_page.late_idle[of "(ap_overview a, ap_ctl a)" e]
    by (simp add: app_ok_def split: if_splits)
  then show ?thesis using a(1) by (simp add: app_ok_def current_view_def on_overview_def Let_def case_prod_beta)
qed

lemma update_view_ok: "app_ok a \<Longrightarrow> app_ok (update_view pm en ev a)"
  using overview_ok[of a "Ov_update ev" pm] entities_page.step_live[of "ap_entities a" undefined Nv_update]
  by (cases "current_view a"; cases "the (current_view a)")
    (auto simp: update_view_def app_ok_def[of "a\<lparr> ap_entities := v \<rparr>" for v] app_ok_def[of a] current_view_def)

lemma app_ok_step: "app_ok a \<Longrightarrow> app_enabled a e \<Longrightarrow> app_ok (app_step pm a e)"
proof (cases e)
  case (Ap_overview ev)
  assume "app_ok a" "app_enabled a e"
  then show ?thesis unfolding Ap_overview app_step.simps by (rule overview_ok)
next
  case (Ap_history ev)
  assume a: "app_ok a" "app_enabled a e"
  then have "if current_view a = Some V_history then history_live (history_step (ap_history a) ev)
    else history_idle (history_step (ap_history a) ev)"
    by (simp add: Ap_history app_ok_def history_page.step_live history_page.late_idle split: if_splits)
  then show ?thesis using a(1) by (simp add: Ap_history app_ok_def current_view_def)
next
  case (Ap_energy ev)
  assume a: "app_ok a" "app_enabled a e"
  then have "if current_view a = Some V_energy then energy_live (energy_step (pm_zone pm) (pm_dates pm) (ap_energy a) ev)
    else energy_idle (energy_step (pm_zone pm) (pm_dates pm) (ap_energy a) ev)"
    by (simp add: Ap_energy app_ok_def energy_page.step_live energy_page.late_idle split: if_splits)
  then show ?thesis using a(1) by (simp add: Ap_energy app_ok_def current_view_def)
next
  case (Ap_entities ev)
  assume "app_ok a" "app_enabled a e"
  then show ?thesis by (simp add: Ap_entities app_ok_def current_view_def entities_page.step_live)
qed (simp_all add: go_ok update_view_ok Let_def)

interpretation app_run: machine "app_step pm" app_enabled app_ok
  by unfold_locales (rule app_ok_step)

section \<open>Properties\<close>

text \<open>
  A run in which no answer for custom charts comes while the history page is not on show leaves no custom chart behind.
\<close>

fun in_time :: "app \<Rightarrow> app_event \<Rightarrow> bool" where
  "in_time a (Ap_history e) = (current_view a = Some V_history \<or> \<not> draws_custom e)"
| "in_time a e = True"

definition no_custom_left :: "app \<Rightarrow> bool" where
  "no_custom_left a \<longleftrightarrow> (current_view a \<noteq> Some V_history \<longrightarrow> hv_custom_charts (ap_history a) = [])"

lemma history_kept [simp]:
  "ap_history (on_overview pm oe a) = ap_history a" "ap_history (on_settings pm se a) = ap_history a"
  "ap_history (update_view pm en ev a) = ap_history a"
  "ap_router (on_overview pm oe a) = ap_router a" "ap_router (on_settings pm se a) = ap_router a"
  "ap_router (update_view pm en ev a) = ap_router a"
  by (simp_all add: on_overview_def on_settings_def update_view_def Let_def case_prod_beta split: option.split view.split)

lemma enter_kept [simp]:
  "ap_router (enter_view pm en v a) = ap_router a" "ap_drawer (enter_view pm en v a) = ap_drawer a"
  "ap_drawer (leave_view v a) = ap_drawer a" "ap_settings (leave_view v a) = ap_settings a"
  by (simp_all add: enter_view_def leave_view_def Let_def case_prod_beta split: option.split view.split)

lemma enter_other:
  "v \<noteq> Some V_overview \<Longrightarrow> ap_overview (enter_view pm en v a) = ap_overview a"
  "v \<noteq> Some V_history \<Longrightarrow> ap_history (enter_view pm en v a) = ap_history a"
  "v \<noteq> Some V_energy \<Longrightarrow> ap_energy (enter_view pm en v a) = ap_energy a"
  "v \<noteq> Some V_entities \<Longrightarrow> ap_entities (enter_view pm en v a) = ap_entities a"
  "v \<noteq> Some V_settings \<Longrightarrow> ap_settings (enter_view pm en v a) = ap_settings a"
  by (simp_all add: enter_view_def Let_def case_prod_beta split: option.split view.split)

lemma go_custom: "no_custom_left a \<Longrightarrow> no_custom_left (go pm en hash a)"
proof -
  assume a: "no_custom_left a"
  let ?t = "route (st_ready (en_store en)) hash (ap_router a)"
  show ?thesis
  proof (cases "tr_router ?t = ap_router a \<and> tr_leave ?t = None \<and> tr_enter ?t = None")
    case True
    then show ?thesis using a by (simp add: go_def Let_def leave_view_def enter_view_def)
  next
    case False
    then have t: "tr_leave ?t = current_view a" "tr_enter ?t = view_of (rt_current (tr_router ?t))"
      by (auto simp: route_def Let_def current_view_def split: if_splits)
    have "hv_custom_charts (ap_history (leave_view (current_view a) a)) = []"
      using a by (auto simp: no_custom_left_def leave_view_def split: option.split view.split)
    then show ?thesis by (simp add: no_custom_left_def go_def Let_def t current_view_def enter_other)
  qed
qed

interpretation custom_run: machine "app_step pm" "\<lambda>a e. app_enabled a e \<and> in_time a e" no_custom_left for pm
proof unfold_locales
  fix a e assume a: "no_custom_left a" "app_enabled a e \<and> in_time a e"
  show "no_custom_left (app_step pm a e)"
  proof (cases e)
    case (Ap_hash hash en)
    have "no_custom_left (a\<lparr> ap_drawer := d \<rparr>)" for d using a(1) by (simp add: no_custom_left_def current_view_def)
    then show ?thesis by (simp add: Ap_hash go_custom)
  next
    case (Ap_history ev)
    then show ?thesis using a late_history_charts(2)[of ev "ap_history a"]
      by (auto simp: no_custom_left_def current_view_def)
  qed (use a in \<open>simp_all add: go_custom, simp_all add: no_custom_left_def current_view_def Let_def\<close>)
qed

text \<open>
  C4: whatever routes, messages, clicks, frames, ticks and answers come in whatever order, late answers included, a
  view that is not on show holds no running interval, no pending frame and no chart, except for what the history page
  leaks: each chart it created is destroyed or is one of its custom charts, and those are there only if an answer
  for custom charts came while the page was not on show.
\<close>

theorem only_current_view_live:
  assumes "enabled_run app_enabled (app_step pm) (init_app custom) es" "a = run (app_step pm) (init_app custom) es"
  shows "(current_view a \<noteq> Some V_overview \<longrightarrow>
       iv_running (ov_intervals (ap_overview a)) = [] \<and> ov_frames (ap_overview a) = [] \<and>
       ov_destroyed (ap_overview a) = [0..<ov_created (ap_overview a)]) \<and>
    (current_view a \<noteq> Some V_history \<longrightarrow>
       iv_running (hv_intervals (ap_history a)) = [] \<and> hv_charts (ap_history a) = [] \<and>
       mset (hv_destroyed (ap_history a)) + mset (hv_custom_charts (ap_history a)) = mset [0..<hv_created (ap_history a)] \<and>
       (enabled_run (\<lambda>a e. app_enabled a e \<and> in_time a e) (app_step pm) (init_app custom) es \<longrightarrow>
          hv_custom_charts (ap_history a) = [])) \<and>
    (current_view a \<noteq> Some V_energy \<longrightarrow> iv_running (ev_intervals (ap_energy a)) = []) \<and>
    (current_view a \<noteq> Some V_entities \<longrightarrow> nv_frames (ap_entities a) = [])"
proof -
  have "app_ok (init_app custom)"
    by (simp add: app_ok_def init_app_def current_view_def init_router_def view_of_def overview_idle_def init_overview_def
        history_idle_def charts_accounted_def init_history_def energy_idle_def init_energy_def entities_idle_def init_entities_def
        no_intervals_def)
  then have ok: "app_ok a" unfolding assms(2) using assms(1) by (rule app_run.inv_run)
  have "no_custom_left (init_app custom)" by (simp add: no_custom_left_def init_app_def init_history_def)
  then have left: "enabled_run (\<lambda>a e. app_enabled a e \<and> in_time a e) (app_step pm) (init_app custom) es \<Longrightarrow> no_custom_left a"
    unfolding assms(2) by (rule custom_run.inv_run)
  have "current_view a \<noteq> Some V_history \<Longrightarrow> history_idle (ap_history a)" using ok by (simp add: app_ok_def)
  then have "current_view a \<noteq> Some V_history \<Longrightarrow>
      iv_running (hv_intervals (ap_history a)) = [] \<and> hv_charts (ap_history a) = [] \<and>
      mset (hv_destroyed (ap_history a)) + mset (hv_custom_charts (ap_history a)) = mset [0..<hv_created (ap_history a)]"
    by (auto simp: history_idle_def charts_accounted_def)
  with ok left show ?thesis
    by (auto simp: app_ok_def no_custom_left_def overview_idle_def energy_idle_def entities_idle_def)
qed

definition sample_params :: params where
  "sample_params = \<lparr> pm_loc = plain_format, pm_collation = (\<lambda>_ _. True, \<lambda>_ _. True), pm_numeric = \<lambda>_ _. True,
     pm_zone = shifted_zone 0, pm_dates = \<lambda>s t. [], pm_drawn = \<lambda>r s. [] \<rparr>"

definition ready_env :: env where
  "ready_env = \<lparr> en_store = init_store\<lparr> st_ready := True \<rparr>, en_now = 0, en_width = Fin 900 \<rparr>"

definition started :: app where
  "started = go sample_params ready_env [] (init_app [])"

lemma started: "current_view started = Some V_overview" "rt_name (ap_router started) = Some ''overview''"
proof -
  have "target_of (route_name []) = View V_overview" "route_name [] = ''overview''"
    by (simp_all add: target_of_def route_name_def views_def)
  then show "current_view started = Some V_overview" "rt_name (ap_router started) = Some ''overview''"
    by (simp_all add: started_def go_def route_def Let_def init_app_def init_router_def ready_env_def view_of_def
        current_view_def)
qed

text \<open>Overview, history, energy, and then two answers to requests of the history page.\<close>

definition sample_tour :: "app_event list" where
  "sample_tour = [Ap_snapshot [] ready_env, Ap_overview (Ov_update None), Ap_hash ''#history'' ready_env,
     Ap_hash ''#energy'' ready_env, Ap_history (Hi_answer 0 ready_env), Ap_history (Hi_custom_answer 1 True),
     Ap_overview (Ov_answer 0 None init_store)]"

definition toured :: app where
  "toured = run (app_step sample_params) (init_app []) sample_tour"

lemma go_energy:
  assumes "rt_name (ap_router a) \<noteq> Some ''energy''"
  shows "current_view (go sample_params ready_env ''#energy'' a) = Some V_energy"
proof -
  have "route_name ''#energy'' = ''energy''" "target_of ''energy'' = View V_energy"
    by (simp_all add: target_of_def route_name_def views_def)
  then show ?thesis using assms by (simp add: go_def Let_def route_def ready_env_def current_view_def view_of_def)
qed

lemma go_name:
  assumes "rt_name (ap_router a) \<noteq> Some ''history''"
  shows "rt_name (ap_router (go sample_params ready_env ''#history'' a)) = Some ''history''"
proof -
  have "route_name ''#history'' = ''history''" by (simp add: route_name_def)
  then show ?thesis using assms by (simp add: go_def Let_def route_def ready_env_def)
qed

lemma toured: "enabled_run app_enabled (app_step sample_params) (init_app []) sample_tour" "current_view toured = Some V_energy"
proof -
  have r: "rt_current (ap_router (init_app [])) = None" by (simp add: init_app_def init_router_def)
  then show "enabled_run app_enabled (app_step sample_params) (init_app []) sample_tour"
    using started(1) by (simp add: sample_tour_def started_def)
  let ?h = "go sample_params ready_env ''#history'' ((on_overview sample_params (Ov_update None) started)\<lparr> ap_drawer :=
     close_drawer (ap_drawer (on_overview sample_params (Ov_update None) started)) \<rparr>)"
  have "rt_name (ap_router ?h) = Some ''history''" by (rule go_name) (simp add: started(2))
  then have "current_view (go sample_params ready_env ''#energy'' (?h\<lparr> ap_drawer := d \<rparr>)) = Some V_energy" for d
    by (intro go_energy) simp
  then show "current_view toured = Some V_energy"
    using r by (simp add: toured_def sample_tour_def started_def[symmetric] current_view_def)
qed

theorem only_current_view_live_witness:
  "iv_running (ov_intervals (ap_overview toured)) = [] \<and> ov_frames (ap_overview toured) = [] \<and>
   ov_destroyed (ap_overview toured) = [0..<ov_created (ap_overview toured)] \<and>
   iv_running (hv_intervals (ap_history toured)) = [] \<and> hv_charts (ap_history toured) = []"
  using only_current_view_live[OF toured(1) toured_def] by (simp add: toured(2))

lemma route_name_hash:
  assumes "CHR ''?'' \<notin> set name" "name \<noteq> []" "query = [] \<or> hd query = CHR ''?''"
  shows "route_name (CHR ''#'' # name @ query) = name"
proof -
  have "\<And>c. c \<in> set name \<Longrightarrow> c \<noteq> CHR ''?''" using assms(1) by auto
  then have "takeWhile (\<lambda>c. c \<noteq> CHR ''?'') (name @ query) = name @ takeWhile (\<lambda>c. c \<noteq> CHR ''?'') query"
    by (rule takeWhile_append2)
  then have "takeWhile (\<lambda>c. c \<noteq> CHR ''?'') (name @ query) = name"
    using assms(3) by (cases query) simp_all
  then show ?thesis using assms(2) by (simp add: route_name_def Let_def)
qed

text \<open>What a route to another page does: the view on show is left, the others but the new one are as before.\<close>

definition left_states :: "app \<Rightarrow> app \<Rightarrow> bool" where
  "left_states a b \<longleftrightarrow>
     (current_view b \<noteq> Some V_overview \<longrightarrow>
        ap_overview b = (if current_view a = Some V_overview then unmount_overview (ap_overview a) else ap_overview a)) \<and>
     (current_view b \<noteq> Some V_history \<longrightarrow>
        ap_history b = (if current_view a = Some V_history then unmount_history (ap_history a) else ap_history a)) \<and>
     (current_view b \<noteq> Some V_energy \<longrightarrow>
        ap_energy b = (if current_view a = Some V_energy then unmount_energy (ap_energy a) else ap_energy a)) \<and>
     (current_view b \<noteq> Some V_entities \<longrightarrow>
        ap_entities b = (if current_view a = Some V_entities then unmount_entities (ap_entities a) else ap_entities a)) \<and>
     (current_view b \<noteq> Some V_settings \<longrightarrow> ap_settings b = ap_settings a)"

lemma leave_each:
  "ap_overview (leave_view v a) = (if v = Some V_overview then unmount_overview (ap_overview a) else ap_overview a)"
  "ap_history (leave_view v a) = (if v = Some V_history then unmount_history (ap_history a) else ap_history a)"
  "ap_energy (leave_view v a) = (if v = Some V_energy then unmount_energy (ap_energy a) else ap_energy a)"
  "ap_entities (leave_view v a) = (if v = Some V_entities then unmount_entities (ap_entities a) else ap_entities a)"
  by (simp_all add: leave_view_def split: option.split view.split)

lemma go_switch:
  assumes "st_ready (en_store en)" "rt_current (ap_router a) = None \<or> rt_name (ap_router a) \<noteq> Some (route_name hash)"
  shows "current_view (go pm en hash a) = view_of (Some (target_of (route_name hash)))"
    and "rt_name (ap_router (go pm en hash a)) = Some (route_name hash)" and "left_states a (go pm en hash a)"
    and "ap_drawer (go pm en hash a) = ap_drawer a"
proof -
  let ?t = "route True hash (ap_router a)"
  have t: "tr_leave ?t = current_view a" "tr_enter ?t = view_of (Some (target_of (route_name hash)))"
    "rt_current (tr_router ?t) = Some (target_of (route_name hash))" "rt_name (tr_router ?t) = Some (route_name hash)"
    using assms(2) by (auto simp: route_def Let_def current_view_def)
  show "current_view (go pm en hash a) = view_of (Some (target_of (route_name hash)))"
    "rt_name (ap_router (go pm en hash a)) = Some (route_name hash)" "ap_drawer (go pm en hash a) = ap_drawer a"
    using assms(1) by (simp_all add: go_def Let_def t current_view_def)
  then show "left_states a (go pm en hash a)"
    using assms(1) by (simp add: left_states_def go_def Let_def t enter_other leave_each)
qed

lemma inherited_no_view: "name \<in> set inherited \<Longrightarrow> map_of views name = None"
  by (auto simp: inherited_def views_def)

lemma route_name_cases:
  assumes "hash = [] \<or> hd hash = CHR ''#''"
  shows "if hash = [] \<or> hash = ''#'' then route_name hash = ''overview''
    else \<exists>q. hash = CHR ''#'' # route_name hash @ q \<and> CHR ''?'' \<notin> set (route_name hash) \<and> (q = [] \<or> hd q = CHR ''?'')"
proof -
  let ?P = "\<lambda>c. c \<noteq> CHR ''?''"
  show ?thesis
  proof (cases "hash = [] \<or> hash = ''#''")
    case True
    then show ?thesis by (auto simp: route_name_def)
  next
    case False
    then obtain t where t: "hash = CHR ''#'' # t" "t \<noteq> []" using assms by (cases hash) auto
    have n: "route_name hash = takeWhile ?P t" using t by (simp add: route_name_def)
    have "hash = CHR ''#'' # takeWhile ?P t @ dropWhile ?P t" by (simp add: t(1))
    moreover have "CHR ''?'' \<notin> set (takeWhile ?P t)" by (auto dest: set_takeWhileD)
    moreover have "dropWhile ?P t = [] \<or> hd (dropWhile ?P t) = CHR ''?''" using hd_dropWhile[of ?P t] by blast
    ultimately show ?thesis unfolding if_not_P[OF False] n by blast
  qed
qed



text \<open>
  C39: a hash that names an inherited property of objects, like "#constructor", blanks the page: the view on show,
  whichever it is, is unmounted, the call of \<open>mount\<close> throws, and no view is mounted in its place.
\<close>

theorem inherited_name_blanks_page:
  assumes "name \<in> set inherited" "st_ready (en_store en)" "rt_name (ap_router a) \<noteq> Some name"
    and "b = app_step pm a (Ap_hash (CHR ''#'' # name) en)"
  shows "tr_throws (route True (CHR ''#'' # name) (ap_router a)) \<and> current_view b = None \<and> rt_title (ap_router b) = [] \<and>
    ap_overview b = (if current_view a = Some V_overview then unmount_overview (ap_overview a) else ap_overview a) \<and>
    ap_history b = (if current_view a = Some V_history then unmount_history (ap_history a) else ap_history a) \<and>
    ap_energy b = (if current_view a = Some V_energy then unmount_energy (ap_energy a) else ap_energy a) \<and>
    ap_entities b = (if current_view a = Some V_entities then unmount_entities (ap_entities a) else ap_entities a) \<and>
    ap_settings b = ap_settings a"
proof -
  have n: "CHR ''?'' \<notin> set name" "name \<noteq> []"
    using assms(1) by (auto simp: inherited_def)
  have r: "route_name (CHR ''#'' # name) = name" using route_name_hash[OF n, of "[]"] by simp
  have t: "target_of name = Inherited name" using assms(1) inherited_no_view[OF assms(1)] by (simp add: target_of_def)
  let ?a = "a\<lparr> ap_drawer := close_drawer (ap_drawer a) \<rparr>"
  have b: "b = go pm en (CHR ''#'' # name) ?a" by (simp add: assms(4))
  have "rt_current (ap_router ?a) = None \<or> rt_name (ap_router ?a) \<noteq> Some (route_name (CHR ''#'' # name))"
    using assms(3) by (simp add: r)
  note go = go_switch[OF assms(2) this, of pm, unfolded r t]
  have "tr_throws (route True (CHR ''#'' # name) (ap_router a))" "rt_title (ap_router b) = []"
    using assms(2,3) by (simp_all add: b go_def Let_def route_def r t view_of_def)
  then show ?thesis using go(1,3) by (simp add: b left_states_def current_view_def view_of_def)
qed

theorem inherited_name_blanks_page_witness:
  "tr_throws (route True (CHR ''#'' # ''constructor'') (ap_router started)) \<and>
   current_view (app_step sample_params started (Ap_hash (CHR ''#'' # ''constructor'') ready_env)) = None \<and>
   ap_overview (app_step sample_params started (Ap_hash (CHR ''#'' # ''constructor'') ready_env)) =
     unmount_overview (ap_overview started)"
  using inherited_name_blanks_page[of "''constructor''" ready_env started, OF _ _ _ refl, of sample_params]
  by (simp add: inherited_def ready_env_def started)

lemma fresh_antimono:
  assumes "bounded 1000000000000000 (Fin t)" "bounded 1000000000000000 (Fin u)" "t \<le> u" "fresh (Fin u) s"
  shows "fresh (Fin t) s"
proof -
  obtain l where l: "s_last_message s = Some l" "num_truthy l" using assms(4) by (cases "s_last_message s") (auto simp: fresh_def)
  have "Fin t / Fin 1000 = Fin (rnd (t / 1000))" "Fin u / Fin 1000 = Fin (rnd (u / 1000))"
    using assms(1,2) by (simp_all add: fl_small abs_divide divide_le_eq)
  moreover have "rnd (t / 1000) \<le> rnd (u / 1000)" using assms(3) by (intro rnd_mono) (simp add: divide_right_mono)
  ultimately have "Fin t / Fin 1000 - l \<le> Fin u / Fin 1000 - l \<or> Fin u / Fin 1000 - l = NaN"
    by (cases l) (auto simp: minus_jsnum_def intro: fl_mono)
  moreover have "Fin u / Fin 1000 - l < Fin 120" using assms(4) l by (simp add: fresh_def)
  ultimately have "Fin t / Fin 1000 - l < Fin 120"
    by (cases "Fin t / Fin 1000 - l"; cases "Fin u / Fin 1000 - l") auto
  then show ?thesis using l by (simp add: fresh_def)
qed

text \<open>
  Without a new message the connection indicator never improves: as time passes its class stays or gets worse,
  and it says "Live" only if the socket and MQTT are up and the last message is less than two minutes old.
\<close>

theorem indicator_never_improves:
  assumes "bounded 1000000000000000 (Fin t)" "bounded 1000000000000000 (Fin u)" "t \<le> u"
  shows "fst (connection_state (Fin u) st) \<le> fst (connection_state (Fin t) st) \<and>
    (fst (connection_state (Fin u) st) = Good \<longleftrightarrow>
       st_ws_connected st \<and> s_mqtt (st_status st) \<and> fresh (Fin u) (st_status st))"
  using fresh_antimono[OF assms] by (auto simp: connection_state_def Let_def less_eq_health_def)

theorem indicator_never_improves_witness:
  "fst (connection_state (Fin 200000) init_store) \<le> fst (connection_state (Fin 100000) init_store) \<and>
   (fst (connection_state (Fin 200000) init_store) = Good \<longleftrightarrow>
      st_ws_connected init_store \<and> s_mqtt (st_status init_store) \<and> fresh (Fin 200000) (st_status init_store))"
  by (rule indicator_never_improves) simp_all

end
