(* ===== verification/Plots.thy ===== *)
theory Plots
  imports LineChart BarChart
begin

text \<open>
  A line chart of \<open>charts.js\<close> with what it hands to the plotting library: the options of a plot, the \<open>setSelect\<close> hook
  that reports a zoom, the tooltip of each plot and the legend, all driven by the machine of LineChart, and the hover
  listeners of the bar chart. The page (style sheet, sizes of elements) is an input of every event. \<open>intl opts t\<close>
  stands for \<open>toLocaleString\<close> of a date with an options object.
\<close>

section \<open>Times\<close>

type_synonym date_options = "(string \<times> string) list"
type_synonym intl = "date_options \<Rightarrow> jsnum \<Rightarrow> string"

definition date_time :: "intl \<Rightarrow> jsnum \<Rightarrow> bool \<Rightarrow> string" where
  "date_time intl ts with_seconds =
     intl ([(''month'', ''short''), (''day'', ''numeric''), (''hour'', ''2-digit''), (''minute'', ''2-digit'')] @
           (if with_seconds then [(''second'', ''2-digit'')] else []))
       (ts * Fin 1000)"

definition day_text :: "intl \<Rightarrow> jsnum \<Rightarrow> string" where
  "day_text intl ts = intl [(''weekday'', ''short''), (''month'', ''short''), (''day'', ''numeric'')] (ts * Fin 1000)"

definition fmt_time :: "intl \<Rightarrow> jsnum \<Rightarrow> string" where
  "fmt_time intl ts =
     intl [(''weekday'', ''short''), (''month'', ''short''), (''day'', ''numeric''), (''hour'', ''2-digit''), (''minute'', ''2-digit'')]
       (ts * Fin 1000)"

definition axis_time :: "intl \<Rightarrow> bool \<Rightarrow> jsnum \<Rightarrow> string" where
  "axis_time intl days ts =
     intl (if days then [(''month'', ''short''), (''day'', ''numeric'')] else [(''hour'', ''2-digit''), (''minute'', ''2-digit'')])
       (ts * Fin 1000)"

definition segment_time :: "intl \<Rightarrow> jsnum \<Rightarrow> string" where
  "segment_time intl ts = intl [] (ts * Fin 1000)"

section \<open>The zoom hook\<close>

record selection =
  sel_left :: jsnum
  sel_width :: jsnum
  sel_height :: jsnum

text \<open>\<open>pos_to_val\<close> is \<open>posToVal\<close> of the plot for its x axis; the second component is the call of \<open>onZoom\<close>.\<close>

definition set_select :: "(jsnum \<Rightarrow> jsnum) \<Rightarrow> selection \<Rightarrow> selection \<times> (jsnum \<times> jsnum) option" where
  "set_select pos_to_val s =
     (if sel_width s < Fin 5 then (s, None)
      else (s\<lparr> sel_width := Fin 0, sel_height := Fin 0 \<rparr>,
            Some (pos_to_val (sel_left s), pos_to_val (sel_left s + sel_width s))))"

section \<open>Options of a plot\<close>

record page =
  pg_css :: "string \<Rightarrow> string"
  pg_plot_width :: jsnum
  pg_width :: jsnum

record chart_args =
  ca_series :: "line_series list"
  ca_stepped :: "nat set"
  ca_height :: jsnum
  ca_unit :: string
  ca_fill :: bool
  ca_range :: "(jsnum \<times> jsnum) option"
  ca_legend :: bool
  ca_zooms :: bool

text \<open>The defaults of the parameters.\<close>

definition default_args :: "line_series list \<Rightarrow> chart_args" where
  "default_args series = \<lparr> ca_series = series, ca_stepped = {}, ca_height = Fin 240, ca_unit = [], ca_fill = (length series = 1),
     ca_range = None, ca_legend = (1 < length series), ca_zooms = False \<rparr>"

record gradient =
  gr_from :: jsnum
  gr_to :: jsnum
  gr_stops :: "(nat \<times> string) list"

record line_style =
  st_label :: string
  st_stroke :: string
  st_width :: nat
  st_show :: bool
  st_span_gaps :: bool
  st_fill_to :: "jsnum \<Rightarrow> jsnum"
  st_points :: bool
  st_stepped :: bool
  st_fill :: "(jsnum \<Rightarrow> jsnum \<Rightarrow> gradient) option"

definition line_fill :: "(string \<Rightarrow> string) \<Rightarrow> string \<Rightarrow> jsnum \<Rightarrow> jsnum \<Rightarrow> gradient" where
  "line_fill css color y hgt =
     \<lparr> gr_from = y, gr_to = y + hgt, gr_stops = [(0, css color @ ''40''), (1, css color @ ''00'')] \<rparr>"

definition line_style :: "page \<Rightarrow> chart_args \<Rightarrow> nat list \<Rightarrow> nat \<Rightarrow> line_style" where
  "line_style pg args hidden i =
     (let s = ca_series args ! i in
      \<lparr> st_label = ls_label s, st_stroke = pg_css pg (ls_color s), st_width = 2, st_show = (i \<notin> set hidden),
        st_span_gaps = False, st_fill_to = (\<lambda>y_min. y_min), st_points = False, st_stepped = (i \<in> ca_stepped args),
        st_fill = (if ca_fill args then Some (line_fill (pg_css pg) (ls_color s)) else None) \<rparr>)"

record plot_options =
  op_width :: jsnum
  op_height :: jsnum
  op_padding :: "nat list"
  op_drag_x :: bool
  op_drag_y :: bool
  op_points :: "nat \<times> nat \<times> string"
  op_select :: bool
  op_legend :: bool
  op_time :: bool
  op_y_range :: "(jsnum \<times> jsnum) option"
  op_axis_stroke :: string
  op_grid :: "string \<times> nat"
  op_ticks :: bool
  op_font :: string
  op_x_space :: nat
  op_y_size :: nat
  op_y_values :: "jsnum list \<Rightarrow> string list"
  op_series :: "line_style list"
  op_zoom_hook :: bool

definition plot_options :: "locale_format \<Rightarrow> page \<Rightarrow> chart_args \<Rightarrow> nat list \<Rightarrow> plot_options" where
  "plot_options loc pg args hidden =
     \<lparr> op_width = jmax (Fin 200) (num_or (Some (pg_plot_width pg)) (pg_width pg)), op_height = ca_height args,
       op_padding = [8, 4, 0, 0], op_drag_x = ca_zooms args, op_drag_y = False,
       op_points = (8, 2, pg_css pg ''--surface''), op_select = ca_zooms args, op_legend = False, op_time = True,
       op_y_range = ca_range args, op_axis_stroke = pg_css pg ''--axis'', op_grid = (pg_css pg ''--grid'', 1), op_ticks = False,
       op_font = ''11px '' @ pg_css pg ''--font'', op_x_space = 70, op_y_size = 54,
       op_y_values = axis_values loc (ca_unit args),
       op_series = map (line_style pg args hidden) [0..<length (ca_series args)], op_zoom_hook = ca_zooms args \<rparr>"

section \<open>The chart on the page\<close>

text \<open>
  \<open>lv_chart\<close> is the state of LineChart; \<open>lv_plot\<close> are the options of the live plot as changed by \<open>setSeries\<close> and
  \<open>setSize\<close>, \<open>lv_tip\<close> its tooltip, \<open>lv_legend\<close> the markup of the legend element.
\<close>

type_synonym data = "jsnum list \<times> jsnum option list list"

record live =
  lv_chart :: "data chart"
  lv_legend :: string
  lv_plot :: "plot_options option"
  lv_tip :: tooltip

definition new_tip :: tooltip where
  "new_tip = \<lparr> tip_hidden = True, tip_html = [], tip_left = Fin 0, tip_top = Fin 0, tip_flipped = False \<rparr>"

definition new_live :: "chart_args \<Rightarrow> live" where
  "new_live args = \<lparr> lv_chart = new_chart (length (ca_series args)), lv_legend = [], lv_plot = None, lv_tip = new_tip \<rparr>"

definition render_legend :: "page \<Rightarrow> chart_args \<Rightarrow> live \<Rightarrow> live" where
  "render_legend pg args l = l\<lparr> lv_legend := legend_html (pg_css pg) (ch_hidden (lv_chart l)) (ca_series args) \<rparr>"

definition points_of :: "data \<Rightarrow> nat" where
  "points_of d = length (fst d)"

text \<open>The end of \<open>build\<close>: a new plot with a new, hidden tooltip, or the notice that there are no data.\<close>

definition draw_plot :: "locale_format \<Rightarrow> page \<Rightarrow> chart_args \<Rightarrow> live \<Rightarrow> live" where
  "draw_plot loc pg args l =
     (case ch_plot (lv_chart l) of
        None \<Rightarrow> l\<lparr> lv_plot := None \<rparr>
      | Some u \<Rightarrow> l\<lparr> lv_plot := Some (plot_options loc pg args (ch_hidden (lv_chart l))), lv_tip := new_tip \<rparr>)"

definition repaint :: "locale_format \<Rightarrow> page \<Rightarrow> chart_args \<Rightarrow> live \<Rightarrow> live" where
  "repaint loc pg args l = draw_plot loc pg args (if ca_legend args then render_legend pg args l else l)"

definition show_series :: "nat \<Rightarrow> bool \<Rightarrow> plot_options \<Rightarrow> plot_options" where
  "show_series i b p = p\<lparr> op_series := (op_series p)[i := (op_series p ! i)\<lparr> st_show := b \<rparr>] \<rparr>"

definition legend_click :: "page \<Rightarrow> chart_args \<Rightarrow> nat \<Rightarrow> live \<Rightarrow> live" where
  "legend_click pg args i l =
     (let c = toggle_series i (lv_chart l)
      in render_legend pg args (l\<lparr> lv_chart := c, lv_plot := map_option (show_series i (i \<notin> set (ch_hidden c))) (lv_plot l) \<rparr>))"

definition resize_plot :: "page \<Rightarrow> chart_args \<Rightarrow> live \<Rightarrow> live" where
  "resize_plot pg args l = l\<lparr> lv_plot := map_option (\<lambda>p. p\<lparr> op_width := pg_plot_width pg, op_height := ca_height args \<rparr>) (lv_plot l) \<rparr>"

definition move_cursor :: "locale_format \<Rightarrow> intl \<Rightarrow> page \<Rightarrow> chart_args \<Rightarrow> jsnum \<Rightarrow> jsnum \<Rightarrow> jsnum \<Rightarrow> jsnum \<Rightarrow> nat option \<Rightarrow> live \<Rightarrow> live" where
  "move_cursor loc intl pg args w hgt left y idx l =
     (case (lv_plot l, ch_data (lv_chart l)) of
        (Some p, Some d) \<Rightarrow>
          l\<lparr> lv_tip := set_cursor loc (pg_css pg) (fmt_time intl) (ca_series args) (map st_show (op_series p)) (fst d) (snd d)
                w hgt left y idx (lv_tip l) \<rparr>
      | _ \<Rightarrow> l)"

definition leave_plot :: "live \<Rightarrow> live" where
  "leave_plot l = l\<lparr> lv_tip := (lv_tip l)\<lparr> tip_hidden := True \<rparr> \<rparr>"

datatype live_event =
    Lv_data page "data_table list"
  | Lv_theme page
  | Lv_click page nat
  | Lv_resize page
  | Lv_cursor page jsnum jsnum jsnum jsnum "nat option"
  | Lv_leave

fun live_step :: "(data_table list \<Rightarrow> data) \<Rightarrow> locale_format \<Rightarrow> intl \<Rightarrow> chart_args \<Rightarrow> live \<Rightarrow> live_event \<Rightarrow> live" where
  "live_step uplot_join loc intl args l (Lv_data pg ts) =
     repaint loc pg args (l\<lparr> lv_chart := set_data uplot_join points_of ts (lv_chart l) \<rparr>)"
| "live_step uplot_join loc intl args l (Lv_theme pg) =
     (if ch_registered (lv_chart l) then repaint loc pg args (l\<lparr> lv_chart := theme_change points_of (lv_chart l) \<rparr>) else l)"
| "live_step uplot_join loc intl args l (Lv_click pg i) = legend_click pg args i l"
| "live_step uplot_join loc intl args l (Lv_resize pg) = resize_plot pg args l"
| "live_step uplot_join loc intl args l (Lv_cursor pg w hgt left y idx) = move_cursor loc intl pg args w hgt left y idx l"
| "live_step uplot_join loc intl args l Lv_leave = leave_plot l"

fun live_enabled :: "chart_args \<Rightarrow> live \<Rightarrow> live_event \<Rightarrow> bool" where
  "live_enabled args l (Lv_click pg i) = (ca_legend args \<and> i < length (ca_series args))"
| "live_enabled args l e = True"

section \<open>Refinement of the machine of LineChart\<close>

text \<open>The events of LineChart behind those of the page, and the style sheet of the last time the legend was drawn.\<close>

fun chart_events :: "live_event list \<Rightarrow> chart_event list" where
  "chart_events [] = []"
| "chart_events (Lv_data pg ts # es) = Ch_data ts # chart_events es"
| "chart_events (Lv_theme pg # es) = Ch_theme # chart_events es"
| "chart_events (Lv_click pg i # es) = Ch_toggle i # chart_events es"
| "chart_events (e # es) = chart_events es"

fun last_css :: "(string \<Rightarrow> string) option \<Rightarrow> live_event list \<Rightarrow> (string \<Rightarrow> string) option" where
  "last_css c [] = c"
| "last_css c (Lv_data pg ts # es) = last_css (Some (pg_css pg)) es"
| "last_css c (Lv_theme pg # es) = last_css (Some (pg_css pg)) es"
| "last_css c (Lv_click pg i # es) = last_css (Some (pg_css pg)) es"
| "last_css c (e # es) = last_css c es"

lemma repaint_chart [simp]: "lv_chart (repaint loc pg args l) = lv_chart l"
  by (simp add: repaint_def draw_plot_def render_legend_def split: option.split)

lemma legend_click_chart [simp]: "lv_chart (legend_click pg args i l) = toggle_series i (lv_chart l)"
  by (simp add: legend_click_def render_legend_def Let_def)

lemma cursor_others [simp]:
  "lv_chart (move_cursor loc intl pg args w hgt x y idx l) = lv_chart l"
  "lv_plot (move_cursor loc intl pg args w hgt x y idx l) = lv_plot l"
  "lv_legend (move_cursor loc intl pg args w hgt x y idx l) = lv_legend l"
  by (simp_all add: move_cursor_def split: option.split prod.split)

lemma live_refines_chart:
  "lv_chart (run (live_step uplot_join loc intl args) l es) = run (chart_step uplot_join points_of) (lv_chart l) (chart_events es)"
proof (induction es arbitrary: l)
  case (Cons e es)
  show ?case by (cases e) (simp_all add: Cons resize_plot_def leave_plot_def theme_change_def)
qed simp

lemma live_events_enabled:
  "enabled_run (live_enabled args) (live_step uplot_join loc intl args) l es \<Longrightarrow> ch_series (lv_chart l) = length (ca_series args) \<Longrightarrow>
   enabled_run chart_enabled (chart_step uplot_join points_of) (lv_chart l) (chart_events es)"
proof (induction es arbitrary: l)
  case (Cons e es)
  have series: "ch_series (lv_chart (live_step uplot_join loc intl args l e)) = length (ca_series args)"
    using Cons.prems(2)
    by (cases e) (simp_all add: set_data_def build_def destroy_plot_def theme_change_def rebuild_def resize_plot_def
        leave_plot_def Let_def split: option.split)
  show ?case using Cons.IH[OF _ series] Cons.prems
    by (cases e) (auto simp: resize_plot_def leave_plot_def theme_change_def)
qed simp

section \<open>Plot, legend and tooltip agree\<close>

text \<open>
  The options of the live plot show the series that are not hidden, and the legend, once drawn, marks the hidden ones in the
  colours of the style sheet it was last drawn with.
\<close>

definition live_ok :: "chart_args \<Rightarrow> live \<times> (string \<Rightarrow> string) option \<Rightarrow> bool" where
  "live_ok args lc \<longleftrightarrow>
     (let l = fst lc; c = lv_chart l; n = length (ca_series args) in
      ca_legend args \<and> chart_ok points_of n c \<and>
      (case lv_plot l of
         None \<Rightarrow> ch_plot c = None
       | Some p \<Rightarrow> ch_plot c \<noteq> None \<and> map st_show (op_series p) = map (\<lambda>i. i \<notin> set (ch_hidden c)) [0..<n]) \<and>
      (case snd lc of None \<Rightarrow> True | Some css \<Rightarrow> lv_legend l = legend_html css (ch_hidden c) (ca_series args)))"

definition painted_step where
  "painted_step uplot_join loc intl args lc e = (live_step uplot_join loc intl args (fst lc) e, last_css (snd lc) [e])"

lemma run_painted:
  "run (painted_step uplot_join loc intl args) (l, c) es = (run (live_step uplot_join loc intl args) l es, last_css c es)"
proof (induction es arbitrary: l c)
  case (Cons e es)
  have "last_css c (e # es) = last_css (last_css c [e]) es" by (cases e) simp_all
  with Cons show ?case by (simp add: painted_step_def)
qed simp

lemma painted_enabled:
  "enabled_run (\<lambda>lc. live_enabled args (fst lc)) (painted_step uplot_join loc intl args) (l, c) es =
   enabled_run (live_enabled args) (live_step uplot_join loc intl args) l es"
  by (induction es arbitrary: l c) (simp_all add: painted_step_def)

lemma repaint_ok:
  assumes "ca_legend args" "chart_ok points_of (length (ca_series args)) (lv_chart l)"
  shows "live_ok args (repaint loc pg args l, Some (pg_css pg))"
  using assms
  by (cases "ch_plot (lv_chart l)")
    (simp_all add: live_ok_def Let_def repaint_def draw_plot_def render_legend_def plot_options_def line_style_def o_def)

lemma show_series_shown:
  assumes "map st_show (op_series p) = map f [0..<n]" "i < n" "\<And>k. k \<noteq> i \<Longrightarrow> f k = g k"
  shows "map st_show (op_series (show_series i (g i) p)) = map g [0..<n]"
proof -
  have "map st_show (op_series (show_series i (g i) p)) = (map f [0..<n])[i := g i]"
    unfolding assms(1)[symmetric] by (simp add: show_series_def map_update)
  then show ?thesis using map_upt_update[OF assms(2,3)] by simp
qed

lemma legend_click_ok:
  assumes "live_ok args (l, c)" "i < length (ca_series args)"
  shows "live_ok args (legend_click pg args i l, Some (pg_css pg))"
proof -
  let ?c = "lv_chart l" and ?n = "length (ca_series args)"
  have ok: "chart_ok points_of ?n (toggle_series i ?c)" using assms by (intro toggle_ok) (simp_all add: live_ok_def Let_def)
  show ?thesis
  proof (cases "lv_plot l")
    case None
    then show ?thesis using assms ok by (simp add: live_ok_def legend_click_def render_legend_def Let_def)
  next
    case (Some p)
    with assms(1) have "map st_show (op_series p) = map (\<lambda>k. k \<notin> set (ch_hidden ?c)) [0..<?n]" by (simp add: live_ok_def Let_def)
    from show_series_shown[OF this assms(2), of "\<lambda>k. k \<notin> set (ch_hidden (toggle_series i ?c))"]
    have "map st_show (op_series (show_series i (i \<notin> set (ch_hidden (toggle_series i ?c))) p)) =
      map (\<lambda>k. k \<notin> set (ch_hidden (toggle_series i ?c))) [0..<?n]" by (simp add: hidden_toggle)
    then show ?thesis using assms ok Some by (simp add: live_ok_def legend_click_def render_legend_def Let_def)
  qed
qed

lemma live_ok_step:
  assumes "live_ok args lc" "live_enabled args (fst lc) e"
  shows "live_ok args (painted_step uplot_join loc intl args lc e)"
proof -
  obtain l c where lc: "lc = (l, c)" by (cases lc)
  have chart: "ca_legend args" "chart_ok points_of (length (ca_series args)) (lv_chart l)"
    using assms(1) by (simp_all add: lc live_ok_def Let_def)
  show ?thesis
  proof (cases e)
    case (Lv_data pg ts)
    have "chart_ok points_of (length (ca_series args)) (set_data uplot_join points_of ts (lv_chart l))"
      using chart_ok_step[OF chart(2), of "Ch_data ts" uplot_join] by simp
    then show ?thesis using chart(1) by (simp add: lc Lv_data painted_step_def repaint_ok)
  next
    case (Lv_theme pg)
    have "chart_ok points_of (length (ca_series args)) (theme_change points_of (lv_chart l))"
      using chart_ok_step[OF chart(2), of Ch_theme] by simp
    moreover have "ch_registered (lv_chart l)" using chart(2) by (simp add: chart_ok_def)
    ultimately show ?thesis using chart(1) by (simp add: lc Lv_theme painted_step_def repaint_ok)
  next
    case (Lv_click pg i)
    then show ?thesis using assms by (simp add: lc painted_step_def legend_click_ok)
  next
    case (Lv_resize pg)
    then show ?thesis using assms(1)
      by (auto simp: lc painted_step_def live_ok_def resize_plot_def Let_def split: option.splits)
  qed (use assms(1) in \<open>auto simp: lc painted_step_def live_ok_def leave_plot_def Let_def split: option.splits\<close>)
qed

interpretation live_run: machine "painted_step uplot_join loc intl args" "\<lambda>lc. live_enabled args (fst lc)" "live_ok args"
  for uplot_join loc intl args
  by unfold_locales (rule live_ok_step)

lemma new_live_ok: "ca_legend args \<Longrightarrow> live_ok args (new_live args, None)"
  using new_chart_ok[of points_of "length (ca_series args)"]
  by (simp add: live_ok_def new_live_def Let_def) (simp add: new_chart_def)

lemma live_hidden_parity:
  "i \<in> set (ch_hidden (lv_chart (run (live_step uplot_join loc intl args) (new_live args) es))) \<longleftrightarrow>
   odd (clicks_on i (chart_events es))"
  by (simp add: live_refines_chart hidden_parity) (simp add: new_live_def new_chart_def)

lemma legend_html_cong:
  "(\<And>i. i < length series \<Longrightarrow> i \<in> set xs \<longleftrightarrow> i \<in> set ys) \<Longrightarrow> legend_html css xs series = legend_html css ys series"
  by (auto simp: legend_html_def intro!: arg_cong[where f = concat])

lemma concat_if: "concat (map (\<lambda>k. if P k then f k else []) ks) = concat (map f (filter P ks))"
  by (induction ks) simp_all

section \<open>Properties\<close>

text \<open>
  C13: the three parts of a chart with a legend agree at all times: whatever data, themes, clicks, sizes and
  cursor moves come, the live plot shows the series whose legend entry was clicked an even number of times, the legend
  marks the others, and the tooltip at a sample lists exactly the shown ones, in order, with their values there.
\<close>

theorem chart_parts_agree:
  assumes "enabled_run (live_enabled args) (live_step uplot_join loc intl args) (new_live args) es"
    and l: "l = run (live_step uplot_join loc intl args) (new_live args) es"
    and "ca_legend args" "last_css None es = Some css" "lv_plot l = Some p" "ch_data (lv_chart l) = Some (stamps, columns)"
    and "\<not> x < Fin 0" and n: "n = length (ca_series args)"
  shows \<open>map st_show (op_series p) = map (\<lambda>i. even (clicks_on i (chart_events es))) [0..<n] \<and>
    lv_legend l = legend_html css (filter (\<lambda>i. odd (clicks_on i (chart_events es))) [0..<n]) (ca_series args) \<and>
    tip_html (lv_tip (move_cursor loc intl pg args w hgt x y (Some k) l)) =
      ''<div class="t">'' @ fmt_time intl (stamps ! k) @ ''</div>'' @
      concat (map (\<lambda>i. tooltip_row loc (pg_css pg) (ca_series args ! i) (at_null (columns ! i) k))
        (filter (\<lambda>i. even (clicks_on i (chart_events es))) [0..<n]))\<close>
proof -
  have ok: "live_ok args (l, Some css)"
    using live_run.inv_run[OF new_live_ok[OF assms(3)] assms(1)[folded painted_enabled[where c = None]]]
    by (simp add: run_painted l assms(4))
  have hidden: "i \<in> set (ch_hidden (lv_chart l)) \<longleftrightarrow> odd (clicks_on i (chart_events es))" for i
    unfolding l by (rule live_hidden_parity)
  have shown: "map st_show (op_series p) = map (\<lambda>i. even (clicks_on i (chart_events es))) [0..<n]"
    using ok assms(5) by (simp add: live_ok_def Let_def hidden n)
  have "lv_legend l = legend_html css (ch_hidden (lv_chart l)) (ca_series args)" using ok by (simp add: live_ok_def Let_def)
  also have "\<dots> = legend_html css (filter (\<lambda>i. odd (clicks_on i (chart_events es))) [0..<n]) (ca_series args)"
    by (rule legend_html_cong) (simp add: hidden n)
  finally have legend: "lv_legend l = \<dots>" .
  have rows: "concat (map (\<lambda>i. if map st_show (op_series p) ! i then f i else []) [0..<n]) =
    concat (map f (filter (\<lambda>i. even (clicks_on i (chart_events es))) [0..<n]))" for f :: "nat \<Rightarrow> string"
    unfolding concat_if[symmetric] shown by (intro arg_cong[where f = concat] map_cong) auto
  show ?thesis using assms(5-7) legend shown rows by (simp add: move_cursor_def set_cursor_def n)
qed

section \<open>A sample chart\<close>

definition sample_page :: page where
  "sample_page = \<lparr> pg_css = (\<lambda>name. name), pg_plot_width = Fin 600, pg_width = Fin 640 \<rparr>"

definition sample_line :: "string \<Rightarrow> line_series" where
  "sample_line label = \<lparr> ls_label = label, ls_color = ''--s1'', ls_unit = None, ls_decimals = None, ls_format = None \<rparr>"

definition sample_args :: chart_args where
  "sample_args = default_args [sample_line ''A'', sample_line ''B'']"

definition first_times :: "data_table list \<Rightarrow> data" where
  "first_times ts = (fst (hd ts), map snd ts)"

definition sample_events :: "live_event list" where
  "sample_events = [Lv_data sample_page [([Fin 0], [Some (Fin 1)]), ([Fin 0], [Some (Fin 2)])], Lv_click sample_page 0]"

definition sample_live :: live where
  "sample_live = run (live_step first_times plain_format (\<lambda>opts t. []) sample_args) (new_live sample_args) sample_events"

lemma sample_live:
  "enabled_run (live_enabled sample_args) (live_step first_times plain_format (\<lambda>opts t. []) sample_args) (new_live sample_args) sample_events"
  "last_css None sample_events = Some (\<lambda>name. name)" "ca_legend sample_args"
  "ch_data (lv_chart sample_live) = Some ([Fin 0], [[Some (Fin 1)], [Some (Fin 2)]])"
  by (simp_all add: sample_events_def sample_page_def sample_args_def default_args_def sample_live_def first_times_def
      new_live_def new_chart_def set_data_def prepare_def with_gaps_def build_def destroy_plot_def Let_def points_of_def)

lemma sample_plot: "lv_plot sample_live \<noteq> None"
  by (simp add: sample_events_def sample_args_def default_args_def sample_live_def first_times_def repaint_def draw_plot_def
      new_live_def new_chart_def set_data_def prepare_def with_gaps_def build_def destroy_plot_def Let_def points_of_def
      render_legend_def legend_click_def)

theorem chart_parts_agree_witness:
  \<open>map st_show (op_series (the (lv_plot sample_live))) = [False, True] \<and>
   tip_html (lv_tip (move_cursor plain_format (\<lambda>opts t. []) sample_page sample_args (Fin 500) (Fin 200) (Fin 10) (Fin 10) (Some 0) sample_live)) =
     ''<div class="t"></div>'' @ tooltip_row plain_format (\<lambda>name. name) (sample_line ''B'') (Some (Fin 2))\<close>
proof -
  from sample_plot obtain p where p: "lv_plot sample_live = Some p" by auto
  show ?thesis
    using chart_parts_agree[OF sample_live(1) sample_live_def sample_live(3,2) p sample_live(4), of "Fin 10" 2 sample_page
        "Fin 500" "Fin 200" "Fin 10" 0]
    by (simp add: p sample_args_def default_args_def sample_events_def clicks_on_def sample_page_def fmt_time_def upt_rec)
qed

section \<open>The hover listeners of a bar chart\<close>

text \<open>
  \<open>rect_x\<close>, \<open>rect_y\<close> and \<open>rect_w\<close> are the bounding box of the chart, \<open>cx\<close> and \<open>cy\<close> the position of the pointer over
  group \<open>i\<close>.
\<close>

definition bar_mousemove ::
  "(jsnum \<Rightarrow> string) \<Rightarrow> string \<Rightarrow> bar_series list \<Rightarrow> bar_group list \<Rightarrow> jsnum \<Rightarrow> jsnum \<Rightarrow> jsnum \<Rightarrow> jsnum \<Rightarrow> jsnum \<Rightarrow> nat \<Rightarrow> tooltip \<Rightarrow> tooltip" where
  "bar_mousemove format unit_label series groups rect_x rect_y rect_w cx cy i tip =
     (let x = cx - rect_x
      in \<lparr> tip_hidden = False, tip_html = bar_tip format unit_label series (groups ! i), tip_left = x, tip_top = cy - rect_y,
           tip_flipped = rect_w * fl (6/10) < x \<rparr>)"

definition bar_mouseleave :: "tooltip \<Rightarrow> tooltip" where
  "bar_mouseleave tip = tip\<lparr> tip_hidden := True \<rparr>"

datatype hover_event = Hv_move jsnum jsnum jsnum jsnum jsnum nat | Hv_leave

fun hover_step :: "(jsnum \<Rightarrow> string) \<Rightarrow> string \<Rightarrow> bar_series list \<Rightarrow> bar_group list \<Rightarrow> tooltip \<Rightarrow> hover_event \<Rightarrow> tooltip" where
  "hover_step format unit_label series groups tip (Hv_move rx ry rw cx cy i) =
     bar_mousemove format unit_label series groups rx ry rw cx cy i tip"
| "hover_step format unit_label series groups tip Hv_leave = bar_mouseleave tip"

text \<open>The tooltip of the bars shows the group under the pointer, and nothing once the pointer has left the group.\<close>

theorem bar_hover_shows_group:
  "tip_hidden (run (hover_step format unit_label series groups) new_tip (es @ [Hv_leave])) \<and>
   \<not> tip_hidden (run (hover_step format unit_label series groups) new_tip (es @ [Hv_move rx ry rw cx cy i])) \<and>
   tip_html (run (hover_step format unit_label series groups) new_tip (es @ [Hv_move rx ry rw cx cy i])) =
     bar_tip format unit_label series (groups ! i)"
  by (simp add: run_append bar_mousemove_def bar_mouseleave_def Let_def)

end
