(* ===== verification/Zoom.thy ===== *)
theory Zoom
  imports App Plots Drawer
begin

text \<open>
  Where the charts meet the pages: a drag over a chart of the history page, from the hook of the plotting library over
  \<open>zoom\<close> of \<open>views/history.js\<close> to the request of \<open>api.js\<close>, and the times of the drawer.
\<close>

definition drag_history :: "(jsnum \<Rightarrow> jsnum) \<Rightarrow> selection \<Rightarrow> env \<Rightarrow> history_view \<Rightarrow> selection \<times> history_view" where
  "drag_history pos_to_val s en v =
     (case set_select pos_to_val s of
        (s', None) \<Rightarrow> (s', v)
      | (s', Some (a, b)) \<Rightarrow> (s', history_step v (Hi_zoom a b en)))"

text \<open>The content of the drawer with the dates in the forms the code asks for.\<close>

definition drawer_content :: "intl \<Rightarrow> jsnum \<Rightarrow> load_request \<Rightarrow> series \<Rightarrow> string" where
  "drawer_content intl = drawn_states (segment_time intl) (axis_time intl) (\<lambda>t. date_time intl t False)"

lemma zoom_loads:
  assumes "load_ids (en_store en) (concat (hv_names v)) = Some ids"
  shows "hv_window (history_step v (Hi_zoom a b en)) = window_zoom a b (hv_window v)"
    and "hv_loads (history_step v (Hi_zoom a b en)) =
      hv_loads v @ [(hv_requests v, False, window_request ids (history_points (en_width en)) (now_seconds en) (window_zoom a b (hv_window v)))]"
  using assms by (simp_all add: move_window_def start_history_load_def Let_def)

lemma jmax_grid: "jmax (grid a) (grid b) = grid (max a b)"
  by (auto simp: jmax_def grid_def divide_le_cancel)

lemma jfloor_grid: "jfloor (grid m) = Fin (of_int (m div 2 ^ 22))"
proof -
  have "\<lfloor>of_int m / (2 ^ 22 :: rat)\<rfloor> = m div 2 ^ 22" using floor_divide_of_int_eq[of m "2 ^ 22", where ?'a = rat] by simp
  then show ?thesis by (simp add: grid_def)
qed

lemma five_minutes: "Fin 300 = grid (300 * 2 ^ 22)"
  by (simp add: grid_def)

text \<open>
  C27: a drag over a chart of the history page zooms to exactly what was selected: a drag of less than five
  pixels changes nothing; any other ends the window at the time under its right edge and starts it at the time under its
  left edge, or five minutes before the end if that is earlier, and puts one request in flight, whose path asks for those
  seconds of the entities of the page (which the store has to know, otherwise \<open>load\<close> throws).
  The times are doubles of the grid of 2^-22 s.
\<close>

theorem drag_zooms_history:
  assumes "pos_to_val (sel_left s) = grid m" "pos_to_val (sel_left s + sel_width s) = grid n" "0 \<le> m" "m \<le> n" "n \<le> 2 ^ 53"
    and "(s', v') = drag_history pos_to_val s en v" "first = min m (n - 300 * 2 ^ 22)"
    and ids: "load_ids (en_store en) (concat (hv_names v)) = Some ids"
  shows "if sel_width s < Fin 5 then s' = s \<and> v' = v
    else sel_width s' = Fin 0 \<and> window_range now (hv_window v') = (grid first, grid n) \<and>
      (\<exists>r. hv_loads v' = hv_loads v @ [(hv_requests v, False, r)] \<and>
        query_get ''ids'' (request_path r) = Some (join '','' ids) \<and>
        query_get ''start'' (request_path r) = Some (number_text (Fin (of_int (first div 2 ^ 22)))) \<and>
        query_get ''end'' (request_path r) = Some (number_text (Fin (of_int (n div 2 ^ 22)))))"
proof (cases "sel_width s < Fin 5")
  case True
  then show ?thesis using assms(6) by (simp add: drag_history_def set_select_def)
next
  case False
  then have v': "s' = s\<lparr> sel_width := Fin 0, sel_height := Fin 0 \<rparr>" "v' = history_step v (Hi_zoom (grid m) (grid n) en)"
    using assms(6) by (simp_all add: drag_history_def set_select_def assms(1,2))
  let ?w = "\<lparr> w_span = grid (max (300 * 2 ^ 22) (n - m)), w_end = Some (grid n) \<rparr>"
  have w: "window_zoom (grid m) (grid n) (hv_window v) = ?w"
    using assms(3-5) by (simp add: window_zoom_def five_minutes jmax_grid grid_diff)
  have "grid n - grid (max (300 * 2 ^ 22) (n - m)) = grid first"
    using assms(3-5,7) by (subst grid_diff) (auto simp: max_def min_def)
  then have range: "window_range t ?w = (grid first, grid n)" for t by (simp add: window_range_def Let_def)
  define r where "r = \<lparr> hr_ids = ids, hr_start = grid first, hr_end = grid n, hr_points = history_points (en_width en) \<rparr>"
  have "window_request ids (history_points (en_width en)) (now_seconds en) ?w = r"
    unfolding window_request_def range r_def by simp
  then have "hv_loads v' = hv_loads v @ [(hv_requests v, False, r)]"
    unfolding v'(2) zoom_loads(2)[OF ids] w by simp
  moreover have "query_get ''ids'' (request_path r) = Some (join '','' ids) \<and>
      query_get ''start'' (request_path r) = Some (number_text (Fin (of_int (first div 2 ^ 22)))) \<and>
      query_get ''end'' (request_path r) = Some (number_text (Fin (of_int (n div 2 ^ 22))))"
    using query_history_path[of ids "grid first" "grid n" "history_points (en_width en)"]
    by (simp add: request_path_def r_def jfloor_grid)
  moreover have "window_range now (hv_window v') = (grid first, grid n)"
    unfolding v'(2) zoom_loads(1)[OF ids] w by (rule range)
  ultimately show ?thesis using False v'(1) by auto
qed

theorem drag_zooms_history_witness:
  "window_range (Fin 0) (hv_window (snd (drag_history (\<lambda>x. if x = Fin 10 then grid (1000 * 2 ^ 22) else grid (2000 * 2 ^ 22))
     \<lparr> sel_left = Fin 10, sel_width = Fin 20, sel_height = Fin 0 \<rparr> sample_env (init_history [])))) =
   (grid (1000 * 2 ^ 22), grid (2000 * 2 ^ 22))"
proof -
  have ids: "load_ids (en_store sample_env) (concat (hv_names (init_history []))) = Some []"
    by (simp add: load_ids_def init_history_def sample_env_def STATES_def ent_id_def ent_def init_store_def first_occurrences_def)
  show ?thesis
    using drag_zooms_history[where pos_to_val = "\<lambda>x. if x = Fin 10 then grid (1000 * 2 ^ 22) else grid (2000 * 2 ^ 22)"
      and s = "\<lparr> sel_left = Fin 10, sel_width = Fin 20, sel_height = Fin 0 \<rparr>" and m = "1000 * 2 ^ 22" and n = "2000 * 2 ^ 22",
      OF _ _ _ _ _ prod.collapse refl ids, of "Fin 0"]
    by simp
qed

end
