(* ===== verification/Toasts.thy ===== *)
theory Toasts
  imports Controls
begin

text \<open>
  \<open>toast\<close> of \<open>format.js\<close>: a message is appended to the element \<open>#toasts\<close> and a timer removes it 3.5 seconds later. The
  texts are set as \<open>textContent\<close>. Times are milliseconds; the runtime fires a timer no earlier than it is due.
\<close>

record toast =
  to_id :: nat
  to_class :: string
  to_text :: string

record toasts =
  ts_page :: "toast list"
  ts_timers :: "(nat \<times> nat) list"
  ts_next :: nat

definition no_toasts :: toasts where
  "no_toasts = \<lparr> ts_page = [], ts_timers = [], ts_next = 0 \<rparr>"

definition toast :: "nat \<Rightarrow> string \<Rightarrow> string \<Rightarrow> toasts \<Rightarrow> toasts" where
  "toast now message kind s =
     s\<lparr> ts_page := ts_page s @ [\<lparr> to_id = ts_next s, to_class = ''toast '' @ kind, to_text = message \<rparr>],
        ts_timers := ts_timers s @ [(now + 3500, ts_next s)], ts_next := Suc (ts_next s) \<rparr>"

definition remove_toast :: "nat \<Rightarrow> toasts \<Rightarrow> toasts" where
  "remove_toast i s = s\<lparr> ts_page := filter (\<lambda>x. to_id x \<noteq> i) (ts_page s), ts_timers := filter (\<lambda>(d, j). j \<noteq> i) (ts_timers s) \<rparr>"

text \<open>Every event comes with the time at which it happens; time does not run backwards.\<close>

datatype toast_event = To_show string string | To_timer nat

fun toast_step :: "nat \<times> toasts \<Rightarrow> nat \<times> toast_event \<Rightarrow> nat \<times> toasts" where
  "toast_step (t, s) (now, To_show message kind) = (now, toast now message kind s)"
| "toast_step (t, s) (now, To_timer i) = (now, remove_toast i s)"

fun toast_enabled :: "nat \<times> toasts \<Rightarrow> nat \<times> toast_event \<Rightarrow> bool" where
  "toast_enabled (t, s) (now, To_show message kind) = (t \<le> now)"
| "toast_enabled (t, s) (now, To_timer i) = (t \<le> now \<and> (\<exists>(d, j)\<in>set (ts_timers s). j = i \<and> d \<le> now))"

section \<open>How long a toast is shown\<close>

text \<open>All calls of \<open>toast\<close> in a run, with their times: the toast with number \<open>k\<close> is the \<open>k\<close>th of them.\<close>

fun calls :: "(nat \<times> toast_event) list \<Rightarrow> (nat \<times> string \<times> string) list" where
  "calls [] = []"
| "calls ((now, To_show m k) # es) = (now, m, k) # calls es"
| "calls ((now, To_timer i) # es) = calls es"

definition toast_of :: "(nat \<times> string \<times> string) list \<Rightarrow> nat \<Rightarrow> toast" where
  "toast_of cs i = \<lparr> to_id = i, to_class = ''toast '' @ snd (snd (cs ! i)), to_text = fst (snd (cs ! i)) \<rparr>"

text \<open>
  After the calls \<open>cs\<close> the toasts in \<open>gone\<close> have been removed, each not before 3.5 seconds have passed, and each of the
  others has its element and its timer.
\<close>

definition shown_at :: "(nat \<times> string \<times> string) list \<Rightarrow> nat set \<Rightarrow> nat \<times> toasts \<Rightarrow> bool" where
  "shown_at cs gone ts \<longleftrightarrow>
     (let left = filter (\<lambda>i. i \<notin> gone) [0..<length cs]
      in ts_next (snd ts) = length cs \<and> ts_page (snd ts) = map (toast_of cs) left \<and>
         ts_timers (snd ts) = map (\<lambda>i. (fst (cs ! i) + 3500, i)) left \<and>
         (\<forall>i\<in>gone. i < length cs \<and> fst (cs ! i) + 3500 \<le> fst ts))"

lemma toast_of_snoc: "i < length cs \<Longrightarrow> toast_of (cs @ [x]) i = toast_of cs i"
  by (simp add: toast_of_def nth_append)

lemma shown_at_toast:
  assumes "shown_at cs gone (t, s)" "t \<le> now"
  shows "shown_at (cs @ [(now, m, k)]) gone (now, toast now m k s)"
proof -
  have fresh: "length cs \<notin> gone" using assms(1) by (auto simp: shown_at_def Let_def)
  have "map (toast_of (cs @ [(now, m, k)])) (filter (\<lambda>i. i \<notin> gone) [0..<length cs]) =
      map (toast_of cs) (filter (\<lambda>i. i \<notin> gone) [0..<length cs])"
    "map (\<lambda>i. (fst ((cs @ [(now, m, k)]) ! i) + 3500, i)) (filter (\<lambda>i. i \<notin> gone) [0..<length cs]) =
      map (\<lambda>i. (fst (cs ! i) + 3500, i)) (filter (\<lambda>i. i \<notin> gone) [0..<length cs])"
    by (auto simp: toast_of_snoc nth_append)
  then show ?thesis using assms fresh
    by (auto simp: shown_at_def Let_def toast_def toast_of_def nth_append)
qed

lemma shown_at_removed:
  assumes "shown_at cs gone (t, s)" "toast_enabled (t, s) (now, To_timer i)"
  shows "shown_at cs (insert i gone) (now, remove_toast i s)"
proof -
  have i: "i < length cs" "fst (cs ! i) + 3500 \<le> now" "t \<le> now" using assms by (auto simp: shown_at_def Let_def)
  have "filter (\<lambda>x. to_id x \<noteq> i) (map (toast_of cs) xs) = map (toast_of cs) (filter (\<lambda>j. j \<noteq> i) xs)"
    "filter (\<lambda>(d, j). j \<noteq> i) (map (\<lambda>j. (f j, j)) xs) = map (\<lambda>j. (f j, j)) (filter (\<lambda>j. j \<noteq> i) xs)" for xs and f :: "nat \<Rightarrow> nat"
    by (simp_all add: filter_map o_def toast_of_def)
  moreover have "filter (\<lambda>j. j \<noteq> i) (filter (\<lambda>j. j \<notin> gone) xs) = filter (\<lambda>j. j \<notin> insert i gone) xs" for xs
    by (simp add: conj_commute)
  ultimately show ?thesis using assms(1) i
    by (auto simp: shown_at_def Let_def remove_toast_def simp del: insert_iff intro: order_trans)
qed

lemma shown_at_run:
  "shown_at cs gone ts \<Longrightarrow> enabled_run toast_enabled toast_step ts es \<Longrightarrow>
   \<exists>gone'. shown_at (cs @ calls es) gone' (run toast_step ts es)"
proof (induction es arbitrary: cs gone ts)
  case (Cons e es)
  obtain t s where ts: "ts = (t, s)" by (cases ts)
  obtain now ev where e: "e = (now, ev)" by (cases e)
  show ?case
  proof (cases ev)
    case (To_show m k)
    have "shown_at (cs @ [(now, m, k)]) gone (now, toast now m k s)"
      using Cons.prems by (auto simp: ts e To_show intro: shown_at_toast)
    from Cons.IH[OF this] Cons.prems(2) show ?thesis by (simp add: ts e To_show)
  next
    case (To_timer i)
    have "shown_at cs (insert i gone) (now, remove_toast i s)"
      using Cons.prems by (intro shown_at_removed[of cs gone t s now i]) (auto simp only: ts e To_timer toast_enabled.simps enabled_run.simps)
    from Cons.IH[OF this] Cons.prems(2) show ?thesis by (simp add: ts e To_timer)
  qed
qed auto

text \<open>
  C40: a toast stays for 3.5 seconds and then goes: after any calls and timers, when no timer is overdue, the page
  shows exactly the messages of the calls of the last 3.5 seconds, in the order of the calls; so a page on which nothing
  more is reported ends up without any.
\<close>

theorem toasts_shown_for_a_while:
  assumes "enabled_run toast_enabled toast_step (0, no_toasts) es" and "(now, s) = run toast_step (0, no_toasts) es"
    and "now \<le> t" and timely: "\<forall>(d, i)\<in>set (ts_timers s). t < d"
  shows "map to_text (ts_page s) = map (fst \<circ> snd) (filter (\<lambda>(u, m, k). t < u + 3500) (calls es))"
proof -
  have "shown_at [] {} (0, no_toasts)" by (simp add: shown_at_def no_toasts_def)
  from shown_at_run[OF this assms(1)] obtain gone where g: "shown_at (calls es) gone (now, s)" unfolding assms(2) by auto
  let ?cs = "calls es"
  have "i \<notin> gone \<longleftrightarrow> t < fst (?cs ! i) + 3500" if "i < length ?cs" for i
  proof
    assume "i \<notin> gone"
    with g that have "(fst (?cs ! i) + 3500, i) \<in> set (ts_timers s)" by (auto simp: shown_at_def Let_def)
    with timely show "t < fst (?cs ! i) + 3500" by auto
  next
    assume "t < fst (?cs ! i) + 3500"
    with g \<open>now \<le> t\<close> show "i \<notin> gone" by (fastforce simp: shown_at_def Let_def)
  qed
  then have "filter (\<lambda>i. i \<notin> gone) [0..<length ?cs] = filter (\<lambda>i. t < fst (?cs ! i) + 3500) [0..<length ?cs]"
    by (intro filter_cong) auto
  with g have "map to_text (ts_page s) = map (\<lambda>i. fst (snd (?cs ! i))) (filter (\<lambda>i. t < fst (?cs ! i) + 3500) [0..<length ?cs])"
    by (simp add: shown_at_def Let_def toast_of_def)
  also have "\<dots> = map (fst \<circ> snd) (map (\<lambda>i. ?cs ! i) (filter (\<lambda>i. t < fst (?cs ! i) + 3500) [0..<length ?cs]))" by simp
  also have "map (\<lambda>i. ?cs ! i) (filter (\<lambda>i. t < fst (?cs ! i) + 3500) [0..<length ?cs]) =
    filter (\<lambda>x. t < fst x + 3500) (map (\<lambda>i. ?cs ! i) [0..<length ?cs])" by (simp add: filter_map o_def)
  moreover have "(\<lambda>(u, m, k). t < u + 3500) = (\<lambda>x :: nat \<times> string \<times> string. t < fst x + 3500)" by (simp add: fun_eq_iff)
  ultimately show ?thesis by (simp add: map_nth)
qed

definition sample_toasts :: "(nat \<times> toast_event) list" where
  "sample_toasts = [(0, To_show ''A'' ''ok''), (2000, To_show ''B'' ''err''), (3500, To_timer 0)]"

theorem toasts_shown_for_a_while_witness:
  "map to_text (ts_page (snd (run toast_step (0, no_toasts) sample_toasts))) = [''B'']"
  using toasts_shown_for_a_while[of sample_toasts 3500 "snd (run toast_step (0, no_toasts) sample_toasts)" 5000]
  by (simp add: sample_toasts_def no_toasts_def toast_def remove_toast_def)

section \<open>Every command is reported\<close>

fun toast_effect :: "effect \<Rightarrow> bool" where
  "toast_effect (Toast m k) = True"
| "toast_effect f = False"

definition reports :: "ctl \<Rightarrow> effect list" where
  "reports c = filter toast_effect (k_effects c)"

definition reported :: "ctl \<Rightarrow> bool" where
  "reported c \<longleftrightarrow> length (k_sent c) = length (reports c) + length (k_requests c)"

lemma length_without: "i < length xs \<Longrightarrow> Suc (length (without i xs)) = length xs"
  by (simp add: without_def)

lemma reported_step: "reported c \<Longrightarrow> ctl_enabled c e \<Longrightarrow> reported (ctl_step loc c e)"
proof (cases e)
  case (Ev_reply i err)
  assume "reported c" "ctl_enabled c e"
  moreover obtain n r v where "k_requests c ! i = (n, r, v)" by (cases "k_requests c ! i")
  ultimately show ?thesis using length_without[of i "k_requests c"]
    by (cases r) (auto simp: Ev_reply reported_def reports_def on_reply_def effect_def set_timeout_def Let_def split: option.split)
qed (auto simp: reported_def reports_def post_command_def click_option_def click_step_def run_task_def confirm_state_def effect_def
    set_timeout_def clear_timeout_def Let_def split: task.split option.split)

interpretation report_run: machine "ctl_step loc" ctl_enabled reported for loc
  by unfold_locales (rule reported_step)

text \<open>Every command that was sent has been reported by exactly one toast, or its answer is outstanding.\<close>

theorem commands_reported:
  assumes "enabled_run ctl_enabled (ctl_step loc) init_ctl es" and "c = run (ctl_step loc) init_ctl es"
  shows "length (k_sent c) = length (reports c) + length (k_requests c)"
  using report_run.inv_run[OF _ assms(1)] by (simp add: assms(2) reported_def reports_def init_ctl_def)

end
