(* ===== verification/Saved.thy ===== *)
theory Saved
  imports History Api
begin

text \<open>
  The choice of custom sensors outlives the page: \<open>saveCustom\<close> of \<open>views/history.js\<close> and the line that reads it back when
  the module is loaded. \<open>json_ok\<close> says which texts \<open>JSON.parse\<close> accepts (the grammar of RFC 8259), \<open>parse_strings\<close> reads
  the arrays of strings without white space, the only texts the page writes under its key.
\<close>

section \<open>The texts that JSON.parse accepts\<close>

abbreviation is_quote :: "char \<Rightarrow> bool" where
  "is_quote c \<equiv> of_char c = (34::nat)"

text \<open>The rest of the text after a string (read after its opening quote), a run of digits, a number.\<close>

fun skip_string :: "string \<Rightarrow> string option" where
  "skip_string [] = None"
| "skip_string (c # s) =
     (if is_quote c then Some s
      else if of_char c < (32::nat) then None
      else if of_char c = (92::nat) then
        (case s of
           x # t \<Rightarrow>
             if x \<in> set ''bfnrt/'' \<or> is_quote x \<or> of_char x = (92::nat) then skip_string t
             else if x = CHR ''u'' then
               (case t of
                  a # b # d # e # u \<Rightarrow>
                    if hex_value a \<noteq> None \<and> hex_value b \<noteq> None \<and> hex_value d \<noteq> None \<and> hex_value e \<noteq> None
                    then skip_string u else None
                | _ \<Rightarrow> None)
             else None
         | [] \<Rightarrow> None)
      else skip_string s)"

definition begins :: "char \<Rightarrow> string \<Rightarrow> bool" where
  "begins c s = (s \<noteq> [] \<and> hd s = c)"

definition skip_digits :: "string \<Rightarrow> string option" where
  "skip_digits s = (if s \<noteq> [] \<and> is_digit (hd s) then Some (dropWhile is_digit s) else None)"

definition skip_exponent :: "string \<Rightarrow> string option" where
  "skip_exponent s =
     (if begins CHR ''e'' s \<or> begins CHR ''E'' s
      then let t = tl s in skip_digits (if begins CHR ''+'' t \<or> begins CHR ''-'' t then tl t else t)
      else Some s)"

definition skip_number :: "string \<Rightarrow> string option" where
  "skip_number s =
     (let s = (if begins CHR ''-'' s then tl s else s);
          whole = (if begins CHR ''0'' s then Some (tl s) else skip_digits s);
          fraction = Option.bind whole (\<lambda>t. if begins CHR ''.'' t then skip_digits (tl t) else Some t)
      in Option.bind fraction skip_exponent)"

definition skip_ws :: "string \<Rightarrow> string" where
  "skip_ws = dropWhile (\<lambda>c. of_char c \<in> {9, 10, 13, 32 :: nat})"

text \<open>The key of a member of an object, with the colon.\<close>

definition skip_key :: "string \<Rightarrow> string option" where
  "skip_key s =
     (case s of
        c # t \<Rightarrow> if is_quote c
                 then Option.bind (skip_string t) (\<lambda>u. if begins CHR '':'' (skip_ws u) then Some (skip_ws (tl (skip_ws u))) else None)
                 else None
      | [] \<Rightarrow> None)"

text \<open>
  The rest after a value, and after the elements of an array or the members of an object with the closing bracket. A
  call without a character of its own is followed by one with, so twice the length of the text is fuel enough.
\<close>

fun skip_value :: "nat \<Rightarrow> string \<Rightarrow> string option"
  and skip_items :: "nat \<Rightarrow> bool \<Rightarrow> string \<Rightarrow> string option" where
  "skip_value 0 s = None"
| "skip_value (Suc n) s =
     (case s of
        [] \<Rightarrow> None
      | c # t \<Rightarrow>
          if is_quote c then skip_string t
          else if c = CHR ''['' then (if begins CHR '']'' (skip_ws t) then Some (tl (skip_ws t)) else skip_items n False (skip_ws t))
          else if c = CHR ''{'' then (if begins CHR ''}'' (skip_ws t) then Some (tl (skip_ws t)) else skip_items n True (skip_ws t))
          else if starts_with ''true'' s \<or> starts_with ''null'' s then Some (drop 4 s)
          else if starts_with ''false'' s then Some (drop 5 s)
          else skip_number s)"
| "skip_items 0 members s = None"
| "skip_items (Suc n) members s =
     (case Option.bind (if members then skip_key s else Some s) (skip_value n) of
        None \<Rightarrow> None
      | Some t \<Rightarrow>
          if begins CHR '','' (skip_ws t) then skip_items n members (skip_ws (tl (skip_ws t)))
          else if begins (if members then CHR ''}'' else CHR '']'') (skip_ws t) then Some (tl (skip_ws t)) else None)"

definition json_ok :: "string \<Rightarrow> bool" where
  "json_ok s = (map_option skip_ws (skip_value (2 * length s + 2) (skip_ws s)) = Some [])"

section \<open>Arrays of strings as JSON\<close>

definition json_strings :: "string list \<Rightarrow> string" where
  "json_strings xs = ''['' @ join '','' (map json_string xs) @ '']''"

text \<open>The elements after the opening bracket; an element takes at least one character, so the length of the text is fuel enough.\<close>

fun parse_items :: "nat \<Rightarrow> string \<Rightarrow> string list option" where
  "parse_items 0 s = None"
| "parse_items (Suc n) [] = None"
| "parse_items (Suc n) (c # s) =
     (if of_char c \<noteq> (34::nat) then None
      else (case json_literal s of
              Some (x, d # t) \<Rightarrow>
                if d = CHR '','' then map_option (Cons x) (parse_items n t)
                else if d = CHR '']'' \<and> t = [] then Some [x] else None
            | _ \<Rightarrow> None))"

definition parse_strings :: "string \<Rightarrow> string list option" where
  "parse_strings s =
     (case s of
        c # t \<Rightarrow> if c \<noteq> CHR ''['' then None else if t = '']'' then Some [] else parse_items (length t) t
      | [] \<Rightarrow> None)"

lemma join_Cons: "join sep (x # xs) = x @ (if xs = [] then [] else sep @ join sep xs)"
  by (cases xs) simp_all

lemma length_json_string: "2 \<le> length (json_string s)"
  by (simp add: json_string_def)

lemma parse_items_string:
  "parse_items (Suc n) (json_string x @ d # t) =
     (if d = CHR '','' then map_option (Cons x) (parse_items n t) else if d = CHR '']'' \<and> t = [] then Some [x] else None)"
  by (simp add: json_string_def json_literal_text)

lemma parse_items_join:
  "xs \<noteq> [] \<Longrightarrow> length xs \<le> n \<Longrightarrow> parse_items n (join '','' (map json_string xs) @ '']'') = Some xs"
proof (induction xs arbitrary: n)
  case (Cons x xs)
  then obtain m where n: "n = Suc m" by (cases n) auto
  show ?case
  proof (cases "xs = []")
    case True
    then show ?thesis by (simp add: n parse_items_string)
  next
    case False
    with Cons n have "parse_items m (join '','' (map json_string xs) @ '']'') = Some xs" by simp
    with False show ?thesis by (simp add: n join_Cons parse_items_string)
  qed
qed simp

lemma length_join_json: "length xs \<le> length (join '','' (map json_string xs))"
proof (induction xs)
  case (Cons x xs)
  then show ?case using length_json_string[of x] by (simp add: join_Cons)
qed simp

lemma parse_json_strings: "parse_strings (json_strings xs) = Some xs"
proof (cases xs)
  case Nil
  then show ?thesis by (simp add: parse_strings_def json_strings_def)
next
  case (Cons x ys)
  have "parse_items (length (join '','' (map json_string xs) @ '']'')) (join '','' (map json_string xs) @ '']'') = Some xs"
    using length_join_json[of xs] by (intro parse_items_join) (simp_all add: Cons le_SucI)
  moreover have "join '','' (map json_string xs) @ '']'' \<noteq> '']''" using length_join_json[of xs] Cons by auto
  ultimately show ?thesis by (simp add: parse_strings_def json_strings_def)
qed

section \<open>The texts that the page writes are accepted\<close>

lemma skip_string_char: "skip_string (json_char c @ s) = skip_string s"
proof -
  have "(of_char c = (34::nat)) = (c = CHR 0x22)" "(of_char c = (92::nat)) = (c = CHR 0x5C)"
    using of_char_eq_iff[of c "CHR 0x22", where 'a = nat] of_char_eq_iff[of c "CHR 0x5C", where 'a = nat] by simp_all
  moreover have "hex_value CHR ''0'' \<noteq> None" by (simp add: hex_value_def)
  ultimately show ?thesis by (auto simp: json_char_def Let_def)
qed

lemma skip_string_text: "skip_string (concat (map json_char s) @ CHR 0x22 # t) = Some t"
  by (induction s) (auto simp: skip_string_char)

lemma skip_value_string: "skip_value (Suc n) (json_string x @ t) = Some t"
  by (simp add: json_string_def skip_string_text)

lemma skip_ws_simps [simp]:
  "skip_ws [] = []" "skip_ws (CHR '','' # s) = CHR '','' # s" "skip_ws (CHR '']'' # s) = CHR '']'' # s" "skip_ws (CHR ''['' # s) = CHR ''['' # s"
  "skip_ws (json_string x @ s) = json_string x @ s"
  by (simp_all add: skip_ws_def json_string_def)

lemma begins_simps [simp]: "begins c (d # s) = (d = c)" "begins CHR '']'' (json_string x @ s) = False"
  by (auto simp: begins_def json_string_def)

lemma skip_items_string:
  "skip_items (Suc (Suc n)) False (json_string x @ t) =
     (if begins CHR '','' (skip_ws t) then skip_items (Suc n) False (skip_ws (tl (skip_ws t)))
      else if begins CHR '']'' (skip_ws t) then Some (tl (skip_ws t)) else None)"
proof -
  have "Option.bind (if False then skip_key (json_string x @ t) else Some (json_string x @ t)) (skip_value (Suc n)) = Some t"
    using skip_value_string[of n x t] by (simp del: skip_value.simps)
  then show ?thesis by (simp only: skip_items.simps(2)[of "Suc n" False "json_string x @ t"] option.case if_False)
qed

lemma skip_items_join:
  "xs \<noteq> [] \<Longrightarrow> length xs < n \<Longrightarrow> skip_items n False (join '','' (map json_string xs) @ '']'') = Some []"
proof (induction xs arbitrary: n)
  case (Cons x xs)
  have "n = Suc (Suc (n - 2))" using Cons.prems(2) by simp
  then obtain m where n: "n = Suc (Suc m)" by blast
  show ?case
  proof (cases xs)
    case Nil
    then show ?thesis by (simp add: n skip_items_string del: skip_items.simps)
  next
    case (Cons y ys)
    have ws: "skip_ws (join '','' (map json_string xs) @ t) = join '','' (map json_string xs) @ t" for t
      by (simp add: Cons join_Cons)
    have "skip_items (Suc m) False (join '','' (map json_string xs) @ '']'') = Some []"
      using Cons.IH[of "Suc m"] Cons.prems(2) n by (simp add: Cons)
    moreover have "join '','' (map json_string (x # xs)) @ '']'' = json_string x @ CHR '','' # (join '','' (map json_string xs) @ '']'')"
      by (simp add: Cons)
    ultimately show ?thesis by (simp add: n skip_items_string ws del: skip_items.simps join.simps list.map)
  qed
qed simp

lemma json_ok_strings: "json_ok (json_strings xs)"
proof (cases xs)
  case Nil
  then show ?thesis by (simp add: json_ok_def json_strings_def eval_nat_numeral)
next
  case (Cons x ys)
  have "length xs < Suc (2 * length (json_strings xs))"
    using length_join_json[of xs] by (simp add: json_strings_def)
  then have "skip_items (Suc (2 * length (json_strings xs))) False (join '','' (map json_string xs) @ '']'') = Some []"
    by (intro skip_items_join) (simp_all add: Cons)
  then show ?thesis by (simp add: json_ok_def json_strings_def Cons join_Cons)
qed

section \<open>The storage of the browser\<close>

type_synonym storage = "string \<Rightarrow> string option"

text \<open>
  \<open>setItem\<close> throws when the storage is full or forbidden (\<open>ok\<close> is false), which \<open>saveCustom\<close> ignores. What is read back
  is the empty list when \<open>JSON.parse\<close> rejects the text, the list when the text is one that the page writes, and otherwise
  the value of that JSON text, whatever it is (\<open>null\<close> or \<open>[1]\<close>, say), which no code of the page ever stores.
\<close>

definition save_custom :: "bool \<Rightarrow> string list \<Rightarrow> storage \<Rightarrow> storage" where
  "save_custom ok custom sto = (if ok then sto(''history.custom'' := Some (json_strings custom)) else sto)"

datatype saved = Saved_list "string list" | Saved_other string

definition load_saved :: "storage \<Rightarrow> saved" where
  "load_saved sto =
     (let s = text_or (sto ''history.custom'') ''[]'' in
      if \<not> json_ok s then Saved_list []
      else case parse_strings s of Some xs \<Rightarrow> Saved_list xs | None \<Rightarrow> Saved_other s)"

fun saves :: "history_event \<Rightarrow> bool" where
  "saves (Hi_pick i st) = True"
| "saves (Hi_remove i st) = True"
| "saves e = False"

definition stored_step :: "history_view \<times> storage \<Rightarrow> bool \<times> history_event \<Rightarrow> history_view \<times> storage" where
  "stored_step vs oe =
     (let v = history_step (fst vs) (snd oe)
      in (v, if saves (snd oe) then save_custom (fst oe) (hv_custom v) (snd vs) else snd vs))"

lemma load_save: "load_saved (save_custom True custom sto) = Saved_list custom"
proof -
  have "json_strings custom \<noteq> []" by (simp add: json_strings_def)
  then show ?thesis by (simp add: load_saved_def save_custom_def text_or_def parse_json_strings json_ok_strings)
qed

lemma other_json: "load_saved (\<lambda>k. Some ''null'') = Saved_other ''null''" "load_saved (\<lambda>k. Some ''[1]'') = Saved_other ''[1]''"
  by (simp_all add: load_saved_def text_or_def json_ok_def parse_strings_def starts_with_def skip_ws_def begins_def
      skip_number_def skip_digits_def skip_exponent_def is_digit_def Let_def eval_nat_numeral)

lemma custom_unless_saved: "\<not> saves e \<Longrightarrow> hv_custom (history_step v e) = hv_custom v"
  by (cases e) (auto simp: move_window_def start_history_load_def load_answer_def load_custom_def custom_answer_def Let_def
      split: option.splits)

interpretation saved_run: machine stored_step "\<lambda>vs oe. fst oe" "\<lambda>vs. load_saved (snd vs) = Saved_list (hv_custom (fst vs))"
  by unfold_locales (simp add: stored_step_def Let_def load_save custom_unless_saved)

text \<open>
  C35: the chosen sensors survive a reload: a page that starts with the list it read, after any use of the
  history page with a working storage, leaves in the storage a text from which the page that is loaded next reads exactly
  the sensors that are chosen now, in their order, whatever characters their identifiers hold, and whatever the storage
  held before (an array of strings, nothing, or a text that is no JSON).
\<close>

theorem custom_survives_reload:
  assumes "load_saved sto = Saved_list custom"
    and "enabled_run (\<lambda>vs oe. fst oe) stored_step (init_history custom, sto) es"
    and "(v, sto') = run stored_step (init_history custom, sto) es"
  shows "load_saved sto' = Saved_list (hv_custom v)"
  using saved_run.inv_run[OF _ assms(2)] assms(1) unfolding assms(3)[symmetric] by (simp add: init_history_def)

definition sample_saves :: "(bool \<times> history_event) list" where
  \<open>sample_saves = [(True, Hi_pick ''a"b'' sample_env), (True, Hi_pick ''c'' sample_env), (True, Hi_remove ''a"b'' sample_env)]\<close>

theorem custom_survives_reload_witness:
  "load_saved (snd (run stored_step (init_history [], \<lambda>k. Some ''no json'') sample_saves)) = Saved_list [''c'']"
proof -
  have none: "load_saved (\<lambda>k. Some ''no json'') = Saved_list []"
    by (simp add: load_saved_def text_or_def json_ok_def starts_with_def skip_ws_def begins_def
        skip_number_def skip_digits_def is_digit_def Let_def eval_nat_numeral)
  have custom: "hv_custom (history_step v (Hi_pick i en)) = add_custom i (hv_custom v)"
    "hv_custom (history_step v (Hi_remove i en)) = remove_custom i (hv_custom v)" for v i en
    by (simp_all add: load_custom_def Let_def)
  show ?thesis
    using custom_survives_reload[OF none _ prod.collapse, of sample_saves]
    by (simp add: sample_saves_def stored_step_def Let_def custom add_custom_def remove_custom_def init_history_def
        del: history_step.simps)
qed

end
