(* ===== verification/Pages.thy ===== *)
theory Pages
  imports Overview Energy Entities History
begin

text \<open>
  The frames that \<open>mount\<close> builds for the history, energy and entities pages and their parts of the top bar, as element
  trees (white space between tags left out, attribute values unescaped, fixed icons as paths).
\<close>

fun attr_values :: "string \<Rightarrow> dom \<Rightarrow> string list" where
  "attr_values k (El tag attrs cs) = map snd (filter (\<lambda>a. fst a = k) attrs) @ concat (map (attr_values k) cs)"
| "attr_values k (Tx s) = []"

definition ellipsis :: string where
  "ellipsis = [CHR 0xE2, CHR 0x80, CHR 0xA6]"

section \<open>History\<close>

definition icon_button :: "string \<Rightarrow> string \<Rightarrow> string \<Rightarrow> dom" where
  "icon_button i label path =
     El ''button'' [(''class'', ''icon-btn''), (''id'', i), (''title'', label), (''aria-label'', label)]
       [El ''svg'' [(''viewBox'', ''0 0 24 24'')]
          [path_el path [(''fill'', ''none''), (''stroke'', ''currentColor''), (''stroke-width'', ''2''), (''stroke-linecap'', ''round'')]]]"

definition history_bar :: dom where
  "history_bar =
     div_el ''rangebar'' []
       [icon_button ''h-prev'' ''Earlier'' ''M15 6l-6 6 6 6'',
        El ''span'' [(''class'', ''span-label''), (''id'', ''h-label'')] [],
        icon_button ''h-next'' ''Later'' ''M9 6l6 6-6 6'',
        div_el ''segmented'' [(''id'', ''h-ranges'')]
          (map (\<lambda>(l, s). El ''button'' [(''data-s'', number_text (Fin s))] [Tx l]) history_ranges)]"

definition panel_dom :: "panel_def \<Rightarrow> dom" where
  "panel_dom p =
     El ''section'' [(''class'', ''card chart-card span-'' @ nat_digits (pd_span p))]
       [div_el ''card-head'' [] [El ''h2'' [] [Tx (pd_title p)], El ''span'' [(''class'', ''sub'')] [Tx (pd_unit p)]],
        div_el [] [(''data-panel'', pd_id p)] []]"

definition history_page :: "store \<Rightarrow> dom" where
  "history_page st =
     div_el ''grid overview-grid'' []
       (map panel_dom (visible_panels st) @
        [El ''section'' [(''class'', ''card span-12'')]
           [div_el ''card-head'' [] [El ''h2'' [] [Tx ''Operating states'']],
            div_el [] [(''id'', ''h-states'')] []],
         El ''section'' [(''class'', ''card span-12'')]
           [div_el ''card-head'' []
              [div_el [] []
                 [El ''h2'' [] [Tx ''Custom chart''], sub_el (''Pick any sensors '' @ [CHR 0xE2, CHR 0x80, CHR 0x94] @ '' series are grouped by unit'')],
               El ''select'' [(''class'', ''input''), (''id'', ''h-pick'')]
                 [El ''option'' [(''value'', [])] [Tx (''+ Add sensor'' @ ellipsis)]]],
            div_el ''chips'' [(''id'', ''h-chips''), (''style'', ''margin-bottom:12px'')] [],
            div_el [] [(''id'', ''h-custom'')] []]])"

section \<open>Energy\<close>

definition energy_bar :: "energy_mode \<Rightarrow> dom" where
  "energy_bar mode =
     div_el ''segmented'' [(''id'', ''e-modes'')]
       (map (\<lambda>(l, m). El ''button'' [(''data-m'', mode_attr m), (''class'', if m = mode then ''active'' else [])] [Tx l]) MODES)"

definition card_section :: "string \<Rightarrow> dom list \<Rightarrow> dom list \<Rightarrow> dom" where
  "card_section cls head body = El ''section'' [(''class'', ''card '' @ cls)] (div_el ''card-head'' [] head # body)"

definition energy_page :: "bool \<Rightarrow> dom" where
  "energy_page counters =
     (if \<not> counters then
        div_el ''card empty-state'' []
          [El ''strong'' [] [Tx ''No energy counters''],
           Tx ([CHR 0xE2, CHR 0x80, CHR 0x9C] @ N K_energyIn @ [CHR 0xE2, CHR 0x80, CHR 0x9D] @ '' and '' @
               [CHR 0xE2, CHR 0x80, CHR 0x9C] @ N K_energyOut @ [CHR 0xE2, CHR 0x80, CHR 0x9D] @ '' were not discovered.'')]
      else
        div_el ''grid overview-grid'' []
          [El ''section'' [(''class'', ''span-12 kpis''), (''id'', ''e-kpis'')] [],
           card_section ''span-12'' [El ''h2'' [] [Tx ''Electricity vs. heat''], El ''span'' [(''class'', ''sub'')] [Tx ''kWh'']]
             [div_el [] [(''id'', ''e-bars'')] []],
           card_section ''span-6''
             [El ''h2'' [] [Tx ''Coefficient of performance''],
              El ''span'' [(''class'', ''sub'')] [Tx (''heat '' @ [CHR 0xC3, CHR 0xB7] @ '' electricity'')]]
             [div_el [] [(''id'', ''e-cop'')] []],
           card_section ''span-6'' [El ''h2'' [] [Tx ''Details'']]
             [div_el ''table-wrap'' [(''id'', ''e-table''), (''style'', ''max-height:300px;overflow-y:auto'')] []]])"

text \<open>The two charts: what \<open>load\<close> passes to \<open>barChart\<close>, for the width of their host elements.\<close>

definition energy_bars :: "(jsnum \<Rightarrow> jsnum) \<Rightarrow> (jsnum \<Rightarrow> jsnum) \<Rightarrow> locale_format \<Rightarrow> jsnum \<Rightarrow> energy_row list \<Rightarrow> string" where
  "energy_bars log10 pow10 loc client_width rows =
     (let groups = energy_groups loc rows
      in bar_chart (\<lambda>v. num loc (Some v) (if v < Fin 10 then 1 else 0)) ''kWh''
           (bar_frame log10 pow10 client_width (Fin 280) energy_series groups) energy_series groups)"

definition cop_bars :: "(jsnum \<Rightarrow> jsnum) \<Rightarrow> (jsnum \<Rightarrow> jsnum) \<Rightarrow> locale_format \<Rightarrow> jsnum \<Rightarrow> energy_row list \<Rightarrow> string" where
  "cop_bars log10 pow10 loc client_width rows =
     (let groups = cop_groups rows
      in bar_chart (\<lambda>v. num loc (Some v) 1) [] (bar_frame log10 pow10 client_width (Fin 240) cop_series groups) cop_series groups)"

section \<open>Overview\<close>

text \<open>\<open>renderFlowSub\<close>\<close>

definition flow_sub :: "jsnum \<Rightarrow> store \<Rightarrow> string" where
  "flow_sub now st = ''Updated '' @ ago now (s_last_message (st_status st))"

section \<open>Entities\<close>

definition entities_bar :: "string \<Rightarrow> dom" where
  "entities_bar query =
     El ''input'' [(''class'', ''search''), (''id'', ''en-search''), (''placeholder'', ''Search entities'' @ ellipsis), (''value'', query)] []"

definition entities_page :: "dom list" where
  "entities_page =
     [div_el ''chips'' [(''id'', ''en-filters''), (''style'', ''margin-bottom:16px'')] [],
      El ''section'' [(''class'', ''card''), (''style'', ''padding:6px 8px'')] [div_el ''table-wrap'' [(''id'', ''en-table'')] []]]"

section \<open>The hosts of the charts\<close>

lemma history_panels: "attr_values ''data-panel'' (history_page st) = map pd_id (visible_panels st)"
proof -
  have "concat (map (\<lambda>p. attr_values ''data-panel'' (panel_dom p)) ps) = map pd_id ps" for ps
    by (induction ps) (simp_all add: panel_dom_def div_el_def)
  then show ?thesis by (simp add: history_page_def div_el_def sub_el_def o_def)
qed

lemma panels_distinct: "distinct (map pd_id (visible_panels st))"
proof -
  have "distinct (map pd_id PANELS)" by (simp add: PANELS_def)
  then show ?thesis unfolding visible_panels_def by (rule distinct_map_filter)
qed

text \<open>The history page has one host element for each of its charts, and no two hosts with the same name.\<close>

theorem history_hosts:
  "length (attr_values ''data-panel'' (history_page (en_store en))) = length (hv_charts (mount_history en hv)) \<and>
   distinct (attr_values ''data-panel'' (history_page (en_store en)))"
proof -
  have "length (hv_charts (mount_history en hv)) = length (visible_panels (en_store en))"
    by (simp add: mount_history_def Let_def case_prod_beta)
  then show ?thesis by (simp add: history_panels panels_distinct)
qed

end
