(* ===== verification/Heating.thy ===== *)
theory Heating
  imports Store
begin

text \<open>
  Properties of the values \<open>store.js\<close> derives from the readings: the heating water law, the
  thermal output and the live COP. The readings are doubles of at most a million in size, so no
  operation overflows; rounding is that of binary64 throughout.
\<close>

abbreviation reading :: "jsnum \<Rightarrow> bool" where
  "reading v \<equiv> bounded 1000000 v"

lemma rnd_million [simp]: "rnd 1000000 = 1000000" "rnd 2000000 = 2000000" "rnd 4000000 = 4000000"
  by simp_all

lemma fl_million: "\<bar>x\<bar> \<le> 900000000000000000 \<Longrightarrow> fl x = Fin (rnd x)"
  by (rule fl_small) simp

section \<open>The water law\<close>

text \<open>The curve on finite doubles.\<close>

definition law_line :: "rat \<Rightarrow> rat \<Rightarrow> rat \<Rightarrow> rat \<Rightarrow> rat \<Rightarrow> rat" where
  "law_line o' c w a b = rnd (a + rnd (rnd (rnd (o' - c) / rnd (w - c)) * rnd (b - a)))"

lemma law_ratio:
  assumes "c < o'" "o' < w" "rnd c = c" "rnd w = w"
  shows "0 \<le> rnd (rnd (o' - c) / rnd (w - c)) \<and> rnd (rnd (o' - c) / rnd (w - c)) \<le> 1"
  using assms rnd_diff_pos[of c w] by (intro dbl.r_ratio) auto

lemma law_step_size:
  assumes "0 \<le> t" "t \<le> 1"
  shows "\<bar>rnd (t * rnd d)\<bar> \<le> \<bar>rnd d\<bar>"
  using dbl.r_scale[of t "rnd d"] assms by (cases "0 \<le> rnd d") auto

lemma water_law_curve_Fin:
  assumes "reading (Fin o')" "reading (Fin c)" "reading (Fin w)" "reading (Fin a)" "reading (Fin b)"
  shows "water_law_curve (Fin o') (Fin c) (Fin w) (Fin a) (Fin b) =
    Fin (if o' \<le> c \<or> w \<le> c then a else if w \<le> o' then b else law_line o' c w a b)"
proof (cases "o' \<le> c \<or> w \<le> c \<or> w \<le> o'")
  case False
  then have ord: "c < o'" "o' < w" "c < w" by auto
  have sizes: "\<bar>o' - c\<bar> \<le> 2000000" "\<bar>w - c\<bar> \<le> 2000000" "\<bar>b - a\<bar> \<le> 2000000" "\<bar>a\<bar> \<le> 1000000"
    using assms by auto
  have d: "fl (o' - c) = Fin (rnd (o' - c))" "fl (w - c) = Fin (rnd (w - c))" "fl (b - a) = Fin (rnd (b - a))"
    using sizes by (auto intro!: fl_million)
  have pos: "0 < rnd (w - c)" using assms ord by (auto intro: rnd_diff_pos)
  have "0 \<le> rnd (o' - c)" "rnd (o' - c) \<le> rnd (w - c)"
    using ord by (auto intro: rnd_mono rnd_nonneg)
  then have "0 \<le> rnd (o' - c) / rnd (w - c)" "rnd (o' - c) / rnd (w - c) \<le> 1"
    using pos by (simp_all add: pos_divide_le_eq)
  then have q: "fl (rnd (o' - c) / rnd (w - c)) = Fin (rnd (rnd (o' - c) / rnd (w - c)))"
    by (intro fl_million) simp
  let ?t = "rnd (rnd (o' - c) / rnd (w - c))"
  have t: "0 \<le> ?t" "?t \<le> 1" using law_ratio[of c o' w] assms ord by auto
  have rd: "\<bar>rnd (b - a)\<bar> \<le> 2000000" using sizes by (intro dbl.r_abs_le) auto
  have "\<bar>?t * rnd (b - a)\<bar> \<le> 1 * \<bar>rnd (b - a)\<bar>"
    using t unfolding abs_mult by (intro mult_right_mono) auto
  with rd have p: "fl (?t * rnd (b - a)) = Fin (rnd (?t * rnd (b - a)))"
    by (intro fl_million) simp
  have "\<bar>rnd (?t * rnd (b - a))\<bar> \<le> 2000000" using law_step_size[OF t, of "b - a"] rd by simp
  then have "fl (a + rnd (?t * rnd (b - a))) = Fin (law_line o' c w a b)"
    using sizes unfolding law_line_def by (intro fl_million) simp
  with False pos show ?thesis by (simp add: water_law_curve_def d q p)
qed (auto simp: water_law_curve_def)

lemma law_line_bounds:
  assumes "c < o'" "o' < w" "rnd c = c" "rnd w = w" "rnd a = a" "rnd b = b"
    and exact: "rnd (a + rnd (b - a)) = b"
  shows "min a b \<le> law_line o' c w a b \<and> law_line o' c w a b \<le> max a b"
proof -
  define t where "t = rnd (rnd (o' - c) / rnd (w - c))"
  define p where "p = rnd (t * rnd (b - a))"
  have t: "0 \<le> t" "t \<le> 1" using law_ratio[of c o' w] assms by (auto simp: t_def)
  have L: "law_line o' c w a b = rnd (a + p)" by (simp add: law_line_def p_def t_def)
  show ?thesis
  proof (cases "a \<le> b")
    case True
    then have "0 \<le> p" "p \<le> rnd (b - a)"
      using dbl.r_scale(1)[OF t, of "rnd (b - a)"] by (auto simp: p_def rnd_nonneg)
    then have "rnd a \<le> rnd (a + p)" "rnd (a + p) \<le> rnd (a + rnd (b - a))" by (auto intro: rnd_mono)
    with True show ?thesis by (simp add: L assms exact)
  next
    case False
    then have "rnd (b - a) \<le> 0" by (auto intro: dbl.r_le_0)
    then have "p \<le> 0" "rnd (b - a) \<le> p"
      using dbl.r_scale(2)[OF t, of "rnd (b - a)"] by (auto simp: p_def)
    then have "rnd (a + p) \<le> rnd a" "rnd (a + rnd (b - a)) \<le> rnd (a + p)" by (auto intro: rnd_mono)
    with False show ?thesis by (simp add: L assms exact)
  qed
qed

lemma law_line_antimono:
  assumes "o1 \<le> o2" "c < w" "rnd c = c" "rnd w = w" and "b \<le> a"
  shows "law_line o2 c w a b \<le> law_line o1 c w a b"
proof -
  have "0 < rnd (w - c)" using assms by (intro rnd_diff_pos) auto
  then have t: "rnd (rnd (o1 - c) / rnd (w - c)) \<le> rnd (rnd (o2 - c) / rnd (w - c))"
    using assms(1) by (intro rnd_mono divide_right_mono) auto
  have "rnd (b - a) \<le> 0" using assms(5) by (auto intro: dbl.r_le_0)
  from mult_right_mono_neg[OF t this] show ?thesis
    unfolding law_line_def by (intro rnd_mono add_left_mono)
qed

lemma law_line_below:
  assumes "c < o'" "o' < w" "rnd c = c" "rnd w = w" "rnd a = a" "b \<le> a"
  shows "law_line o' c w a b \<le> a"
proof -
  have "rnd (b - a) \<le> 0" using assms(6) by (auto intro: dbl.r_le_0)
  moreover have "0 \<le> rnd (rnd (o' - c) / rnd (w - c))" using law_ratio[OF assms(1-4)] ..
  ultimately have "rnd (rnd (rnd (o' - c) / rnd (w - c)) * rnd (b - a)) \<le> 0"
    by (simp add: dbl.r_le_0 mult_nonneg_nonpos)
  then have "law_line o' c w a b \<le> rnd a" unfolding law_line_def by (intro rnd_mono) simp
  then show ?thesis by (simp add: assms(5))
qed

text \<open>Rounding matters only at the step onto the warm end: there the line must end at \<open>b\<close> exactly.\<close>

lemma water_law_curve_antimono:
  assumes r: "reading (Fin o1)" "reading (Fin o2)" "reading (Fin c)" "reading (Fin w)" "reading (Fin a)" "reading (Fin b)"
    and "o1 \<le> o2" and "b \<le> a" and exact: "c < o1 \<Longrightarrow> o1 < w \<Longrightarrow> w \<le> o2 \<Longrightarrow> rnd (a + rnd (b - a)) = b"
  shows "water_law_curve (Fin o2) (Fin c) (Fin w) (Fin a) (Fin b)
       \<le> water_law_curve (Fin o1) (Fin c) (Fin w) (Fin a) (Fin b)"
proof -
  note F = water_law_curve_Fin[OF r(1,3-6)] water_law_curve_Fin[OF r(2-6)]
  have d: "rnd c = c" "rnd w = w" "rnd a = a" "rnd b = b" using r by auto
  consider "w \<le> c \<or> o1 \<le> c" | "c < o1" "w \<le> o1" | "c < o1" "o1 < w" "o2 < w" | "c < o1" "o1 < w" "w \<le> o2" by linarith
  then show ?thesis
  proof cases
    case 1
    have "law_line o2 c w a b \<le> a" if "c < o2" "o2 < w" using law_line_below[OF that d(1-3) assms(8)] .
    with 1 assms(8) show ?thesis unfolding F by auto
  next
    case 2
    with assms(7) show ?thesis unfolding F by auto
  next
    case 3
    with assms(7) law_line_antimono[of o1 o2 c w b a] d assms(8) show ?thesis unfolding F by auto
  next
    case 4
    from law_line_bounds[OF 4(1,2) d exact[OF 4]] assms(8) have "b \<le> law_line o1 c w a b" by (simp add: min_def split: if_splits)
    with 4 show ?thesis unfolding F by auto
  qed
qed

section \<open>Properties\<close>

text \<open>
  When all five inputs are readings and the span of the flow temperatures is exact in
  floating point, the water law target is the offset added to a temperature between the two
  configured flow temperatures, whatever the outdoor temperature.
\<close>

theorem water_law_between:
  assumes "val st (N K_outdoor) = Some ot" "fsv st 2011 = Some tc" "fsv st 2012 = Some tw"
    and "fsv st (if zone = 1 then 2021 else 2031) = Some wc" "fsv st (if zone = 1 then 2022 else 2032) = Some ww"
    and "reading ot" "reading tc" "reading tw" "reading wc" "reading ww"
    and exact: "wc + (ww - wc) = ww"
  shows "\<exists>x. water_law_target st zone = Some (x + nullish (val st (N K_lawOffset)) 0)
    \<and> jmin wc ww \<le> x \<and> x \<le> jmax wc ww"
proof -
  from assms(6-10) obtain o' c w a b where F: "ot = Fin o'" "tc = Fin c" "tw = Fin w" "wc = Fin a" "ww = Fin b"
    by (metis boundedE)
  have ab: "\<bar>a\<bar> \<le> 1000000" "\<bar>b\<bar> \<le> 1000000" "rnd a = a" "rnd b = b" "rnd c = c" "rnd w = w"
    using assms(6-10) F by auto
  have "\<bar>b - a\<bar> \<le> 2000000" using ab by linarith
  then have "\<bar>rnd (b - a)\<bar> \<le> 2000000" by (rule dbl.r_abs_le) simp
  then have "\<bar>a + rnd (b - a)\<bar> \<le> 3000000" using ab by linarith
  with \<open>\<bar>b - a\<bar> \<le> 2000000\<close> exact have ex: "rnd (a + rnd (b - a)) = b"
    by (simp add: F fl_million)
  let ?x = "water_law_curve ot tc tw wc ww"
  have "jmin wc ww \<le> ?x \<and> ?x \<le> jmax wc ww"
    using law_line_bounds[of c o' w a b] ab ex assms(6-10)
    by (simp add: F water_law_curve_Fin)
  moreover have "water_law_target st zone = Some (?x + nullish (val st (N K_lawOffset)) 0)"
    using assms(1-5) by (simp add: water_law_target_def)
  ultimately show ?thesis by blast
qed

text \<open>
  C26: the law is antitone: when the two stores agree on the field settings and the offset and the warm-day flow
  temperature is not above the cold-day one, a higher outdoor temperature never gives a higher target, in spite of the
  rounding of every step of the interpolation. The one exception is the step from the inside of the range onto its warm
  end: there the span of the flow temperatures has to be exact (\<open>water_law_rounds\<close> shows that it fails otherwise).
\<close>

theorem water_law_antitone:
  assumes "val st (N K_outdoor) = Some o1" "val st' (N K_outdoor) = Some o2" "o1 \<le> o2"
    and "\<forall>code \<in> {2011, 2012, if zone = 1 then 2021 else 2031, if zone = 1 then 2022 else 2032}. fsv st' code = fsv st code"
    and "val st (N K_lawOffset) = Some off" "val st' (N K_lawOffset) = Some off"
    and "fsv st 2011 = Some tc" "fsv st 2012 = Some tw"
    and "fsv st (if zone = 1 then 2021 else 2031) = Some wc" "fsv st (if zone = 1 then 2022 else 2032) = Some ww"
    and "reading o1" "reading o2" "reading tc" "reading tw" "reading wc" "reading ww" "reading off"
    and "ww \<le> wc" and exact: "tc < o1 \<Longrightarrow> o1 < tw \<Longrightarrow> tw \<le> o2 \<Longrightarrow> wc + (ww - wc) = ww"
  shows "\<exists>t t'. water_law_target st zone = Some t \<and> water_law_target st' zone = Some t' \<and> t' \<le> t"
proof -
  obtain p1 p2 c w a b f where F: "o1 = Fin p1" "o2 = Fin p2" "tc = Fin c" "tw = Fin w" "wc = Fin a" "ww = Fin b" "off = Fin f"
    using assms(11-17) by (metis boundedE)
  have ab: "\<bar>a\<bar> \<le> 1000000" "\<bar>b\<bar> \<le> 1000000" using assms(15,16) F by auto
  then have "\<bar>b - a\<bar> \<le> 2000000" by linarith
  moreover from this have "\<bar>rnd (b - a)\<bar> \<le> 2000000" by (rule dbl.r_abs_le) simp
  ultimately have ex: "rnd (a + rnd (b - a)) = b" if "c < p1" "p1 < w" "w \<le> p2"
    using exact that ab by (simp add: F fl_million)
  let ?k1 = "water_law_curve o1 tc tw wc ww" and ?k2 = "water_law_curve o2 tc tw wc ww"
  have "?k2 \<le> ?k1" unfolding F
    by (rule water_law_curve_antimono) (use assms(3,11-18) ex F in auto)
  moreover obtain k1 k2 where k: "?k1 = Fin k1" "?k2 = Fin k2"
    using water_law_curve_Fin[of p1 c w a b] water_law_curve_Fin[of p2 c w a b] assms(11-16) by (simp add: F)
  ultimately have "?k2 + off \<le> ?k1 + off" by (simp add: F(7) fl_mono)
  moreover have "water_law_target st zone = Some (?k1 + off)" "water_law_target st' zone = Some (?k2 + off)"
    using assms(1,2,4-10) by (simp_all add: water_law_target_def)
  ultimately show ?thesis by blast
qed

text \<open>
  Without the exactness the law can rise by a rounding error: 15 degrees for the cold day and 5.2 for the warm one, at the
  last double below the warm end of 15 degrees outside and at that end.
\<close>

theorem water_law_rounds:
  "water_law_curve (Fin (15 - 1 / 2 ^ 49)) (Fin (- 10)) (Fin 15) (Fin 15) (fl (52/10)) <
   water_law_curve (Fin 15) (Fin (- 10)) (Fin 15) (Fin 15) (fl (52/10))"
  by code_simp

lemma heat_output_Fin:
  assumes "val st (N K_flow) = Some flow" "val st (N K_waterOut) = Some out" "val st (N K_waterIn) = Some inn"
    and "reading flow" "reading out" "reading inn"
  shows "\<exists>q. heat_output st = Some (Fin q) \<and> 0 \<le> q \<and> q \<le> 9000000000000000
    \<and> (val st (N K_freq) = Some 0 \<or> 0 \<le> flow \<and> out \<le> inn \<longrightarrow> q = 0)"
proof -
  obtain f a b where F: "flow = Fin f" "out = Fin a" "inn = Fin b"
    using assms(4-6) by (metis boundedE)
  have r: "\<bar>f\<bar> \<le> 1000000" "\<bar>a\<bar> \<le> 1000000" "\<bar>b\<bar> \<le> 1000000"
    using assms(4-6) by (auto simp: F)
  define m where "m = rnd (f / 60)"
  define n where "n = rnd (m * 4186)"
  define d where "d = rnd (a - b)"
  have "\<bar>f / 60\<bar> \<le> 1000000" using r(1) by auto
  then have m: "fl (f / 60) = Fin m" "\<bar>m\<bar> \<le> 1000000"
    unfolding m_def by (auto intro!: fl_million dbl.r_abs_le simp del: abs_le_iff abs_divide)
  then have "\<bar>m * 4186\<bar> \<le> 4186000000" by auto
  then have n: "fl (m * 4186) = Fin n" "\<bar>n\<bar> \<le> 4186000000"
    unfolding n_def by (auto intro!: fl_million dbl.r_abs_le simp del: abs_le_iff)
  have "\<bar>a - b\<bar> \<le> 2000000" using r by linarith
  then have d: "fl (a - b) = Fin d" "\<bar>d\<bar> \<le> 2000000"
    unfolding d_def by (auto intro!: fl_million dbl.r_abs_le simp del: abs_le_iff)
  have nd: "\<bar>n * d\<bar> \<le> 4186000000 * 2000000"
    unfolding abs_mult using n d by (intro mult_mono) auto
  then have p: "fl (n * d) = Fin (rnd (n * d))" by (intro fl_million) simp
  have "\<bar>rnd (n * d)\<bar> \<le> 9000000000000000" using nd by (intro dbl.r_abs_le) auto
  then have size: "rnd (n * d) \<le> 9000000000000000" by (simp add: abs_le_iff)
  have neg: "rnd (n * d) \<le> 0" if "0 \<le> f" "a \<le> b"
  proof -
    have "0 \<le> n" using that(1) unfolding n_def m_def by (intro rnd_nonneg) (auto intro!: mult_nonneg_nonneg rnd_nonneg)
    with that(2) show ?thesis unfolding d_def by (intro dbl.r_le_0 mult_nonneg_nonpos) auto
  qed
  have H: "heat_output st = (if val st (N K_freq) = Some 0 then Some 0 else Some (Fin (max 0 (rnd (n * d)))))"
    using assms(1-3) m(1) n(1) d(1) p
    by (auto simp: heat_output_def F num_eq_def zero_jsnum_def split: option.splits)
  show ?thesis using neg size by (auto simp: H F zero_jsnum_def)
qed

text \<open>
  The thermal output is never negative; it is zero when the compressor stands still and when
  the return is not colder than the flow.
\<close>

theorem heat_output_sign:
  assumes "val st (N K_flow) = Some flow" "val st (N K_waterOut) = Some out" "val st (N K_waterIn) = Some inn"
    and "reading flow" "reading out" "reading inn" "0 \<le> flow"
  shows "\<exists>q. heat_output st = Some (Fin q) \<and> 0 \<le> q
    \<and> (val st (N K_freq) = Some 0 \<or> out \<le> inn \<longrightarrow> q = 0)"
  using heat_output_Fin[OF assms(1-6)] assms(7) by auto

text \<open>
  C28: whatever the readings are, also with a return warmer than the flow or a negative flow, the live COP is a
  finite number, never negative, zero when water that flows gains no heat, and at most the heat output over 150 W, so no
  COP comes out of a division by a small power; it is missing exactly when the power is below 150 W or the compressor
  stands still.
\<close>

theorem live_cop_bounded:
  assumes "val st (N K_flow) = Some flow" "val st (N K_waterOut) = Some out" "val st (N K_waterIn) = Some inn"
    and "val st (N K_power) = Some pw" "reading flow" "reading out" "reading inn" "reading pw"
  shows "if pw < Fin 150 \<or> \<not> opt_truthy (val st (N K_freq)) then live_cop st = None
    else \<exists>c heat. live_cop st = Some (Fin c) \<and> heat_output st = Some heat \<and> 0 \<le> c \<and> Fin c \<le> heat / Fin 150
      \<and> (0 \<le> flow \<and> out \<le> inn \<longrightarrow> c = 0)"
proof -
  from heat_output_Fin[OF assms(1-3,5-7)] obtain q where q: "heat_output st = Some (Fin q)" "0 \<le> q" "q \<le> 9000000000000000"
    "0 \<le> flow \<Longrightarrow> out \<le> inn \<Longrightarrow> q = 0" by blast
  obtain p where p: "pw = Fin p" using assms(8) by (metis boundedE)
  show ?thesis
  proof (cases "pw < Fin 150 \<or> \<not> opt_truthy (val st (N K_freq))")
    case True
    then show ?thesis by (auto simp: live_cop_def assms(4) q(1))
  next
    case False
    then have p150: "150 \<le> p" by (simp add: p)
    have "q / p \<le> q / 150" using p150 q by (intro frac_le) auto
    then have le: "q / p \<le> q / 150" "0 \<le> q / p" "q / 150 \<le> 1000000000000000"
      using q p150 by auto
    then have "\<bar>q / p\<bar> \<le> 900000000000000000" "\<bar>q / 150\<bar> \<le> 900000000000000000"
      using q unfolding abs_of_nonneg[OF le(2)] by linarith+
    then have "fl (q / p) = Fin (rnd (q / p))" "fl (q / 150) = Fin (rnd (q / 150))"
      by (simp_all only: fl_million)
    moreover have "live_cop st = Some (fl (q / p))"
      using False p150 by (simp add: live_cop_def assms(4) q(1) p)
    ultimately show ?thesis using False le q(1,4) by (auto simp: intro: rnd_nonneg rnd_mono)
  qed
qed

section \<open>The properties at a sample heat pump\<close>

lemma sample_values:
  "val (sample_store 5) (N K_outdoor) = Some (Fin 5)" "val (sample_store 6) (N K_outdoor) = Some (Fin 6)"
  "val (sample_store 5) (N K_lawOffset) = Some (Fin 1)" "val (sample_store 6) (N K_lawOffset) = Some (Fin 1)"
  "val (sample_store 5) (N K_flow) = Some (Fin 15)" "val (sample_store 5) (N K_waterOut) = Some (Fin 35)"
  "val (sample_store 5) (N K_waterIn) = Some (Fin 30)" "val (sample_store 5) (N K_power) = Some (Fin 1000)"
  "val (sample_store 5) (N K_freq) = Some (Fin 50)"
  by code_simp+

lemma sample_settings:
  "fsv (sample_store 5) 2011 = Some (Fin (- 10))" "fsv (sample_store 5) 2012 = Some (Fin 15)"
  "fsv (sample_store 5) 2021 = Some (Fin 40)" "fsv (sample_store 5) 2022 = Some (Fin 25)"
  "fsv (sample_store 6) 2011 = Some (Fin (- 10))" "fsv (sample_store 6) 2012 = Some (Fin 15)"
  "fsv (sample_store 6) 2021 = Some (Fin 40)" "fsv (sample_store 6) 2022 = Some (Fin 25)"
  by code_simp+

theorem water_law_between_witness:
  "\<exists>x. water_law_target (sample_store 5) 1 = Some (x + Fin 1) \<and> Fin 25 \<le> x \<and> x \<le> Fin 40"
  using water_law_between[of "sample_store 5" "Fin 5" "Fin (- 10)" "Fin 15" 1 "Fin 40" "Fin 25"]
  by (simp add: sample_values sample_settings)

theorem water_law_antitone_witness:
  "\<exists>t t'. water_law_target (sample_store 5) 1 = Some t \<and> water_law_target (sample_store 6) 1 = Some t' \<and> t' \<le> t"
  by (rule water_law_antitone[of _ "Fin 5" _ "Fin 6" 1 "Fin 1" "Fin (- 10)" "Fin 15" "Fin 40" "Fin 25"])
    (simp_all add: sample_values sample_settings)

theorem heat_output_sign_witness:
  "\<exists>q. heat_output (sample_store 5) = Some (Fin q) \<and> 0 \<le> q"
  using heat_output_sign[of "sample_store 5" "Fin 15" "Fin 35" "Fin 30"]
  by (auto simp: sample_values zero_jsnum_def)

theorem live_cop_bounded_witness:
  "\<exists>c heat. live_cop (sample_store 5) = Some (Fin c) \<and> heat_output (sample_store 5) = Some heat \<and> 0 \<le> c \<and> Fin c \<le> heat / Fin 150"
  using live_cop_bounded[of "sample_store 5" "Fin 15" "Fin 35" "Fin 30" "Fin 1000"]
  by (auto simp: sample_values num_truthy_def zero_jsnum_def)

end
