(* ===== verification/Connection.thy ===== *)
theory Connection
  imports Store
begin

text \<open>
  \<open>connect\<close> of \<open>store.js\<close>: the WebSocket, its four handlers and the reconnect timer, as a state
  machine. \<open>retry\<close> and the pending \<open>setTimeout\<close> calls are part of the state; the environment
  (browser and server) chooses the next event among those \<open>conn_enabled\<close> allows: a socket
  opens once, carries messages only while open, and reports \<open>close\<close> exactly once.
\<close>

section \<open>The URL\<close>

text \<open>\<open>location.pathname.replace(/[^/]*$/, "")\<close> drops what follows the last slash.\<close>

definition base_path :: "string \<Rightarrow> string" where
  "base_path p = rev (dropWhile (\<lambda>c. c \<noteq> CHR ''/'') (rev p))"

definition ws_url :: "string \<Rightarrow> string \<Rightarrow> string \<Rightarrow> string" where
  "ws_url protocol host pathname =
     (if protocol = ''https:'' then ''wss'' else ''ws'') @ ''://'' @ host @ base_path pathname @ ''ws''"

section \<open>State and handlers\<close>

datatype phase = Connecting | Open | Closing

record conn =
  c_store :: store
  c_retry :: nat
  c_sockets :: "(nat \<times> phase) list"
  c_next :: nat
  c_timers :: "nat list"
  c_emitted :: "ui_event list"

definition open_socket :: "conn \<Rightarrow> conn" where
  "open_socket c = c\<lparr> c_sockets := c_sockets c @ [(c_next c, Connecting)], c_next := Suc (c_next c) \<rparr>"

definition set_connected :: "bool \<Rightarrow> conn \<Rightarrow> conn" where
  "set_connected b c = c\<lparr> c_store := (c_store c)\<lparr> st_ws_connected := b \<rparr>, c_emitted := c_emitted c @ [Ev_connection] \<rparr>"

definition ws_onopen :: "nat \<Rightarrow> conn \<Rightarrow> conn" where
  "ws_onopen s c = set_connected True (c\<lparr> c_sockets := map_set s Open (c_sockets c), c_retry := 1000 \<rparr>)"

definition ws_onmessage :: "message \<Rightarrow> conn \<Rightarrow> conn" where
  "ws_onmessage m c =
     (let r = on_message m (c_store c) in c\<lparr> c_store := fst r, c_emitted := c_emitted c @ snd r \<rparr>)"

definition ws_onclose :: "nat \<Rightarrow> conn \<Rightarrow> conn" where
  "ws_onclose s c =
     (let c' = set_connected False (c\<lparr> c_sockets := map_delete s (c_sockets c) \<rparr>)
      in c'\<lparr> c_timers := c_timers c' @ [c_retry c'], c_retry := min (c_retry c' * 2) 15000 \<rparr>)"

definition ws_onerror :: "nat \<Rightarrow> conn \<Rightarrow> conn" where
  "ws_onerror s c = c\<lparr> c_sockets := map_set s Closing (c_sockets c) \<rparr>"

definition reconnect :: "nat \<Rightarrow> conn \<Rightarrow> conn" where
  "reconnect i c = open_socket (c\<lparr> c_timers := take i (c_timers c) @ drop (Suc i) (c_timers c) \<rparr>)"

definition start_connection :: "store \<Rightarrow> conn" where
  "start_connection st = open_socket \<lparr> c_store = st, c_retry = 1000, c_sockets = [], c_next = 0,
     c_timers = [], c_emitted = [] \<rparr>"

datatype conn_event =
    Ws_open nat
  | Ws_message nat message
  | Ws_error nat
  | Ws_close nat
  | Timer nat

fun conn_step :: "conn \<Rightarrow> conn_event \<Rightarrow> conn" where
  "conn_step c (Ws_open s) = ws_onopen s c"
| "conn_step c (Ws_message s m) = ws_onmessage m c"
| "conn_step c (Ws_error s) = ws_onerror s c"
| "conn_step c (Ws_close s) = ws_onclose s c"
| "conn_step c (Timer i) = reconnect i c"

fun conn_enabled :: "conn \<Rightarrow> conn_event \<Rightarrow> bool" where
  "conn_enabled c (Ws_open s) = (map_get (c_sockets c) s = Some Connecting)"
| "conn_enabled c (Ws_message s m) = (map_get (c_sockets c) s = Some Open)"
| "conn_enabled c (Ws_error s) = (map_get (c_sockets c) s \<noteq> None)"
| "conn_enabled c (Ws_close s) = (map_get (c_sockets c) s \<noteq> None)"
| "conn_enabled c (Timer i) = (i < length (c_timers c))"

section \<open>The invariant\<close>

text \<open>
  There is one live socket (the last one opened) or one pending timer, never both and never none; the delays stay
  between one and fifteen seconds; the store says connected only while a socket is up.
\<close>

definition conn_ok :: "conn \<Rightarrow> bool" where
  "conn_ok c \<longleftrightarrow>
     ((\<exists>s p. c_sockets c = [(s, p)] \<and> c_next c = Suc s \<and> (st_ws_connected (c_store c) \<longrightarrow> p \<noteq> Connecting)) \<and> c_timers c = []
      \<or> c_sockets c = [] \<and> length (c_timers c) = 1 \<and> \<not> st_ws_connected (c_store c))
     \<and> 1000 \<le> c_retry c \<and> c_retry c \<le> 15000
     \<and> (\<forall>d\<in>set (c_timers c). 1000 \<le> d \<and> d \<le> 15000)
     \<and> store_ok (c_store c)"

lemmas handler_defs = ws_onopen_def ws_onmessage_def ws_onclose_def ws_onerror_def reconnect_def
  open_socket_def set_connected_def Let_def

lemma on_message_connected [simp]:
  "st_ws_connected (fst (on_message m st)) = st_ws_connected st"
  by (auto simp: on_message_def set_entities_def Let_def split: message.splits option.splits)

lemma store_ok_on_message: "store_ok st \<Longrightarrow> store_ok (fst (on_message m st))"
  using store_ok_message[of st m] by (simp add: after_message_def)

lemma store_ok_connected [simp]: "store_ok (st\<lparr> st_ws_connected := b \<rparr>) = store_ok st"
  by (simp add: store_ok_def)

lemma conn_ok_cases:
  assumes "conn_ok c"
  obtains (up) s p where "c_sockets c = [(s, p)]" "c_timers c = []" "c_next c = Suc s"
      "st_ws_connected (c_store c) \<longrightarrow> p \<noteq> Connecting"
    | (waiting) d where "c_sockets c = []" "c_timers c = [d]" "\<not> st_ws_connected (c_store c)"
  using assms by (auto simp: conn_ok_def length_Suc_conv)

lemma conn_ok_step: "conn_ok c \<Longrightarrow> conn_enabled c e \<Longrightarrow> conn_ok (conn_step c e)"
proof -
  assume ok: "conn_ok c" and en: "conn_enabled c e"
  have r: "1000 \<le> c_retry c" "c_retry c \<le> 15000" "store_ok (c_store c)" using ok by (auto simp: conn_ok_def)
  from ok show ?thesis
  proof (cases rule: conn_ok_cases)
    case (up s p)
    then show ?thesis
      using en r by (cases e) (auto simp: conn_ok_def handler_defs store_ok_on_message split: if_splits)
  next
    case (waiting d)
    then show ?thesis using en r ok by (cases e) (auto simp: conn_ok_def handler_defs)
  qed
qed

lemma conn_ok_start: "store_ok st \<Longrightarrow> \<not> st_ws_connected st \<Longrightarrow> conn_ok (start_connection st)"
  by (simp add: conn_ok_def start_connection_def open_socket_def)

interpretation conn_run: machine conn_step conn_enabled conn_ok
  by unfold_locales (rule conn_ok_step)

section \<open>Properties\<close>

text \<open>
  C5: the connection never gives up and never doubles: in every reachable state there is exactly
  one live socket or pending reconnect timer, every delay lies between one and fifteen seconds,
  and the store says connected only while that socket has been opened and not yet closed.
\<close>

theorem reconnects_forever:
  assumes "enabled_run conn_enabled conn_step (start_connection init_store) es"
    and "c = run conn_step (start_connection init_store) es"
  shows "length (c_sockets c) + length (c_timers c) = 1 \<and> (\<forall>d\<in>set (c_timers c). 1000 \<le> d \<and> d \<le> 15000)
    \<and> (st_ws_connected (c_store c) \<longrightarrow> (\<exists>s p. c_sockets c = [(s, p)] \<and> p \<noteq> Connecting))"
proof -
  have "conn_ok (start_connection init_store)"
    by (rule conn_ok_start[OF store_ok_init]) (simp add: init_store_def)
  then have "conn_ok c" unfolding assms(2) using assms(1) by (rule conn_run.inv_run)
  then show ?thesis by (auto simp: conn_ok_def)
qed

text \<open>A series of connection attempts that all fail, from the loss of socket \<open>s\<close> on.\<close>

fun outage :: "nat \<Rightarrow> nat \<Rightarrow> conn_event list" where
  "outage s 0 = [Ws_close s]"
| "outage s (Suc k) = Ws_close s # Timer 0 # outage (Suc s) k"

lemma capped_product:
  fixes x m a :: nat
  assumes "1 \<le> a"
  shows "min (min x m * a) m = min (x * a) m"
proof (cases "x \<le> m")
  case False
  have "m \<le> m * a" using assms by simp
  moreover have "m * a \<le> x * a" using False by simp
  ultimately have "m \<le> x * a" by (rule order_trans)
  with False \<open>m \<le> m * a\<close> show ?thesis by (simp only: min.absorb2 nat_le_linear not_le less_imp_le)
qed simp

lemma outage_delay:
  assumes "c_sockets c = [(s, p)]" "c_timers c = []" "c_next c = Suc s" "c_retry c \<le> 15000"
  shows "enabled_run conn_enabled conn_step c (outage s k)
    \<and> c_timers (run conn_step c (outage s k)) = [min (c_retry c * 2 ^ k) 15000]"
  using assms
proof (induction k arbitrary: c s p)
  case 0
  then show ?case by (simp add: handler_defs)
next
  case (Suc k)
  define c1 where "c1 = reconnect 0 (ws_onclose s c)"
  have c1: "c_sockets c1 = [(Suc s, Connecting)]" "c_timers c1 = []" "c_next c1 = Suc (Suc s)"
    "c_retry c1 = min (c_retry c * 2) 15000"
    using Suc.prems by (simp_all add: c1_def handler_defs)
  have en: "conn_enabled c (Ws_close s)" "conn_enabled (ws_onclose s c) (Timer 0)"
    using Suc.prems by (simp_all add: handler_defs)
  have "enabled_run conn_enabled conn_step c1 (outage (Suc s) k)
    \<and> c_timers (run conn_step c1 (outage (Suc s) k)) = [min (c_retry c1 * 2 ^ k) 15000]"
    by (rule Suc.IH) (use c1 in auto)
  moreover have "min (c_retry c1 * 2 ^ k) 15000 = min (c_retry c * 2 ^ Suc k) 15000"
    using capped_product[of "2 ^ k" "c_retry c * 2" 15000] by (simp add: c1(4) mult.assoc)
  ultimately show ?case using en by (simp add: c1_def)
qed

text \<open>
  C6: after a socket that had opened is lost and k further attempts in a row fail, the next
  attempt is due in min(1000 * 2^k, 15000) milliseconds: exponential backoff with a cap.
\<close>

theorem backoff_after_outage:
  assumes "enabled_run conn_enabled conn_step (start_connection init_store) es"
    and "c = conn_step (run conn_step (start_connection init_store) es) (Ws_open s)"
    and "conn_enabled (run conn_step (start_connection init_store) es) (Ws_open s)"
  shows "enabled_run conn_enabled conn_step c (outage s k)
    \<and> c_timers (run conn_step c (outage s k)) = [min (1000 * 2 ^ k) 15000]"
proof -
  let ?c0 = "run conn_step (start_connection init_store) es"
  have "conn_ok (start_connection init_store)"
    by (rule conn_ok_start[OF store_ok_init]) (simp add: init_store_def)
  from conn_run.inv_run[OF this assms(1)] have "conn_ok ?c0" .
  then obtain p where "c_sockets ?c0 = [(s, p)]" "c_timers ?c0 = []" "c_next ?c0 = Suc s"
    using assms(3) by (cases rule: conn_ok_cases) (auto split: if_splits)
  then have "c_sockets c = [(s, Open)]" "c_timers c = []" "c_next c = Suc s" "c_retry c = 1000"
    by (simp_all add: assms(2) handler_defs)
  then show ?thesis using outage_delay[of c s Open k] by simp
qed

section \<open>The properties at a sample run\<close>

lemma no_connection_yet: "\<not> st_ws_connected init_store"
  by (simp add: init_store_def)

theorem reconnects_forever_witness:
  "length (c_sockets (run conn_step (start_connection init_store) [Ws_open 0, Ws_close 0])) +
   length (c_timers (run conn_step (start_connection init_store) [Ws_open 0, Ws_close 0])) = 1"
proof -
  have "enabled_run conn_enabled conn_step (start_connection init_store) [Ws_open 0, Ws_close 0]"
    by (simp add: start_connection_def handler_defs)
  from reconnects_forever[OF this refl] show ?thesis by blast
qed

theorem backoff_after_outage_witness:
  "c_timers (run conn_step (conn_step (start_connection init_store) (Ws_open 0)) (outage 0 3)) = [8000]"
  using backoff_after_outage[of "[]" _ 0 3, OF _ refl]
  by (simp add: start_connection_def open_socket_def)

end
