(* ===== verification/Spec2Isabelle.thy ===== *)
theory Spec2Isabelle
  imports Zoom Toasts Saved Pages Heating Connection
begin

text \<open>
  The browser side of the NASA gateway: the dashboard under src/web/nasa_web/static/js, twelve modules of plain
  JavaScript that show the state of a heat pump and send it commands. The server (Python) and the gateway
  (C++) are outside the model; their messages and answers are its inputs.

  \<^bold>\<open>How the program works.\<close> \<open>store.js\<close> keeps the entities: a WebSocket delivers snapshots and state messages,
  which replace or mutate the entity objects, and subscribers are told. \<open>app.js\<close> is such a subscriber: it
  routes the hash of the address to one of five views, which it mounts and unmounts, and passes the events on to the
  current view and the drawer. The views draw by assigning markup, with the texts of \<open>format.js\<close>, the widgets of
  \<open>controls.js\<close> and the charts of \<open>charts.js\<close>; they ask \<open>api.js\<close> for histories and counter readings and draw
  the answers when they arrive, whatever happened in between.

  \<^bold>\<open>Theories and files.\<close>
  \<^item> Prelude: arrays, insertion-ordered Maps, the stable sort, runs of a state machine. Its locales \<open>keyed_store\<close> and
    \<open>machine\<close> are the contract of a Map and of an invariant kept by every step.
  \<^item> Doubles, Numbers: rounding to IEEE doubles (\<open>rnd\<close>, with the locale \<open>rounding\<close>) and the type \<open>jsnum\<close> of Numbers over it
    (NaN, the infinities, one zero), with the arithmetic, \<open>Math.min\<close>, \<open>Math.max\<close> and the coercions the code uses.
  \<^item> Texts, Format (format.js): strings as UTF-8 byte lists, number texts, escaping, the texts of values.
  \<^item> Store (store.js): entity objects in a heap that both Maps point into; messages, lookups, subscribers. Heating: the
    derived values (water law, heat output, COP). Connection: the WebSocket with its back-off.
  \<^item> Controls (controls.js): widgets, the listeners with debounce and expiry timers, \<open>confirmState\<close>.
  \<^item> Api (api.js): URLs, bodies, and what a request makes of its answer.
  \<^item> Gaps, BarChart, LineChart, Timeline (charts.js; \<open>resample\<close> of overview.js is in Gaps): gap insertion, sparklines, bar
    charts, the life of a line chart, state timelines.
  \<^item> Drawer (drawer.js): the entity drawer with requests in flight, statistics and recent changes.
  \<^item> Views: the contract of a view with the router (locales \<open>mounted_view\<close> and \<open>quiet_view\<close>), and intervals.
  \<^item> Calendar, Energy (views/energy.js): \<open>Date\<close> after the ECMAScript standard, the periods, rows, totals and texts.
  \<^item> Schematic, Overview (views/overview.js): the schematic and the page as element trees, live rendering, tiles, pills, the
    panel of controls, history, the day so far.
  \<^item> History (views/history.js), Settings (views/settings.js), Entities (views/entities.js): the other pages.
  \<^item> Plots (charts.js): a line chart with its plot options, legend, tooltip and zoom hook as a refinement of LineChart, the hover
    listeners of bar charts, the forms of dates. Toasts (\<open>toast\<close> of format.js, with the reports of Controls).
  \<^item> Saved: the custom sensors in \<open>localStorage\<close>, with the grammar of the texts that \<open>JSON.parse\<close> accepts. Pages: the frames of the history, energy and entities pages.
  \<^item> App (app.js): router, connection indicator, theme, and the whole page as one machine: views, drawer, and the state of the control
    listeners, which the overview, the settings and the drawer share. Zoom: a drag over a chart, from the
    hook of the plot over the history window to the request that is then in flight.

  \<^bold>\<open>State and operations.\<close> Module variables and the part of the page a module owns are a record (\<open>store\<close>, \<open>conn\<close>, \<open>ctl\<close>,
  \<open>chart\<close>, \<open>drawer\<close>, \<open>overview_view\<close>, \<open>history_view\<close>, \<open>energy_view\<close>, \<open>settings_view\<close>, \<open>entities_view\<close>, \<open>router\<close>, \<open>app\<close>); a handler is
  a function from that record to the next. An \<open>async\<close> function is split at its \<open>await\<close>: the first part puts a request in
  flight, the second is the handler of its answer, so that answers may come in any order, late, or never. Timers, charts,
  plots and animation frames are numbered, and lists record which are alive and which were destroyed. A \<open>_step\<close> function
  collects the handlers of a module, an \<open>_enabled\<close> predicate says which events the browser can deliver. \<open>null\<close> and
  \<open>undefined\<close> are \<open>None\<close>; an exception that ends a handler is a value of a sum or option, or leaves the state as it is at
  that point, as said where it happens.

  \<^bold>\<open>What the lemmas show.\<close> Well-formedness and lookups of the store through both Maps; reconnection with one live attempt at
  a time; commands within limits, one command for a burst of clicks whatever else happens meanwhile (unless a state message
  confirms the value), and a pending value only while it is on its way; the drawn timelines, resampled
  series and gaps against reference functions; bars, tank filling and ring inside their pictures; charts and plots destroyed
  exactly once; the periods of the energy page as consecutive local days or months, exact totals, the best period; the panel of
  controls against a full redraw, with what may differ; the groups of settings and the table of entities complete; where the
  history window can end, that "Later" leads it back to the present, that a drag sets it exactly and requests just that, and its
  custom sensors kept over a reload; plot, legend and tooltip of a chart in agreement; the iterations of \<open>resample\<close> counted,
  toasts that go; escaping loss-free and markup independent of the texts of entities; what every hash does; and,
  by the facts of \<open>mounted_view\<close> and \<open>quiet_view\<close> for every view, that a view which is not on show holds no interval, frame or
  chart, late answers included, save the custom charts that a late answer leaks. Some theorems describe behaviour that the
  code hardly intends: stale answers in the drawer and in the custom charts, a confirmed set point that stays pending, a refused
  option that stays marked, a hash that names an inherited property, a debounce that a state message breaks, an energy page
  that stays empty.

  \<^bold>\<open>Bounds.\<close> Readings are doubles of at most 10^6 or 10^12 where rounding matters (the water law can rise by a rounding
  error onto the warm end of its range, \<open>water_law_rounds\<close>), times and counters whole seconds or watt hours (or
  the grid of 2^-22 s) below 2^52, for which the arithmetic is exact. No loop of the model needs fuel except \<open>shortest\<close> in Texts (at most
  17 digits), \<open>decode_from\<close> in Format and \<open>parse_items\<close> and \<open>skip_value\<close> in Saved (at most two
  steps per character; \<open>esc_roundtrip\<close>, \<open>parse_json_strings\<close> and \<open>json_ok_strings\<close> show that the texts of the page are read).

  \<^bold>\<open>Parameters.\<close> Code or data outside the repository's JavaScript is an argument: \<open>loc\<close> (\<open>toLocaleString\<close>), \<open>collate\<close>
  (\<open>localeCompare\<close>), \<open>date_text\<close> (\<open>toLocaleDateString\<close>), \<open>css\<close> (computed styles), \<open>uplot_join\<close> (the data join of uPlot), \<open>log10\<close> and
  \<open>pow10\<close> (\<open>Math.log10\<close>, \<open>Math.pow\<close>, which the standard leaves approximate: \<open>decade_close\<close>), the \<open>zone\<close> of the browser
  (\<open>has_midnights\<close>: every local day begins at midnight), \<open>intl\<close> (dates in the browser's language), \<open>pos_to_val\<close> (\<open>posToVal\<close> of uPlot), random identifiers, and the clock.

  \<^bold>\<open>Not modelled.\<close> The calls of the DOM themselves (finding, creating and measuring elements), \<open>fetch\<close>, \<open>WebSocket\<close> and
  \<open>localStorage\<close> beyond what they deliver; the frames of the line chart and of the connection indicator; the stored theme, which a
  script outside these modules reads; white space between tags; case mapping and white space outside ASCII. The Python server, the C++ gateway,
  the vendored uPlot, style sheets and markup files are other components of the repository.
\<close>

end
